(* ===== verification/CN_Prelude.thy ===== *)
theory CN_Prelude imports Main "HOL-Library.Word" begin

text \<open>
  The prelude of the development: the collections of rewrite rules the components share, C byte
  strings (a buffer is a list of characters, a C string the part of it before the first NUL),
  the decimal notation that sprintf("%d") writes and atoi reads, and htons on 16-bit words.
  The conversions are interfaces: a buffer that is written with one and read with the other
  gives the value back, which the locale at the end states and its interpretation proves for
  the decimal buffers the servers exchange.
\<close>

named_theorems prog_simps \<open>equations that run a program one step\<close>
named_theorems buf_simps \<open>facts on C buffers and strings\<close>

unbundle bit_operations_syntax

section \<open>Lists\<close>

lemma take_overwrite [buf_simps]: "take (length d) (d @ drop n b) = d"
  by simp

lemma nth_update_other: "i \<noteq> j \<Longrightarrow> xs[i := v] ! j = xs ! j"
  by simp

lemma sum_list_update_nat:
  "i < length xs \<Longrightarrow> sum_list (xs[i := v]) + xs ! i = sum_list xs + (v :: nat)"
proof (induction xs arbitrary: i)
  case Nil
  then show ?case by simp
next
  case (Cons x xs)
  then show ?case by (cases i) (auto simp: algebra_simps)
qed

lemma upt_Suc_Cons: "i < n \<Longrightarrow> [i..<n] = i # [Suc i..<n]"
  by (rule upt_conv_Cons)

section \<open>C byte strings\<close>

abbreviation NUL :: char where "NUL \<equiv> CHR 0x00"

text \<open>The bytes of a string literal as an object in memory: the characters and the NUL.\<close>

definition lit :: "string \<Rightarrow> string" where
  "lit s = s @ [NUL]"

text \<open>What a string function reads from a buffer: the bytes before the first NUL.\<close>

definition c_str :: "string \<Rightarrow> string" where
  "c_str b = takeWhile (\<lambda>c. c \<noteq> NUL) b"

text \<open>A write of bytes to the front of a buffer leaves the rest as it was.\<close>

definition overwrite :: "string \<Rightarrow> string \<Rightarrow> string" where
  "overwrite b d = d @ drop (length d) b"

definition zeros :: "nat \<Rightarrow> string" where
  "zeros n = replicate n NUL"

definition no_nul :: "string \<Rightarrow> bool" where
  "no_nul s = list_all (\<lambda>c. c \<noteq> NUL) s"

lemma length_lit [buf_simps]: "length (lit s) = Suc (length s)"
  by (simp add: lit_def)

lemma length_zeros [buf_simps]: "length (zeros n) = n"
  by (simp add: zeros_def)

lemma length_overwrite [buf_simps]: "length d \<le> length b \<Longrightarrow> length (overwrite b d) = length b"
  by (simp add: overwrite_def)

lemma c_str_lit [buf_simps]: "no_nul s \<Longrightarrow> c_str (lit s) = s"
  by (simp add: c_str_def lit_def no_nul_def takeWhile_append2 list_all_iff)

lemma c_str_lit_append [buf_simps]: "no_nul s \<Longrightarrow> c_str (lit s @ r) = s"
  by (simp add: c_str_def lit_def no_nul_def takeWhile_append2 list_all_iff)

lemma c_str_overwrite_lit [buf_simps]: "no_nul s \<Longrightarrow> c_str (overwrite b (lit s)) = s"
  by (simp add: overwrite_def c_str_lit_append)

lemma c_str_zeros [buf_simps]: "c_str (zeros n) = ''''"
  by (cases n) (simp_all add: c_str_def zeros_def)

lemma c_str_take:
  assumes "no_nul s" "length s < n"
  shows "c_str (take n (lit s @ r)) = s"
proof -
  from assms(2) have "take n (lit s @ r) = lit s @ take (n - Suc (length s)) r"
    by (simp add: lit_def Suc_diff_Suc [symmetric] del: Suc_diff_Suc)
  with assms(1) show ?thesis by (simp add: c_str_lit_append)
qed

lemma no_nul_c_str: "no_nul (c_str b)"
  by (auto simp: no_nul_def c_str_def list_all_iff dest: set_takeWhileD)

lemma length_c_str: "length (c_str b) \<le> length b"
  by (simp add: c_str_def length_takeWhile_le)

section \<open>Decimal notation: sprintf("%d") and atoi\<close>

definition digit_char :: "nat \<Rightarrow> char" where
  "digit_char d = char_of (48 + d)"

definition is_digit :: "char \<Rightarrow> bool" where
  "is_digit c = (48 \<le> (of_char c :: nat) \<and> (of_char c :: nat) \<le> 57)"

definition digit_val :: "char \<Rightarrow> nat" where
  "digit_val c = of_char c - 48"

fun dec_nat :: "nat \<Rightarrow> string" where
  "dec_nat n = (if n < 10 then [digit_char n] else dec_nat (n div 10) @ [digit_char (n mod 10)])"

declare dec_nat.simps [simp del]

definition dec :: "int \<Rightarrow> string" where
  "dec i = (if i < 0 then CHR ''-'' # dec_nat (nat (- i)) else dec_nat (nat i))"

definition is_space :: "char \<Rightarrow> bool" where
  "is_space c = (c = CHR '' '' \<or> (9 \<le> (of_char c :: nat) \<and> (of_char c :: nat) \<le> 13))"

fun read_digits :: "nat \<Rightarrow> string \<Rightarrow> nat" where
  "read_digits acc [] = acc"
| "read_digits acc (c # cs) =
     (if is_digit c then read_digits (10 * acc + digit_val c) cs else acc)"

fun atoi_signed :: "string \<Rightarrow> int" where
  "atoi_signed [] = 0"
| "atoi_signed (c # cs) =
     (if c = CHR ''-'' then - int (read_digits 0 cs)
      else if c = CHR ''+'' then int (read_digits 0 cs)
      else int (read_digits 0 (c # cs)))"

text \<open>atoi skips white space, takes one sign, and stops at the first byte that is no digit.\<close>

definition atoi :: "string \<Rightarrow> int" where
  "atoi b = atoi_signed (dropWhile is_space b)"

lemma of_char_digit_char: "d < 10 \<Longrightarrow> (of_char (digit_char d) :: nat) = 48 + d"
  by (simp add: digit_char_def)

lemma is_digit_digit_char [simp]: "d < 10 \<Longrightarrow> is_digit (digit_char d)"
  by (simp add: is_digit_def of_char_digit_char)

lemma digit_val_digit_char [simp]: "d < 10 \<Longrightarrow> digit_val (digit_char d) = d"
  by (simp add: digit_val_def of_char_digit_char)

lemma digit_char_not: "d < 10 \<Longrightarrow> digit_char d \<noteq> NUL \<and> digit_char d \<noteq> CHR ''-'' \<and>
    digit_char d \<noteq> CHR ''+'' \<and> \<not> is_space (digit_char d)"
  using of_char_digit_char [of d] by (auto simp: is_space_def)

lemma digit_char_table [simp]:
  "digit_char 0 = CHR ''0''" "digit_char (Suc 0) = CHR ''1''" "digit_char 2 = CHR ''2''"
  "digit_char 3 = CHR ''3''" "digit_char 4 = CHR ''4''" "digit_char 5 = CHR ''5''"
  "digit_char 6 = CHR ''6''" "digit_char 7 = CHR ''7''" "digit_char 8 = CHR ''8''"
  "digit_char 9 = CHR ''9''"
  by code_simp+

lemma read_digits_append:
  "list_all is_digit s \<Longrightarrow> read_digits acc (s @ r) = read_digits (read_digits acc s) r"
  by (induction s arbitrary: acc) auto

lemma dec_nat_digits: "list_all is_digit (dec_nat n)"
proof (induction n rule: dec_nat.induct)
  case (1 n)
  then show ?case by (subst dec_nat.simps) (auto simp: not_less)
qed

lemma read_dec_nat: "read_digits 0 (dec_nat n) = n"
proof (induction n rule: dec_nat.induct)
  case (1 n)
  show ?case
  proof (cases "n < 10")
    case True
    then show ?thesis by (simp add: dec_nat.simps [of n])
  next
    case False
    with 1 have "read_digits 0 (dec_nat (n div 10)) = n div 10" by simp
    with False show ?thesis
      by (simp add: dec_nat.simps [of n] read_digits_append dec_nat_digits)
  qed
qed

lemma read_digits_stop: "\<not> is_digit c \<Longrightarrow> list_all is_digit s \<Longrightarrow>
    read_digits acc (s @ c # r) = read_digits acc s"
  by (induction s arbitrary: acc) auto

lemma not_is_digit_NUL [simp]: "\<not> is_digit NUL"
  by (simp add: is_digit_def)

lemma dec_nat_Cons: "\<exists>d t. d < 10 \<and> dec_nat n = digit_char d # t"
proof (induction n rule: dec_nat.induct)
  case (1 n)
  show ?case
  proof (cases "n < 10")
    case True
    then show ?thesis by (subst dec_nat.simps) auto
  next
    case False
    with 1 obtain d t where "d < 10" "dec_nat (n div 10) = digit_char d # t" by blast
    with False show ?thesis by (subst dec_nat.simps) auto
  qed
qed

lemma atoi_dec_nat: "atoi (dec_nat n @ NUL # r) = int n"
proof -
  obtain d t where d: "d < 10" "dec_nat n = digit_char d # t" using dec_nat_Cons by blast
  have "read_digits 0 (dec_nat n @ NUL # r) = n"
    by (simp add: read_digits_stop dec_nat_digits read_dec_nat)
  with d digit_char_not [OF d(1)] show ?thesis by (simp add: atoi_def del: read_digits.simps)
qed

lemma atoi_dec [buf_simps]: "atoi (lit (dec i) @ r) = i"
proof (cases "i < 0")
  case True
  have "read_digits 0 (dec_nat (nat (- i)) @ NUL # r) = nat (- i)"
    by (simp add: read_digits_stop dec_nat_digits read_dec_nat)
  with True show ?thesis by (simp add: dec_def lit_def atoi_def is_space_def)
next
  case False
  then show ?thesis by (simp add: dec_def lit_def atoi_dec_nat)
qed

lemma no_nul_dec [buf_simps]: "no_nul (dec i)"
proof -
  have "no_nul (dec_nat n)" for n
    using dec_nat_digits [of n] by (auto simp: no_nul_def list_all_iff)
  then show ?thesis by (auto simp: dec_def no_nul_def)
qed

lemma length_dec_nat: "n < 10 ^ k \<Longrightarrow> 0 < k \<Longrightarrow> length (dec_nat n) \<le> k"
proof (induction k arbitrary: n)
  case 0
  then show ?case by simp
next
  case (Suc k)
  show ?case
  proof (cases "n < 10")
    case True
    then show ?thesis by (simp add: dec_nat.simps [of n])
  next
    case False
    with Suc.prems have k: "n div 10 < 10 ^ k" by simp
    have "0 < k"
    proof (rule ccontr)
      assume "\<not> 0 < k"
      with k False show False by simp
    qed
    with Suc.IH [OF k] False show ?thesis by (simp add: dec_nat.simps [of n])
  qed
qed

lemma length_dec:
  assumes "- (2 ^ 31) \<le> i" "i < 2 ^ 31"
  shows "length (lit (dec i)) \<le> 12"
proof -
  from assms have "nat (- i) < 10 ^ 10" "nat i < 10 ^ 10" by auto
  then show ?thesis
    using length_dec_nat [of "nat (- i)" 10] length_dec_nat [of "nat i" 10]
    by (simp add: dec_def lit_def)
qed

section \<open>Network byte order\<close>

text \<open>htons on a little-endian host: the two bytes change places.\<close>

definition htons :: "16 word \<Rightarrow> 16 word" where
  "htons w = push_bit 8 w OR drop_bit 8 w"

definition htons_int :: "int \<Rightarrow> 16 word" where
  "htons_int i = htons (word_of_int i)"

lemma htons_htons [simp]: "htons (htons w) = w"
  unfolding htons_def
  by (rule bit_word_eqI) (auto simp: bit_simps not_less dest: bit_imp_le_length)

lemma htons_inj [simp]: "htons v = htons w \<longleftrightarrow> v = w"
  by (metis htons_htons)

section \<open>Tokens\<close>

text \<open>strtok: the first token and what is left behind it.\<close>

definition strtok :: "string \<Rightarrow> string \<Rightarrow> (string \<times> string) option" where
  "strtok delims s =
     (let t = dropWhile (\<lambda>c. c \<in> set delims) s in
      if t = [] then None
      else Some (takeWhile (\<lambda>c. c \<notin> set delims) t, drop 1 (dropWhile (\<lambda>c. c \<notin> set delims) t)))"

section \<open>The interface of a value buffer\<close>

text \<open>
  Two programs that exchange a value through a fixed-size buffer rely on this contract: what one
  encodes fits the buffer, and the other decodes it whatever bytes follow it in the buffer.
\<close>

locale value_buffer =
  fixes enc :: "'v \<Rightarrow> string"
    and val :: "string \<Rightarrow> 'v"
    and valid :: "'v \<Rightarrow> bool"
    and cap :: nat
  assumes val_enc: "valid v \<Longrightarrow> val (enc v @ r) = v"
    and enc_fits: "valid v \<Longrightarrow> length (enc v) \<le> cap"
begin

lemma sent_prefix:
  assumes "valid v" "cap \<le> n"
  shows "val (take n (enc v @ r)) = v"
proof -
  from assms enc_fits [of v] have "length (enc v) \<le> n" by simp
  then have "take n (enc v @ r) = enc v @ take (n - length (enc v)) r" by simp
  with val_enc [OF assms(1)] show ?thesis by simp
qed

lemma through_buffer:
  assumes "valid v" "cap \<le> n"
  shows "val (overwrite b (take n (enc v @ r))) = v"
proof -
  from assms enc_fits [of v] have "length (enc v) \<le> n" by simp
  then have "overwrite b (take n (enc v @ r)) =
      enc v @ take (n - length (enc v)) r @ drop (length (take n (enc v @ r))) b"
    by (simp add: overwrite_def)
  with val_enc [OF assms(1)] show ?thesis by simp
qed

lemma enc_inj: "valid v \<Longrightarrow> valid w \<Longrightarrow> enc v = enc w \<Longrightarrow> v = w"
  by (metis val_enc)

end

definition int32 :: "int \<Rightarrow> bool" where
  "int32 i = (- (2 ^ 31) \<le> i \<and> i < 2 ^ 31)"

interpretation dec_buf: value_buffer "\<lambda>i. lit (dec i)" atoi int32 12
  by unfold_locales (simp_all add: atoi_dec int32_def length_dec)

end
