(* ===== verification/CN_Prog.thy ===== *)
theory CN_Prog imports CN_Prelude begin

text \<open>
  Programs as interaction trees. A C program of the repository is a term of type prog: it makes
  a system call and goes on with a continuation that is given the kernel's answer, prints, exits,
  or runs into undefined behaviour. An endless loop is unrolled a number of times (its fuel);
  Cut marks where the unrolling stops, and the order on programs below puts Cut at the bottom,
  so that the unrollings of a loop approximate the endless program from below. A run feeds a
  list of answers to a tree and gives the calls made and the way the run ended.
\<close>

section \<open>System calls and answers\<close>

datatype addr =
    Inet (port_be: "16 word") (in_addr: "32 word")
  | UnixPath string
  | LinkLayer int "16 word"

datatype domain = AF_INET | AF_UNIX | PF_PACKET

datatype sock_type = SOCK_STREAM | SOCK_DGRAM | SOCK_RAW

datatype sockopt = SO_REUSEADDR | SO_REUSEPORT | IP_HDRINCL

datatype open_flag = O_RDONLY | O_WRONLY | O_RDWR | O_NONBLOCK | O_CREAT

text \<open>
  The calls with the arguments the programs give. A send or write carries the bytes of the
  object its buffer argument points to and the number of bytes asked for; a recv or read
  carries the number of bytes asked for. Setvar and Getvar are the accesses to the variable whose
  address a program hands to its threads: they show where another thread may come between.
\<close>

datatype (plugins only: code size) call =
    Socket domain sock_type int
  | Socketpair domain sock_type int
  | Setsockopt int sockopt
  | Bind int addr
  | Listen int int
  | Accept int
  | Connect int addr
  | Shutdown int
  | Send int string int
  | Recv int int
  | Sendto int string int addr
  | Recvfrom int int
  | Sendmsg int string int
  | Recvmsg int
  | Write int string int
  | Read int int
  | Close int
  | Dup2 int int
  | Fork
  | Wait
  | Execve string "string list"
  | Signal int string
  | Raise int
  | Kill int int
  | Getpid
  | Pause
  | Shmget int int bool
  | Shmat int
  | ShmLoad int nat
  | ShmStore int nat int
  | Mkfifo string
  | Open string "open_flag list"
  | Unlink string
  | Pipe
  | Popen string
  | Fopen string
  | Fscanf int
  | Feof int
  | Poll "(int \<times> int) list" int
  | Select int "int list"
  | Pthread_create string string
  | Pthread_join string
  | Setvar int
  | Getvar
  | Getsockname int
  | Getpeername int
  | Gethostbyname string
  | Gettimeofday
  | Ioctl int string
  | Scanf_int
  | Scanf_str
  | Gets
  | Fgets int
  | Sleep int
  | Srand int
  | Rand
  | Fprintf int string
  | Access string
  | Stat string
  | Lseek int int
  | Opendir string
  | Readdir
  | Chdir string
  | Chmod string int
  | Remove string
  | Mkdir string int
  | Creat string int
  | Getpwuid int
  | Getgrgid int
  | Strftime int
  | Clnt_create string int int
  | Clnt_call int "string list" "int list"
  | Pmap_unset int int
  | Svc_create int
  | Svc_register int int int int
  | Svc_getreq
  | Svc_sendreply int string

text \<open>
  An answer: the return value, the bytes the kernel put into the caller's buffer, and the
  integers it put into an array (the ready descriptors of a select, the revents of a poll, the
  two ends of a pipe).
\<close>

record ans =
  ret :: int
  dat :: string
  ints :: "int list"

definition rets :: "int \<Rightarrow> ans" where
  "rets r = \<lparr>ret = r, dat = '''', ints = []\<rparr>"

definition gives :: "string \<Rightarrow> ans" where
  "gives d = \<lparr>ret = int (length d), dat = d, ints = []\<rparr>"

definition gets_ints :: "int \<Rightarrow> int list \<Rightarrow> ans" where
  "gets_ints r is = \<lparr>ret = r, dat = '''', ints = is\<rparr>"

lemma ans_sel [simp]:
  "ret (rets r) = r" "dat (rets r) = ''''" "ints (rets r) = []"
  "ret (gives d) = int (length d)" "dat (gives d) = d" "ints (gives d) = []"
  "ret (gets_ints r is) = r" "dat (gets_ints r is) = ''''" "ints (gets_ints r is) = is"
  by (simp_all add: rets_def gives_def gets_ints_def)

text \<open>
  The bytes a receiving call of at most n bytes stores: none on an error or at end of file,
  never more than n.
\<close>

definition got :: "int \<Rightarrow> ans \<Rightarrow> string" where
  "got n a = take (nat n) (take (nat (ret a)) (dat a))"

lemma got_gives [simp]: "int (length d) \<le> n \<Longrightarrow> got n (gives d) = d"
  by (simp add: got_def gives_def)

lemma got_error [simp]: "ret a \<le> 0 \<Longrightarrow> got n a = ''''"
  by (simp add: got_def)

lemma length_got: "length (got n a) \<le> nat n"
  by (simp add: got_def)

section \<open>Programs\<close>

datatype prog =
    Exit int
  | Undef
  | Diverge
  | Cut
  | Out string prog
  | Perror string prog
  | Call call "ans \<Rightarrow> prog"

datatype obs = Did call ans | Printed string

datatype final = Exited int | Undefined | Diverged | Unrolled | Waiting call

text \<open>One run: the answers are used in order; with none left the run waits in its call.\<close>

primrec exec :: "prog \<Rightarrow> ans list \<Rightarrow> obs list \<times> final" where
  "exec (Exit n) as = ([], Exited n)"
| "exec Undef as = ([], Undefined)"
| "exec Diverge as = ([], Diverged)"
| "exec Cut as = ([], Unrolled)"
| "exec (Out s p) as = (case exec p as of (t, f) \<Rightarrow> (Printed s # t, f))"
| "exec (Perror s p) as = exec p as"
| "exec (Call c k) as =
     (case as of [] \<Rightarrow> ([], Waiting c)
      | a # as' \<Rightarrow> (case exec (k a) as' of (t, f) \<Rightarrow> (Did c a # t, f)))"

definition trace :: "prog \<Rightarrow> ans list \<Rightarrow> obs list" where
  "trace p as = fst (exec p as)"

definition final_of :: "prog \<Rightarrow> ans list \<Rightarrow> final" where
  "final_of p as = snd (exec p as)"

lemma trace_simps [simp, prog_simps]:
  "trace (Exit n) as = []"
  "trace Undef as = []"
  "trace Diverge as = []"
  "trace Cut as = []"
  "trace (Out s p) as = Printed s # trace p as"
  "trace (Perror s p) as = trace p as"
  "trace (Call c k) [] = []"
  "trace (Call c k) (a # as) = Did c a # trace (k a) as"
  by (simp_all add: trace_def split: prod.splits)

lemma final_simps [simp, prog_simps]:
  "final_of (Exit n) as = Exited n"
  "final_of Undef as = Undefined"
  "final_of Diverge as = Diverged"
  "final_of Cut as = Unrolled"
  "final_of (Out s p) as = final_of p as"
  "final_of (Perror s p) as = final_of p as"
  "final_of (Call c k) [] = Waiting c"
  "final_of (Call c k) (a # as) = final_of (k a) as"
  by (simp_all add: final_of_def split: prod.splits)

text \<open>The calls of a run, and what it printed.\<close>

fun calls :: "obs list \<Rightarrow> call list" where
  "calls [] = []"
| "calls (Did c a # t) = c # calls t"
| "calls (Printed s # t) = calls t"

fun printed :: "obs list \<Rightarrow> string list" where
  "printed [] = []"
| "printed (Did c a # t) = printed t"
| "printed (Printed s # t) = s # printed t"

section \<open>Runs against a kernel\<close>

text \<open>
  Where the calls matter and not only their answers, the answers come from a kernel: a function
  from a call and the kernel's state to the answer and the next state. The run ends with what it
  printed, how it ended and the kernel's state.
\<close>

primrec run :: "(call \<Rightarrow> 'k \<Rightarrow> ans \<times> 'k) \<Rightarrow> prog \<Rightarrow> 'k \<Rightarrow> string list \<times> final \<times> 'k" where
  "run K (Exit n) s = ([], Exited n, s)"
| "run K Undef s = ([], Undefined, s)"
| "run K Diverge s = ([], Diverged, s)"
| "run K Cut s = ([], Unrolled, s)"
| "run K (Out x p) s = (case run K p s of (t, r) \<Rightarrow> (x # t, r))"
| "run K (Perror x p) s = run K p s"
| "run K (Call c k) s = (case K c s of (a, s') \<Rightarrow> run K (k a) s')"

section \<open>The approximation order\<close>

instantiation prog :: order
begin

primrec less_eq_prog :: "prog \<Rightarrow> prog \<Rightarrow> bool" where
  "less_eq_prog (Exit n) q = (q = Exit n)"
| "less_eq_prog Undef q = (q = Undef)"
| "less_eq_prog Diverge q = (q = Diverge)"
| "less_eq_prog Cut q = True"
| "less_eq_prog (Out s p) q = (\<exists>p'. q = Out s p' \<and> less_eq_prog p p')"
| "less_eq_prog (Perror s p) q = (\<exists>p'. q = Perror s p' \<and> less_eq_prog p p')"
| "less_eq_prog (Call c k) q = (\<exists>k'. q = Call c k' \<and> (\<forall>a. less_eq_prog (k a) (k' a)))"

definition less_prog :: "prog \<Rightarrow> prog \<Rightarrow> bool" where
  "less_prog p q = (p \<le> q \<and> \<not> q \<le> (p :: prog))"

instance
proof
  show refl: "(p :: prog) \<le> p" for p
    by (induction p) auto
  show trans: "p \<le> r" if "p \<le> q" "q \<le> r" for p q r :: prog
    using that by (induction p arbitrary: q r) (auto, blast+)
  show "p = q" if "p \<le> q" "q \<le> p" for p q :: prog
    using that by (induction p arbitrary: q) (auto, case_tac q, auto)
  show "(p < q) = (p \<le> q \<and> \<not> q \<le> p)" for p q :: prog
    by (rule less_prog_def)
qed

end

text \<open>A run that ends before the unrolling does is the same in every better approximation.\<close>

lemma exec_approx: "p \<le> q \<Longrightarrow> final_of p as \<noteq> Unrolled \<Longrightarrow> exec q as = exec p as"
proof (induction p arbitrary: q as)
  case (Out s p)
  then obtain p' where q: "q = Out s p'" "p \<le> p'" by auto
  with Out.IH [of p' as] Out.prems(2) show ?case by simp
next
  case (Perror s p)
  then obtain p' where q: "q = Perror s p'" "p \<le> p'" by auto
  with Perror.IH [of p' as] Perror.prems(2) show ?case by simp
next
  case (Call c k)
  then obtain k' where q: "q = Call c k'" "\<And>a. k a \<le> k' a" by auto
  show ?case
  proof (cases as)
    case Nil
    with q show ?thesis by simp
  next
    case (Cons a as')
    with Call.IH [of "k a" "k' a" as'] Call.prems(2) q show ?thesis by simp
  qed
qed simp_all

section \<open>Loops and arrays\<close>

text \<open>for (x in xs): the body goes on with its continuation, or leaves the loop without it.\<close>

primrec for_each :: "'b list \<Rightarrow> ('b \<Rightarrow> 's \<Rightarrow> ('s \<Rightarrow> prog) \<Rightarrow> prog) \<Rightarrow> 's \<Rightarrow> ('s \<Rightarrow> prog) \<Rightarrow> prog" where
  "for_each [] body s k = k s"
| "for_each (x # xs) body s k = body x s (\<lambda>s'. for_each xs body s' k)"

text \<open>while (1), unrolled n times.\<close>

primrec forever :: "nat \<Rightarrow> ('s \<Rightarrow> ('s \<Rightarrow> prog) \<Rightarrow> prog) \<Rightarrow> 's \<Rightarrow> prog" where
  "forever 0 body s = Cut"
| "forever (Suc n) body s = body s (forever n body)"

text \<open>Reading or writing an array outside its bounds is undefined in C.\<close>

definition arr_get :: "'a list \<Rightarrow> int \<Rightarrow> ('a \<Rightarrow> prog) \<Rightarrow> prog" where
  "arr_get xs i k = (if 0 \<le> i \<and> i < int (length xs) then k (xs ! nat i) else Undef)"

definition arr_set :: "'a list \<Rightarrow> int \<Rightarrow> 'a \<Rightarrow> ('a list \<Rightarrow> prog) \<Rightarrow> prog" where
  "arr_set xs i v k = (if 0 \<le> i \<and> i < int (length xs) then k (xs[nat i := v]) else Undef)"

lemma arr_get_in [simp]: "0 \<le> i \<Longrightarrow> i < int (length xs) \<Longrightarrow> arr_get xs i k = k (xs ! nat i)"
  by (simp add: arr_get_def)

lemma arr_get_out [simp]: "i < 0 \<or> int (length xs) \<le> i \<Longrightarrow> arr_get xs i k = Undef"
  by (auto simp: arr_get_def)

lemma arr_set_in [simp]: "0 \<le> i \<Longrightarrow> i < int (length xs) \<Longrightarrow> arr_set xs i v k = k (xs[nat i := v])"
  by (simp add: arr_set_def)

lemma arr_set_out [simp]: "i < 0 \<or> int (length xs) \<le> i \<Longrightarrow> arr_set xs i v k = Undef"
  by (auto simp: arr_set_def)

definition mono_body :: "('s \<Rightarrow> ('s \<Rightarrow> prog) \<Rightarrow> prog) \<Rightarrow> bool" where
  "mono_body body = (\<forall>s k k'. (\<forall>s'. k s' \<le> k' s') \<longrightarrow> body s k \<le> body s k')"

lemma forever_Suc_le: "mono_body body \<Longrightarrow> forever n body s \<le> forever (Suc n) body s"
proof (induction n arbitrary: s)
  case 0
  show ?case by simp
next
  case (Suc n)
  then have "\<forall>s'. forever n body s' \<le> forever (Suc n) body s'" by blast
  with Suc.prems show ?case unfolding mono_body_def forever.simps(2) [of "Suc n"]
    by (subst forever.simps(2)) blast
qed

lemma forever_mono: "mono_body body \<Longrightarrow> n \<le> m \<Longrightarrow> forever n body s \<le> forever m body s"
proof (induction m)
  case 0
  then show ?case by simp
next
  case (Suc m)
  have "forever m body s \<le> forever (Suc m) body s" by (rule forever_Suc_le [OF Suc.prems(1)])
  with Suc show ?case by (auto simp: le_Suc_eq simp del: forever.simps intro: order.trans)
qed

section \<open>Reading input\<close>

text \<open>scanf("%d", &x): the variable keeps its value when nothing was converted.\<close>

definition scan_int :: "int \<Rightarrow> (int \<Rightarrow> prog) \<Rightarrow> prog" where
  "scan_int old k = Call Scanf_int (\<lambda>a. k (if ret a = 1 \<and> ints a \<noteq> [] then hd (ints a) else old))"

text \<open>The answer to a scanf that converted v.\<close>

definition typed :: "int \<Rightarrow> ans" where
  "typed v = gets_ints 1 [v]"

lemma exec_scan_int [simp]:
  "exec (scan_int old k) (typed v # as) =
    (case exec (k v) as of (t, f) \<Rightarrow> (Did Scanf_int (typed v) # t, f))"
  by (simp add: scan_int_def typed_def)

lemma scan_int_typed [simp]:
  "trace (scan_int old k) (typed v # as) = Did Scanf_int (typed v) # trace (k v) as"
  "final_of (scan_int old k) (typed v # as) = final_of (k v) as"
  by (simp_all add: scan_int_def typed_def)

abbreviation newline :: char where "newline \<equiv> CHR 0x0A"

abbreviation line :: "string \<Rightarrow> string" where "line s \<equiv> s @ [newline]"

text \<open>The loops that read an int array element by element, and that print one.\<close>

definition read_int_at :: "nat \<Rightarrow> int list \<Rightarrow> (int list \<Rightarrow> prog) \<Rightarrow> prog" where
  "read_int_at i arr k =
     arr_get arr (int i) (\<lambda>old. scan_int old (\<lambda>v. arr_set arr (int i) v k))"

definition read_ints :: "nat \<Rightarrow> int list \<Rightarrow> (int list \<Rightarrow> prog) \<Rightarrow> prog" where
  "read_ints n arr k = for_each [0..<n] read_int_at arr k"

definition print_ints :: "int list \<Rightarrow> prog \<Rightarrow> prog" where
  "print_ints xs k = for_each xs (\<lambda>x _ k. Out (dec x @ '' '') (k ())) () (\<lambda>_. k)"

lemma exec_read_int_at:
  "i < length arr \<Longrightarrow> exec (read_int_at i arr k) (typed v # as) =
    (case exec (k (arr[i := v])) as of (t, f) \<Rightarrow> (Did Scanf_int (typed v) # t, f))"
  by (simp add: read_int_at_def)

lemma exec_read_from:
  "i + length xs \<le> length arr \<Longrightarrow>
    exec (for_each [i..<i + length xs] read_int_at arr k) (map typed xs @ as) =
      (case exec (k (take i arr @ xs @ drop (i + length xs) arr)) as of
        (t, f) \<Rightarrow> (map (\<lambda>x. Did Scanf_int (typed x)) xs @ t, f))"
proof (induction xs arbitrary: i arr)
  case Nil
  then show ?case by (auto split: prod.splits)
next
  case (Cons x xs)
  then have i: "i < length arr" "Suc i + length xs \<le> length (arr[i := x])" by auto
  have arr: "take (Suc i) (arr[i := x]) @ xs @ drop (Suc i + length xs) (arr[i := x]) =
      take i arr @ (x # xs) @ drop (i + length (x # xs)) arr"
    using i by (simp add: take_Suc_conv_app_nth)
  have upt: "[i..<i + length (x # xs)] = i # [Suc i..<Suc i + length xs]"
    by (subst upt_Suc_Cons) simp_all
  from Cons.IH [OF i(2)] show ?case
    unfolding upt for_each.simps list.map append_Cons exec_read_int_at [OF i(1)] arr
    by (simp split: prod.splits)
qed

lemma exec_read_ints:
  "length xs \<le> length arr \<Longrightarrow> exec (read_ints (length xs) arr k) (map typed xs @ as) =
    (case exec (k (xs @ drop (length xs) arr)) as of
      (t, f) \<Rightarrow> (map (\<lambda>x. Did Scanf_int (typed x)) xs @ t, f))"
  using exec_read_from [of 0 xs arr k as] by (simp add: read_ints_def)

lemma exec_print_ints [simp]:
  "exec (print_ints xs k) as =
    (case exec k as of (t, f) \<Rightarrow> (map (\<lambda>x. Printed (dec x @ '' '')) xs @ t, f))"
  unfolding print_ints_def by (induction xs) (auto split: prod.splits)

lemma printed_append [simp]: "printed (s @ t) = printed s @ printed t"
  by (induction s rule: printed.induct) auto

lemma calls_append [simp]: "calls (s @ t) = calls s @ calls t"
  by (induction s rule: calls.induct) auto

lemma printed_Did [simp]: "printed (map (\<lambda>x. Did (c x) (a x)) xs) = []"
  by (induction xs) auto

lemma printed_Printed [simp]: "printed (map (\<lambda>x. Printed (g x)) xs) = map g xs"
  by (induction xs) auto

end
