(* ===== verification/CN_Monitor.thy ===== *)
theory CN_Monitor imports CN_Prog begin

text \<open>
  Safety of programs. A monitor watches the calls of a program: it holds a state, says which
  calls are in order in it and how a call with its answer changes it. A program obeys a monitor
  when every call of every run is in order. The locale states when a richer monitor state
  permits more, and derives the rules for loops; the interpretation is the descriptor
  discipline, that a program only uses descriptors the kernel gave it and that it has not
  closed since.
\<close>

section \<open>Programs that obey a monitor\<close>

primrec obeys :: "('m \<Rightarrow> call \<Rightarrow> bool) \<Rightarrow> ('m \<Rightarrow> call \<Rightarrow> ans \<Rightarrow> 'm) \<Rightarrow> 'm \<Rightarrow> prog \<Rightarrow> bool" where
  "obeys ok upd m (Exit n) = True"
| "obeys ok upd m Undef = True"
| "obeys ok upd m Diverge = True"
| "obeys ok upd m Cut = True"
| "obeys ok upd m (Out s p) = obeys ok upd m p"
| "obeys ok upd m (Perror s p) = obeys ok upd m p"
| "obeys ok upd m (Call c k) = (ok m c \<and> (\<forall>a. obeys ok upd (upd m c a) (k a)))"

fun trace_ok :: "('m \<Rightarrow> call \<Rightarrow> bool) \<Rightarrow> ('m \<Rightarrow> call \<Rightarrow> ans \<Rightarrow> 'm) \<Rightarrow> 'm \<Rightarrow> obs list \<Rightarrow> bool" where
  "trace_ok ok upd m [] = True"
| "trace_ok ok upd m (Printed s # t) = trace_ok ok upd m t"
| "trace_ok ok upd m (Did c a # t) = (ok m c \<and> trace_ok ok upd (upd m c a) t)"

lemma obeys_trace: "obeys ok upd m p \<Longrightarrow> trace_ok ok upd m (trace p as)"
proof (induction p arbitrary: m as)
  case (Call c k)
  then show ?case by (cases as) auto
qed auto

text \<open>A loop whose state bounds the state of the monitor at the head of the loop.\<close>

lemma obeys_forever_inv:
  assumes "\<And>s m k. R s m \<Longrightarrow> (\<And>s' m'. R s' m' \<Longrightarrow> obeys ok upd m' (k s')) \<Longrightarrow> obeys ok upd m (body s k)"
  shows "R s m \<Longrightarrow> obeys ok upd m (forever n body s)"
proof (induction n arbitrary: s m)
  case (Suc n)
  show ?case unfolding forever.simps by (rule assms [OF Suc.prems Suc.IH])
qed simp

section \<open>Monitors as an interface\<close>

locale monitor =
  fixes ok :: "'m \<Rightarrow> call \<Rightarrow> bool"
    and upd :: "'m \<Rightarrow> call \<Rightarrow> ans \<Rightarrow> 'm"
    and le :: "'m \<Rightarrow> 'm \<Rightarrow> bool"
  assumes le_refl: "le m m"
    and le_trans: "le m m' \<Longrightarrow> le m' m'' \<Longrightarrow> le m m''"
    and ok_mono: "le m m' \<Longrightarrow> ok m c \<Longrightarrow> ok m' c"
    and upd_mono: "le m m' \<Longrightarrow> le (upd m c a) (upd m' c a)"
begin

lemma obeys_le: "obeys ok upd m p \<Longrightarrow> le m m' \<Longrightarrow> obeys ok upd m' p"
proof (induction p arbitrary: m m')
  case (Call c k)
  have "obeys ok upd (upd m' c a) (k a)" for a
  proof (rule Call.IH [OF rangeI])
    show "obeys ok upd (upd m c a) (k a)" using Call.prems(1) by simp
    show "le (upd m c a) (upd m' c a)" by (rule upd_mono [OF Call.prems(2)])
  qed
  moreover have "ok m' c" using ok_mono [OF Call.prems(2)] Call.prems(1) by simp
  ultimately show ?case by simp
qed auto

text \<open>A loop obeys the monitor when its body does from every state that permits at least m.\<close>

lemma obeys_for_each:
  assumes body: "\<And>x s m' k'. x \<in> set xs \<Longrightarrow> le m m' \<Longrightarrow> I s \<Longrightarrow>
      (\<And>s'. I s' \<Longrightarrow> obeys ok upd m (k' s')) \<Longrightarrow> obeys ok upd m' (body x s k')"
    and "I s" and "le m m'"
    and k: "\<And>s'. I s' \<Longrightarrow> obeys ok upd m (k s')"
  shows "obeys ok upd m' (for_each xs body s k)"
  using assms
proof (induction xs arbitrary: s m')
  case Nil
  have "obeys ok upd m (k s)" by (rule Nil.prems(4) [OF Nil.prems(2)])
  from obeys_le [OF this Nil.prems(3)] show ?case by simp
next
  case (Cons x xs)
  have IH: "obeys ok upd m (for_each xs body s' k)" if "I s'" for s'
  proof (rule Cons.IH [OF _ that le_refl])
    show "obeys ok upd m'' (body y t k')" if "y \<in> set xs" "le m m''" "I t"
        "\<And>s'. I s' \<Longrightarrow> obeys ok upd m (k' s')" for y t m'' k'
      by (rule Cons.prems(1)) (use that in auto)
    show "obeys ok upd m (k t)" if "I t" for t by (rule Cons.prems(4) [OF that])
  qed
  show ?case
    unfolding for_each.simps by (rule Cons.prems(1)) (use Cons.prems(2,3) IH in auto)
qed

lemma obeys_forever:
  assumes body: "\<And>s m' k'. le m m' \<Longrightarrow> I s \<Longrightarrow>
      (\<And>s'. I s' \<Longrightarrow> obeys ok upd m (k' s')) \<Longrightarrow> obeys ok upd m' (body s k')"
    and "I s" and "le m m'"
  shows "obeys ok upd m' (forever n body s)"
  using assms(2,3)
proof (induction n arbitrary: s m')
  case 0
  then show ?case by simp
next
  case (Suc n)
  have "obeys ok upd m (forever n body s')" if "I s'" for s'
    by (rule Suc.IH [OF that le_refl])
  then show ?case unfolding forever.simps by (rule body [OF Suc.prems(2,1)])
qed

end

section \<open>The descriptor discipline\<close>

text \<open>The descriptors a call uses, the ones its answer opens, and the one it closes.\<close>

definition uses :: "call \<Rightarrow> int list" where
  "uses c = (case c of
     Setsockopt fd x \<Rightarrow> [fd] | Bind fd x \<Rightarrow> [fd] | Listen fd n \<Rightarrow> [fd] | Accept fd \<Rightarrow> [fd]
   | Connect fd x \<Rightarrow> [fd] | Shutdown fd \<Rightarrow> [fd] | Send fd x n \<Rightarrow> [fd] | Recv fd n \<Rightarrow> [fd]
   | Sendto fd x n d \<Rightarrow> [fd] | Recvfrom fd n \<Rightarrow> [fd] | Sendmsg fd x n \<Rightarrow> [fd, n] | Recvmsg fd \<Rightarrow> [fd]
   | Write fd x n \<Rightarrow> [fd] | Read fd n \<Rightarrow> [fd] | Close fd \<Rightarrow> [fd] | Dup2 fd n \<Rightarrow> [fd]
   | Getsockname fd \<Rightarrow> [fd] | Getpeername fd \<Rightarrow> [fd] | Poll fds n \<Rightarrow> map fst fds | Select n fds \<Rightarrow> fds
   | _ \<Rightarrow> [])"

definition opens :: "call \<Rightarrow> ans \<Rightarrow> int list" where
  "opens c a = (case c of
     Socket x y z \<Rightarrow> [ret a] | Accept fd \<Rightarrow> [ret a] | Open f x \<Rightarrow> [ret a] | Pipe \<Rightarrow> ints a | Socketpair x y z \<Rightarrow> ints a
   | Popen f \<Rightarrow> [ret a] | Recvmsg fd \<Rightarrow> (if ret a \<le> 0 then [] else ints a) | _ \<Rightarrow> [])"

definition fd_ok :: "int set \<Rightarrow> call \<Rightarrow> bool" where
  "fd_ok S c = list_all (\<lambda>fd. fd \<in> S) (uses c)"

definition fd_upd :: "int set \<Rightarrow> call \<Rightarrow> ans \<Rightarrow> int set" where
  "fd_upd S c a = (case c of Close fd \<Rightarrow> S - {fd} | Dup2 fd n \<Rightarrow> insert n S
     | _ \<Rightarrow> S \<union> set (filter (\<lambda>fd. 0 \<le> fd) (opens c a)))"

interpretation fds: monitor fd_ok fd_upd "(\<subseteq>)"
proof
  show "fd_upd m c a \<subseteq> fd_upd m' c a" if "m \<subseteq> m'" for m m' c a
    using that by (cases c) (auto simp: fd_upd_def opens_def)
qed (auto simp: fd_ok_def list_all_iff)

text \<open>A program uses descriptors properly when it obeys the monitor from the standard three.\<close>

definition uses_fds_properly :: "prog \<Rightarrow> bool" where
  "uses_fds_properly p = obeys fd_ok fd_upd {0, 1, 2} p"

lemma fd_ok_simps [simp]:
  "fd_ok S c = (\<forall>fd \<in> set (uses c). fd \<in> S)"
  by (simp add: fd_ok_def list_all_iff)

lemma fd_upd_simps [simp]:
  "fd_upd S (Close fd) a = S - {fd}"
  "fd_upd S (Dup2 fd n) a = insert n S"
  "fd_upd S (Socket x y z) a = (if 0 \<le> ret a then insert (ret a) S else S)"
  "fd_upd S (Accept fd) a = (if 0 \<le> ret a then insert (ret a) S else S)"
  "fd_upd S (Open f fl) a = (if 0 \<le> ret a then insert (ret a) S else S)"
  "fd_upd S (Popen f) a = (if 0 \<le> ret a then insert (ret a) S else S)"
  "fd_upd S Pipe a = S \<union> set (filter (\<lambda>fd. 0 \<le> fd) (ints a))"
  "fd_upd S (Recvmsg fd) a =
     (if ret a \<le> 0 then S else S \<union> set (filter (\<lambda>fd. 0 \<le> fd) (ints a)))"
  by (simp_all add: fd_upd_def opens_def)

lemma uses_simps [simp]:
  "uses (Socket x y z) = []" "uses (Setsockopt fd so) = [fd]" "uses (Bind fd ad) = [fd]"
  "uses (Listen fd n) = [fd]" "uses (Accept fd) = [fd]" "uses (Connect fd ad) = [fd]"
  "uses (Send fd b n) = [fd]" "uses (Recv fd n) = [fd]" "uses (Sendto fd b n ad) = [fd]"
  "uses (Recvfrom fd n) = [fd]" "uses (Sendmsg fd b n) = [fd, n]" "uses (Recvmsg fd) = [fd]"
  "uses (Write fd b n) = [fd]" "uses (Read fd n) = [fd]" "uses (Close fd) = [fd]"
  "uses (Dup2 fd n) = [fd]" "uses Fork = []" "uses Wait = []" "uses (Execve f ar) = []"
  "uses (Unlink f) = []" "uses (Sleep n) = []" "uses (Poll l n) = map fst l"
  "uses (Select n ds) = ds" "uses (Pthread_create f g) = []" "uses (Mkfifo f) = []"
  "uses (Open f fl) = []" "uses (Getsockname fd) = [fd]" "uses (Getpeername fd) = [fd]"
  "uses (Signal n f) = []" "uses (Kill n m) = []" "uses Getpid = []" "uses (Shmget n m cr) = []"
  "uses (Shmat n) = []" "uses (ShmLoad n i) = []" "uses (ShmStore n i v) = []"
  "uses Scanf_int = []" "uses Scanf_str = []" "uses (Fgets n) = []" "uses Pipe = []"
  by (simp_all add: uses_def)

lemma fd_upd_same [simp]:
  "fd_upd S (Setsockopt fd so) a = S" "fd_upd S (Bind fd ad) a = S" "fd_upd S (Listen fd n) a = S"
  "fd_upd S (Connect fd ad) a = S" "fd_upd S (Send fd b n) a = S" "fd_upd S (Recv fd n) a = S"
  "fd_upd S (Sendto fd b n ad) a = S" "fd_upd S (Recvfrom fd n) a = S"
  "fd_upd S (Sendmsg fd b n) a = S" "fd_upd S (Write fd b n) a = S" "fd_upd S (Read fd n) a = S"
  "fd_upd S Fork a = S" "fd_upd S Wait a = S" "fd_upd S (Execve f ar) a = S"
  "fd_upd S (Signal n f) a = S" "fd_upd S (Kill n m) a = S" "fd_upd S Getpid a = S"
  "fd_upd S (Mkfifo f) a = S" "fd_upd S (Unlink f) a = S" "fd_upd S (Poll l n) a = S"
  "fd_upd S (Select n ds) a = S" "fd_upd S (Pthread_create f x) a = S"
  "fd_upd S (Pthread_join y) a = S" "fd_upd S (Sleep n) a = S" "fd_upd S Scanf_int a = S"
  "fd_upd S Scanf_str a = S" "fd_upd S (Shmget n m cr) a = S" "fd_upd S (Shmat n) a = S"
  "fd_upd S (ShmLoad n i) a = S" "fd_upd S (ShmStore n i v) a = S" "fd_upd S (Fgets n) a = S"
  "fd_upd S (Getsockname fd) a = S" "fd_upd S (Getpeername fd) a = S"
  by (simp_all add: fd_upd_def opens_def)

section \<open>Buffers that are long enough\<close>

text \<open>
  A send or write asks the kernel for n bytes of an object: with fewer in the object, bytes that
  follow it in memory are sent.
\<close>

definition in_object :: "call \<Rightarrow> bool" where
  "in_object c = (case c of
     Send fd obj n \<Rightarrow> n \<le> int (length obj)
   | Write fd obj n \<Rightarrow> n \<le> int (length obj)
   | Sendto fd obj n x \<Rightarrow> n \<le> int (length obj)
   | _ \<Rightarrow> True)"

lemma in_object_simps [simp]:
  "in_object (Send fd obj n) = (n \<le> int (length obj))"
  "in_object (Write fd obj n) = (n \<le> int (length obj))"
  "in_object (Sendto fd obj n ad) = (n \<le> int (length obj))"
  by (simp_all add: in_object_def)

section \<open>Predicates on every call\<close>

text \<open>A monitor without a state: every call of every run satisfies a predicate.\<close>

definition always :: "(call \<Rightarrow> bool) \<Rightarrow> prog \<Rightarrow> bool" where
  "always P p = obeys (\<lambda>_::unit. P) (\<lambda>_ _ _. ()) () p"

interpretation stateless: monitor "\<lambda>_::unit. P" "\<lambda>_ _ _. ()" "\<lambda>_ _. True" for P
  by unfold_locales auto

lemma always_simps [simp]:
  "always P (Exit n)" "always P Undef" "always P Diverge" "always P Cut"
  "always P (Out s p) = always P p" "always P (Perror s p) = always P p"
  "always P (Call c k) = (P c \<and> (\<forall>a. always P (k a)))"
  by (simp_all add: always_def)

lemma always_trace: "always P p \<Longrightarrow> list_all P (calls (trace p as))"
proof -
  have "trace_ok (\<lambda>_::unit. P) (\<lambda>_ _ _. ()) m t \<Longrightarrow> list_all P (calls t)" for m t
    by (induction t rule: calls.induct) auto
  then show "always P p \<Longrightarrow> list_all P (calls (trace p as))"
    unfolding always_def by (metis obeys_trace)
qed

lemma always_for_each:
  assumes "\<And>x s k'. x \<in> set xs \<Longrightarrow> I s \<Longrightarrow> (\<And>s'. I s' \<Longrightarrow> always P (k' s')) \<Longrightarrow> always P (body x s k')"
    and "I s" and "\<And>s'. I s' \<Longrightarrow> always P (k s')"
  shows "always P (for_each xs body s k)"
  using assms(2) unfolding always_def
  by (rule stateless.obeys_for_each [where I = I, rotated])
    (use assms(1,3) in \<open>auto simp: always_def\<close>)

lemma always_forever:
  assumes "\<And>s k'. I s \<Longrightarrow> (\<And>s'. I s' \<Longrightarrow> always P (k' s')) \<Longrightarrow> always P (body s k')" and "I s"
  shows "always P (forever n body s)"
  using assms(2) unfolding always_def
  by (rule stateless.obeys_forever [where I = I, rotated]) (use assms(1) in \<open>auto simp: always_def\<close>)

definition sends_in_objects :: "prog \<Rightarrow> bool" where
  "sends_in_objects p = always in_object p"

lemma always_arrays [simp]:
  "always P (arr_get xs i k) = (0 \<le> i \<and> i < int (length xs) \<longrightarrow> always P (k (xs ! nat i)))"
  "always P (arr_set xs i v k') = (0 \<le> i \<and> i < int (length xs) \<longrightarrow> always P (k' (xs[nat i := v])))"
  by (auto simp: arr_get_def arr_set_def)

section \<open>Start-up idioms\<close>

text \<open>
  The checks of the servers. In one group of programs error_func prints the message and exits,
  in the other it prints it and returns.
\<close>

definition error_exit :: "int \<Rightarrow> string \<Rightarrow> prog \<Rightarrow> prog" where
  "error_exit val message k = (if val < 0 then Out (line message) (Exit 1) else k)"

definition error_print :: "int \<Rightarrow> string \<Rightarrow> prog \<Rightarrow> prog" where
  "error_print val message k = (if val < 0 then Out (line message) k else k)"

definition error_perror :: "int \<Rightarrow> string \<Rightarrow> prog \<Rightarrow> prog" where
  "error_perror val message k = (if val < 0 then Perror message k else k)"

definition error_perror_exit :: "int \<Rightarrow> string \<Rightarrow> prog \<Rightarrow> prog" where
  "error_perror_exit val message k = (if val < 0 then Perror message (Exit 1) else k)"

lemma error_pass [simp]:
  "0 \<le> v \<Longrightarrow> error_exit v s k = k"
  "0 \<le> v \<Longrightarrow> error_print v s k = k"
  "0 \<le> v \<Longrightarrow> error_perror v s k = k"
  "0 \<le> v \<Longrightarrow> error_perror_exit v s k = k"
  by (simp_all add: error_exit_def error_print_def error_perror_def error_perror_exit_def)

lemma error_fail [simp]:
  "v < 0 \<Longrightarrow> error_exit v s k = Out (line s) (Exit 1)"
  "v < 0 \<Longrightarrow> error_print v s k = Out (line s) k"
  "v < 0 \<Longrightarrow> error_perror v s k = Perror s k"
  "v < 0 \<Longrightarrow> error_perror_exit v s k = Perror s (Exit 1)"
  by (simp_all add: error_exit_def error_print_def error_perror_def error_perror_exit_def)

lemma obeys_error [simp]:
  "obeys ok upd m (error_exit v s k) = (0 \<le> v \<longrightarrow> obeys ok upd m k)"
  "obeys ok upd m (error_print v s k) = obeys ok upd m k"
  "obeys ok upd m (error_perror v s k) = obeys ok upd m k"
  "obeys ok upd m (error_perror_exit v s k) = (0 \<le> v \<longrightarrow> obeys ok upd m k)"
  by (auto simp: error_exit_def error_print_def error_perror_def error_perror_exit_def)

lemma always_error [simp]:
  "always P (error_exit v s k) = (0 \<le> v \<longrightarrow> always P k)"
  "always P (error_print v s k) = always P k"
  "always P (error_perror v s k) = always P k"
  "always P (error_perror_exit v s k) = (0 \<le> v \<longrightarrow> always P k)"
  by (simp_all add: always_def)

end
