(* ===== verification/CN_Heap.thy ===== *)
theory CN_Heap imports CN_Monitor "HOL-Library.Multiset" begin

text \<open>
  mid/heap.c: a binary min-heap in a global array of a million ints, with heap[0] as a sentinel.
  The array is a map from indices to values and heapSize an int, which DeleteMin can bring
  below zero. An access outside the array is OutOfBounds. The loop of Insert has no bound of
  its own (the sentinel stops it), so it is a partial function whose None is a loop that does
  not end; the loop of DeleteMin ends because its index doubles.
\<close>

section \<open>The model\<close>

definition INT_MAX :: int where "INT_MAX = 2147483647"

definition INT_MIN :: int where "INT_MIN = - 2147483648"

definition CAP :: int where "CAP = 1000000"

record hst =
  heap :: "int \<Rightarrow> int"
  heapSize :: int

datatype 'a outcome = Ret 'a | OutOfBounds

definition Init :: "hst \<Rightarrow> hst" where
  "Init st = st\<lparr>heapSize := 0, heap := (heap st)(0 := - INT_MAX)\<rparr>"

text \<open>The while loop of Insert: the parents above the element move down.\<close>

partial_function (option) sift_up :: "int \<Rightarrow> (int \<Rightarrow> int) \<Rightarrow> int \<Rightarrow> ((int \<Rightarrow> int) \<times> int) option" where
  "sift_up element h now =
     (if element < h (now div 2) then sift_up element (h(now := h (now div 2))) (now div 2)
      else Some (h, now))"

definition Insert :: "int \<Rightarrow> hst \<Rightarrow> hst outcome option" where
  "Insert element st =
     (let sz = heapSize st + 1 in
      if \<not> (0 \<le> sz \<and> sz < CAP) then Some OutOfBounds
      else case sift_up element ((heap st)(sz := element)) sz of
        None \<Rightarrow> None
      | Some (h, now) \<Rightarrow> Some (Ret (st\<lparr>heapSize := sz, heap := h(now := element)\<rparr>)))"

definition min_child :: "(int \<Rightarrow> int) \<Rightarrow> int \<Rightarrow> int \<Rightarrow> int" where
  "min_child h sz now =
     (let child = now * 2 in if child \<noteq> sz \<and> h (child + 1) < h child then child + 1 else child)"

text \<open>The for loop of DeleteMin: the smaller children below the hole move up.\<close>

function sift_down :: "int \<Rightarrow> int \<Rightarrow> (int \<Rightarrow> int) \<Rightarrow> int \<Rightarrow> (int \<Rightarrow> int) \<times> int" where
  "sift_down lastElement sz h now =
     (if 1 \<le> now \<and> now * 2 \<le> sz then
        (let child = min_child h sz now in
         if h child < lastElement then sift_down lastElement sz (h(now := h child)) child
         else (h, now))
      else (h, now))"
  by pat_completeness auto
termination
  by (relation "measure (\<lambda>(l, sz, h, now). nat (sz + 1 - now))")
    (auto simp: min_child_def Let_def)

declare sift_down.simps [simp del]

definition DeleteMin :: "hst \<Rightarrow> (int \<times> hst) outcome" where
  "DeleteMin st =
     (let minElement = heap st 1; sz = heapSize st in
      if \<not> (0 \<le> sz \<and> sz < CAP) then OutOfBounds
      else
        (let lastElement = heap st sz;
             (h, now) = sift_down lastElement (sz - 1) (heap st) 1
         in Ret (minElement, st\<lparr>heapSize := sz - 1, heap := h(now := lastElement)\<rparr>)))"

text \<open>main: read the elements, insert them, delete and print the minimum as many times.\<close>

definition insert_k :: "int \<Rightarrow> hst \<Rightarrow> (hst \<Rightarrow> prog) \<Rightarrow> prog" where
  "insert_k e st k =
     (case Insert e st of None \<Rightarrow> Diverge | Some OutOfBounds \<Rightarrow> Undef | Some (Ret st') \<Rightarrow> k st')"

definition delete_k :: "hst \<Rightarrow> (int \<Rightarrow> hst \<Rightarrow> prog) \<Rightarrow> prog" where
  "delete_k st k = (case DeleteMin st of OutOfBounds \<Rightarrow> Undef | Ret (m, st') \<Rightarrow> k m st')"

definition read_step :: "nat \<Rightarrow> hst \<times> int \<Rightarrow> (hst \<times> int \<Rightarrow> prog) \<Rightarrow> prog" where
  "read_step iter = (\<lambda>(st, element) k. scan_int element (\<lambda>e. insert_k e st (\<lambda>st'. k (st', e))))"

definition print_step :: "nat \<Rightarrow> hst \<Rightarrow> (hst \<Rightarrow> prog) \<Rightarrow> prog" where
  "print_step iter st k = delete_k st (\<lambda>m st'. Out (dec m @ '' '') (k st'))"

definition heap_main :: "hst \<Rightarrow> int \<Rightarrow> int \<Rightarrow> prog" where
  "heap_main globals n0 element0 =
     scan_int n0 (\<lambda>number_of_elements.
     for_each [0..<nat number_of_elements] read_step (Init globals, element0)
     (\<lambda>(st, element).
     for_each [0..<nat number_of_elements] print_step st
     (\<lambda>st. Out [newline] (Exit 0))))"

section \<open>The interface: a priority queue and sorting with it\<close>

fun ins_all :: "('e \<Rightarrow> 'q \<Rightarrow> 'q option) \<Rightarrow> 'e list \<Rightarrow> 'q \<Rightarrow> 'q option" where
  "ins_all ins [] q = Some q"
| "ins_all ins (x # xs) q = (case ins x q of None \<Rightarrow> None | Some q' \<Rightarrow> ins_all ins xs q')"

fun drain :: "('q \<Rightarrow> ('e \<times> 'q) option) \<Rightarrow> nat \<Rightarrow> 'q \<Rightarrow> ('e list \<times> 'q) option" where
  "drain del 0 q = Some ([], q)"
| "drain del (Suc n) q =
     (case del q of None \<Rightarrow> None
      | Some (x, q') \<Rightarrow> (case drain del n q' of None \<Rightarrow> None | Some (xs, q'') \<Rightarrow> Some (x # xs, q'')))"

locale min_queue =
  fixes ins :: "'e::linorder \<Rightarrow> 'q \<Rightarrow> 'q option"
    and del :: "'q \<Rightarrow> ('e \<times> 'q) option"
    and inv :: "'q \<Rightarrow> bool"
    and items :: "'q \<Rightarrow> 'e multiset"
    and admissible :: "'e \<Rightarrow> bool"
    and room :: nat
  assumes ins_ok: "inv q \<Longrightarrow> admissible x \<Longrightarrow> size (items q) < room \<Longrightarrow>
      \<exists>q'. ins x q = Some q' \<and> inv q' \<and> items q' = add_mset x (items q)"
    and del_ok: "inv q \<Longrightarrow> items q \<noteq> {#} \<Longrightarrow>
      \<exists>q'. del q = Some (Min_mset (items q), q') \<and> inv q' \<and>
        items q' = items q - {#Min_mset (items q)#}"
begin

lemma ins_all_ok:
  "inv q \<Longrightarrow> list_all admissible xs \<Longrightarrow> size (items q) + length xs \<le> room \<Longrightarrow>
    \<exists>q'. ins_all ins xs q = Some q' \<and> inv q' \<and> items q' = items q + mset xs"
proof (induction xs arbitrary: q)
  case Nil
  then show ?case by simp
next
  case (Cons x xs)
  then obtain q1 where q1: "ins x q = Some q1" "inv q1" "items q1 = add_mset x (items q)"
    using ins_ok [of q x] by auto
  with Cons.prems Cons.IH [of q1] show ?case by auto
qed

lemma drain_sorts:
  "inv q \<Longrightarrow> items q = mset xs \<Longrightarrow>
    \<exists>q'. drain del (length xs) q = Some (sort xs, q') \<and> inv q' \<and> items q' = {#}"
proof (induction "length xs" arbitrary: q xs)
  case 0
  then show ?case by simp
next
  case (Suc n)
  let ?m = "Min_mset (items q)"
  from Suc.hyps(2) have "xs \<noteq> []" by auto
  with Suc.prems(2) have ne: "items q \<noteq> {#}" by simp
  then have m: "?m \<in> set xs" "\<forall>x \<in> set xs. ?m \<le> x" using Suc.prems(2) by auto
  from del_ok [OF Suc.prems(1) ne] obtain q1 where
    q1: "del q = Some (?m, q1)" "inv q1" "items q1 = items q - {#?m#}" by blast
  let ?ys = "remove1 ?m xs"
  have ys: "items q1 = mset ?ys" "n = length ?ys"
    using q1(3) Suc.prems(2) Suc.hyps(2) m(1) by (simp_all add: length_remove1)
  then obtain q2 where q2: "drain del n q1 = Some (sort ?ys, q2)" "inv q2" "items q2 = {#}"
    using Suc.hyps(1) [of ?ys q1] q1(2) by auto
  have "sort xs = ?m # sort ?ys"
  proof (rule properties_for_sort)
    show "mset (?m # sort ?ys) = mset xs" using m(1) by simp
    have "\<forall>x \<in> set ?ys. ?m \<le> x" using m(2) set_remove1_subset [of ?m xs] by blast
    then show "sorted (?m # sort ?ys)" by simp
  qed
  moreover have "drain del (length xs) q = Some (?m # sort ?ys, q2)"
    unfolding Suc.hyps(2) [symmetric] by (simp add: q1(1) q2(1))
  ultimately show ?case using q2 by simp
qed

lemma sorting:
  assumes "inv q" "items q = {#}" "list_all admissible xs" "length xs \<le> room"
  shows "\<exists>q1 q2. ins_all ins xs q = Some q1 \<and> drain del (length xs) q1 = Some (sort xs, q2)"
proof -
  from ins_all_ok [of q xs] assms obtain q1 where
    "ins_all ins xs q = Some q1" "inv q1" "items q1 = mset xs" by auto
  with drain_sorts [of q1 xs] show ?thesis by blast
qed

end

section \<open>The heap order\<close>

text \<open>The elements stored at a set of indices.\<close>

definition at_idx :: "(int \<Rightarrow> int) \<Rightarrow> int set \<Rightarrow> int multiset" where
  "at_idx h S = image_mset h (mset_set S)"

lemma at_idx_move:
  assumes "finite S" "x \<in> S" "y \<in> S" "x \<noteq> y"
  shows "at_idx (h(x := h y)) (S - {y}) = at_idx h (S - {x})"
proof -
  let ?R = "S - {x, y}"
  have S: "S - {y} = insert x ?R" "S - {x} = insert y ?R" using assms by auto
  have "image_mset (h(x := h y)) (mset_set ?R) = image_mset h (mset_set ?R)"
    by (rule image_mset_cong) (use assms in auto)
  with assms(1,4) show ?thesis unfolding at_idx_def S by simp
qed

lemma at_idx_fill:
  "finite S \<Longrightarrow> x \<in> S \<Longrightarrow> at_idx (h(x := v)) S = add_mset v (at_idx h (S - {x}))"
proof -
  assume S: "finite S" "x \<in> S"
  have "image_mset (h(x := v)) (mset_set (S - {x})) = image_mset h (mset_set (S - {x}))"
    by (rule image_mset_cong) (use S in auto)
  with S show ?thesis by (simp add: at_idx_def mset_set.remove)
qed

lemma at_idx_take: "finite S \<Longrightarrow> x \<in> S \<Longrightarrow> at_idx h S = add_mset (h x) (at_idx h (S - {x}))"
  by (simp add: at_idx_def mset_set.remove)

lemma set_at_idx [simp]: "finite S \<Longrightarrow> set_mset (at_idx h S) = h ` S"
  by (simp add: at_idx_def)

lemma at_idx_upd_other: "x \<notin> S \<Longrightarrow> finite S \<Longrightarrow> at_idx (h(x := v)) S = at_idx h S"
  unfolding at_idx_def by (rule image_mset_cong) auto

definition ordered :: "(int \<Rightarrow> int) \<Rightarrow> int \<Rightarrow> bool" where
  "ordered h n = (\<forall>i. 2 \<le> i \<and> i \<le> n \<longrightarrow> h (i div 2) \<le> h i)"

text \<open>
  The order around a hole at now: it holds away from the hole, and the parent of the hole is
  below the children of the hole.
\<close>

definition hole :: "(int \<Rightarrow> int) \<Rightarrow> int \<Rightarrow> int \<Rightarrow> bool" where
  "hole h n now =
     ((\<forall>i. 2 \<le> i \<and> i \<le> n \<and> i \<noteq> now \<and> i div 2 \<noteq> now \<longrightarrow> h (i div 2) \<le> h i) \<and>
      (\<forall>i. 2 \<le> i \<and> i \<le> n \<and> i div 2 = now \<and> 2 \<le> now \<longrightarrow> h (now div 2) \<le> h i))"

lemma ordered_hole: "ordered h n \<Longrightarrow> 1 \<le> now \<Longrightarrow> now \<le> n \<Longrightarrow> hole h n now"
  unfolding ordered_def hole_def
proof (intro conjI allI impI)
  fix i
  assume o: "\<forall>i. 2 \<le> i \<and> i \<le> n \<longrightarrow> h (i div 2) \<le> h i"
    and n: "now \<le> n"
    and i: "2 \<le> i \<and> i \<le> n \<and> i div 2 = now \<and> 2 \<le> now"
  from o i have "h now \<le> h i" by metis
  moreover from o i n have "h (now div 2) \<le> h now" by blast
  ultimately show "h (now div 2) \<le> h i" by simp
qed auto

lemma root_is_least:
  assumes "ordered h n" "1 \<le> i" "i \<le> n"
  shows "h 1 \<le> h i"
  using assms(2,3)
proof (induction "nat i" arbitrary: i rule: less_induct)
  case less
  show ?case
  proof (cases "i = 1")
    case False
    with less.prems have i: "2 \<le> i" by simp
    then have "nat (i div 2) < nat i" "1 \<le> i div 2" "i div 2 \<le> n" using less.prems by auto
    then have "h 1 \<le> h (i div 2)" by (rule less.hyps)
    also have "h (i div 2) \<le> h i" using assms(1) i less.prems by (simp add: ordered_def)
    finally show ?thesis .
  qed simp
qed

section \<open>Insert\<close>

lemma hole_up:
  assumes hole: "hole h n now" and now: "2 \<le> now" "now \<le> n"
    and up: "e < h (now div 2)"
  shows "hole (h(now := h (now div 2))) n (now div 2)"
  unfolding hole_def
proof (intro conjI allI impI)
  let ?p = "now div 2"
  fix i assume i: "2 \<le> i \<and> i \<le> n \<and> i \<noteq> ?p \<and> i div 2 \<noteq> ?p"
  have "i \<noteq> now" using i by auto
  show "(h(now := h ?p)) (i div 2) \<le> (h(now := h ?p)) i"
  proof (cases "i div 2 = now")
    case True
    with hole i now \<open>i \<noteq> now\<close> show ?thesis by (auto simp: hole_def)
  next
    case False
    with hole i \<open>i \<noteq> now\<close> show ?thesis by (auto simp: hole_def)
  qed
next
  let ?p = "now div 2"
  fix i assume i: "2 \<le> i \<and> i \<le> n \<and> i div 2 = ?p \<and> 2 \<le> ?p"
  have p: "?p \<noteq> now" "?p div 2 \<noteq> now" "?p \<le> n" using now by auto
  with hole i have pp: "h (?p div 2) \<le> h ?p" by (simp add: hole_def)
  show "(h(now := h ?p)) (?p div 2) \<le> (h(now := h ?p)) i"
  proof (cases "i = now")
    case True
    with pp p show ?thesis by simp
  next
    case False
    with hole i p have "h ?p \<le> h i" by (auto simp: hole_def)
    with pp p False show ?thesis by simp
  qed
qed

lemma sift_up_ok:
  assumes "1 \<le> now" "now \<le> n" "hole h n now" "h 0 \<le> e"
    and "\<forall>i. 2 \<le> i \<and> i \<le> n \<and> i div 2 = now \<longrightarrow> e \<le> h i"
  shows "\<exists>h' now'. sift_up e h now = Some (h', now') \<and> 1 \<le> now' \<and> now' \<le> n \<and> hole h' n now' \<and>
      h' 0 = h 0 \<and> (\<forall>i. n < i \<longrightarrow> h' i = h i) \<and> h' (now' div 2) \<le> e \<and>
      (\<forall>i. 2 \<le> i \<and> i \<le> n \<and> i div 2 = now' \<longrightarrow> e \<le> h' i) \<and>
      at_idx h' ({1..n} - {now'}) = at_idx h ({1..n} - {now})"
  using assms
proof (induction "nat now" arbitrary: h now rule: less_induct)
  case less
  show ?case
  proof (cases "e < h (now div 2)")
    case False
    then show ?thesis using less.prems by (subst sift_up.simps) (auto simp: not_less)
  next
    case True
    have now: "2 \<le> now"
    proof (rule ccontr)
      assume "\<not> 2 \<le> now"
      with less.prems(1) have "now div 2 = 0" by simp
      with True less.prems(4) show False by simp
    qed
    let ?p = "now div 2" and ?h = "h(now := h (now div 2))"
    have p: "nat ?p < nat now" "1 \<le> ?p" "?p \<le> n" "?p \<noteq> now" using now less.prems(2) by auto
    have children: "\<forall>i. 2 \<le> i \<and> i \<le> n \<and> i div 2 = ?p \<longrightarrow> e \<le> ?h i"
    proof (intro allI impI)
      fix i assume i: "2 \<le> i \<and> i \<le> n \<and> i div 2 = ?p"
      show "e \<le> ?h i"
      proof (cases "i = now")
        case False
        with less.prems(3) i p have "h ?p \<le> h i" by (auto simp: hole_def)
        with True False show ?thesis by simp
      qed (use True in simp)
    qed
    have at: "at_idx ?h ({1..n} - {?p}) = at_idx h ({1..n} - {now})"
      by (rule at_idx_move) (use p now less.prems(2) in auto)
    have "?h 0 = h 0" "\<forall>i. n < i \<longrightarrow> ?h i = h i" using now less.prems(2) by auto
    with less.hyps [OF p(1,2,3) hole_up [OF less.prems(3) now less.prems(2) True] _ children]
      at less.prems(4) True
    show ?thesis by (subst sift_up.simps) (auto simp: fun_upd_def)
  qed
qed

text \<open>The invariant of the queue: the array holds the sentinel and a heap of admissible elements.\<close>

definition heap_inv :: "hst \<Rightarrow> bool" where
  "heap_inv st = (0 \<le> heapSize st \<and> heapSize st < CAP \<and> heap st 0 = - INT_MAX \<and>
     ordered (heap st) (heapSize st) \<and> (\<forall>i. 1 \<le> i \<and> i \<le> heapSize st \<longrightarrow> - INT_MAX \<le> heap st i))"

definition heap_items :: "hst \<Rightarrow> int multiset" where
  "heap_items st = at_idx (heap st) {1..heapSize st}"

lemma heap_items_low:
  assumes "\<forall>x \<in># heap_items st. b \<le> x"
  shows "\<forall>i. 1 \<le> i \<and> i \<le> heapSize st \<longrightarrow> b \<le> heap st i"
proof (intro allI impI)
  fix i assume "1 \<le> i \<and> i \<le> heapSize st"
  then have "heap st i \<in># heap_items st" by (simp add: heap_items_def)
  with assms show "b \<le> heap st i" by blast
qed

lemma hole_filled:
  assumes "hole h n now" "1 \<le> now" "h (now div 2) \<le> e \<or> now = 1"
    and "\<forall>i. 2 \<le> i \<and> i \<le> n \<and> i div 2 = now \<longrightarrow> e \<le> h i"
  shows "ordered (h(now := e)) n"
  unfolding ordered_def
proof (intro allI impI)
  fix i assume i: "2 \<le> i \<and> i \<le> n"
  show "(h(now := e)) (i div 2) \<le> (h(now := e)) i"
  proof (cases "i = now")
    case True
    with assms i show ?thesis by auto
  next
    case False
    with assms i show ?thesis by (cases "i div 2 = now") (auto simp: hole_def)
  qed
qed

lemma Insert_ok:
  assumes inv: "heap_inv st" and e: "- INT_MAX \<le> e" and room: "heapSize st + 1 < CAP"
  shows "\<exists>st'. Insert e st = Some (Ret st') \<and> heap_inv st' \<and>
      heapSize st' = heapSize st + 1 \<and> heap_items st' = add_mset e (heap_items st)"
proof -
  let ?n = "heapSize st + 1" and ?h = "(heap st)(heapSize st + 1 := e)"
  have n: "1 \<le> ?n" and le: "0 \<le> ?n" using inv by (auto simp: heap_inv_def)
  have hole: "hole ?h ?n ?n"
    using inv by (auto simp: hole_def heap_inv_def ordered_def)
  have h0: "?h 0 \<le> e" using inv e by (auto simp: heap_inv_def)
  have kids: "\<forall>i. 2 \<le> i \<and> i \<le> ?n \<and> i div 2 = ?n \<longrightarrow> e \<le> ?h i" by auto
  from sift_up_ok [OF n order.refl hole h0 kids] obtain h now where
    s: "sift_up e ?h ?n = Some (h, now)" "1 \<le> now" "now \<le> ?n" "hole h ?n now" "h 0 = ?h 0"
      "h (now div 2) \<le> e" "\<forall>i. 2 \<le> i \<and> i \<le> ?n \<and> i div 2 = now \<longrightarrow> e \<le> h i"
    and at: "at_idx h ({1..?n} - {now}) = at_idx ?h ({1..?n} - {?n})"
    by blast
  let ?st = "st\<lparr>heapSize := ?n, heap := h(now := e)\<rparr>"
  have "{1..?n} - {?n} = {1..heapSize st}" by auto
  with at have at': "at_idx h ({1..?n} - {now}) = heap_items st"
    by (simp add: heap_items_def at_idx_upd_other)
  have items: "heap_items ?st = add_mset e (heap_items st)"
    unfolding heap_items_def [of ?st] using s(2,3) at'
    by (simp add: at_idx_fill)
  have "\<forall>x \<in># heap_items ?st. - INT_MAX \<le> x"
    unfolding items using inv e by (auto simp: heap_items_def heap_inv_def)
  from heap_items_low [OF this] have low: "\<forall>i. 1 \<le> i \<and> i \<le> ?n \<longrightarrow> - INT_MAX \<le> (h(now := e)) i"
    by simp
  have "ordered (h(now := e)) ?n"
    by (rule hole_filled) (use s in auto)
  with low inv s room have "heap_inv ?st" by (auto simp: heap_inv_def)
  moreover have "Insert e st = Some (Ret ?st)"
    using s(1) room le by (simp add: Insert_def Let_def)
  ultimately show ?thesis using items by (intro exI [of _ ?st]) simp
qed

section \<open>DeleteMin\<close>

lemma min_child_props:
  assumes "1 \<le> now" "now * 2 \<le> n"
  shows "min_child h n now div 2 = now" "2 \<le> min_child h n now" "min_child h n now \<le> n"
    "now < min_child h n now"
    "\<forall>i. 2 \<le> i \<and> i \<le> n \<and> i div 2 = now \<longrightarrow> h (min_child h n now) \<le> h i"
proof -
  show "min_child h n now div 2 = now" "2 \<le> min_child h n now" "min_child h n now \<le> n"
    "now < min_child h n now"
    using assms by (auto simp: min_child_def Let_def)
  show "\<forall>i. 2 \<le> i \<and> i \<le> n \<and> i div 2 = now \<longrightarrow> h (min_child h n now) \<le> h i"
  proof (intro allI impI)
    fix i assume i: "2 \<le> i \<and> i \<le> n \<and> i div 2 = now"
    then have "i = now * 2 \<or> i = now * 2 + 1" by presburger
    then show "h (min_child h n now) \<le> h i"
      using i by (elim disjE) (auto simp: min_child_def Let_def)
  qed
qed

lemma hole_down:
  assumes hole: "hole h n now" and now: "1 \<le> now" "now * 2 \<le> n"
  shows "hole (h(now := h (min_child h n now))) n (min_child h n now)"
proof -
  let ?c = "min_child h n now"
  note c = min_child_props [OF now, of h]
  show ?thesis unfolding hole_def
  proof (intro conjI allI impI)
    fix i assume i: "2 \<le> i \<and> i \<le> n \<and> i \<noteq> ?c \<and> i div 2 \<noteq> ?c"
    show "(h(now := h ?c)) (i div 2) \<le> (h(now := h ?c)) i"
    proof (cases "i = now")
      case True
      with hole c i show ?thesis by (auto simp: hole_def)
    next
      case False
      with hole c i show ?thesis by (cases "i div 2 = now") (auto simp: hole_def)
    qed
  next
    fix i assume i: "2 \<le> i \<and> i \<le> n \<and> i div 2 = ?c \<and> 2 \<le> ?c"
    have "i \<noteq> now" "i \<noteq> ?c" "i div 2 \<noteq> now" using i c by auto
    with hole i have "h ?c \<le> h i" by (auto simp: hole_def)
    with c \<open>i \<noteq> now\<close> show "(h(now := h ?c)) (?c div 2) \<le> (h(now := h ?c)) i" by simp
  qed
qed

lemma sift_down_ok:
  assumes "1 \<le> now" "now \<le> n \<or> now = 1" "hole h n now" "2 \<le> now \<longrightarrow> h (now div 2) \<le> e"
  shows "case sift_down e n h now of (h', now') \<Rightarrow>
      ordered (h'(now' := e)) n \<and> 1 \<le> now' \<and> (now' \<le> n \<or> now' = 1) \<and> h' 0 = h 0 \<and>
      at_idx h' ({1..n} - {now'}) = at_idx h ({1..n} - {now})"
  using assms
proof (induction e n h now rule: sift_down.induct)
  case (1 e n h now)
  let ?c = "min_child h n now"
  show ?case
  proof (cases "now * 2 \<le> n \<and> h ?c < e")
    case True
    then have lt: "1 \<le> now \<and> now * 2 \<le> n" using "1.prems"(1) by simp
    note c = min_child_props [of now n h, OF conjunct1 [OF lt] conjunct2 [OF lt]]
    have at: "at_idx (h(now := h ?c)) ({1..n} - {?c}) = at_idx h ({1..n} - {now})"
      by (rule at_idx_move) (use c lt in auto)
    let ?h = "h(now := h ?c)"
    have hole: "hole ?h n ?c" using hole_down "1.prems"(3) lt by blast
    have IH: "case sift_down e n ?h ?c of (h', now') \<Rightarrow>
        ordered (h'(now' := e)) n \<and> 1 \<le> now' \<and> (now' \<le> n \<or> now' = 1) \<and> h' 0 = ?h 0 \<and>
        at_idx h' ({1..n} - {now'}) = at_idx ?h ({1..n} - {?c})"
      by (rule "1.IH" [OF lt refl _ _ _ hole]) (use c True in auto)
    have h0: "?h 0 = h 0" using lt by simp
    have "sift_down e n h now = sift_down e n ?h ?c"
      using True lt by (subst sift_down.simps) (simp add: Let_def)
    then show ?thesis using IH unfolding at h0 by (simp only:)
  next
    case False
    then have r: "sift_down e n h now = (h, now)"
      using "1.prems"(1) by (subst sift_down.simps) (auto simp: Let_def)
    have "\<forall>i. 2 \<le> i \<and> i \<le> n \<and> i div 2 = now \<longrightarrow> e \<le> h i"
    proof (intro allI impI)
      fix i assume i: "2 \<le> i \<and> i \<le> n \<and> i div 2 = now"
      then have "now * 2 \<le> n" by auto
      with False min_child_props(5) [OF "1.prems"(1), of n h] i show "e \<le> h i" by force
    qed
    then have "ordered (h(now := e)) n"
      using hole_filled [OF "1.prems"(3,1)] "1.prems"(4) "1.prems"(1) by fastforce
    with r "1.prems" show ?thesis by (auto simp: fun_upd_def)
  qed
qed

lemma DeleteMin_ok:
  assumes inv: "heap_inv st" and ne: "heap_items st \<noteq> {#}"
  shows "\<exists>st'. DeleteMin st = Ret (Min_mset (heap_items st), st') \<and> heap_inv st' \<and>
      heap_items st' = heap_items st - {#Min_mset (heap_items st)#}"
proof -
  let ?n = "heapSize st" and ?h = "heap st"
  have n: "1 \<le> ?n" "?n < CAP" using inv ne
    by (auto simp: heap_inv_def heap_items_def at_idx_def not_le intro: ccontr)
  have o: "ordered ?h ?n" using inv by (simp add: heap_inv_def)
  have min: "Min_mset (heap_items st) = ?h 1"
    by (rule Min_eqI) (use root_is_least [OF o] n in \<open>auto simp: heap_items_def at_idx_def\<close>)
  have split: "heap_items st = add_mset (?h 1) (at_idx ?h ({1..?n} - {1}))"
    unfolding heap_items_def using n by (intro at_idx_take) auto
  have o': "ordered ?h (?n - 1)" using o by (auto simp: ordered_def)
  then have hole: "hole ?h (?n - 1) 1" unfolding hole_def ordered_def by auto
  obtain h now where s: "sift_down (?h ?n) (?n - 1) ?h 1 = (h, now)" by fastforce
  with sift_down_ok [of 1 "?n - 1" ?h "?h ?n", OF _ _ hole] have
    p: "ordered (h(now := ?h ?n)) (?n - 1)" "1 \<le> now" "now \<le> ?n - 1 \<or> now = 1" "h 0 = ?h 0"
      "at_idx h ({1..?n - 1} - {now}) = at_idx ?h ({1..?n - 1} - {1})"
    by auto
  let ?st = "st\<lparr>heapSize := ?n - 1, heap := h(now := ?h ?n)\<rparr>"
  have items: "heap_items ?st = at_idx ?h ({1..?n} - {1})"
  proof (cases "?n = 1")
    case True
    then show ?thesis by (simp add: heap_items_def at_idx_def)
  next
    case False
    with n p(3) have now: "now \<in> {1..?n - 1}" using p(2) by auto
    have "at_idx ?h ({1..?n} - {1}) = add_mset (?h ?n) (at_idx ?h ({1..?n} - {1} - {?n}))"
      by (rule at_idx_take) (use False n in auto)
    also have "{1..?n} - {1} - {?n} = {1..?n - 1} - {1}" by auto
    finally show ?thesis using now p(5) by (simp add: heap_items_def at_idx_fill)
  qed
  have "\<forall>x \<in># heap_items ?st. - INT_MAX \<le> x"
    unfolding items using inv by (auto simp: heap_inv_def)
  from heap_items_low [OF this]
  have "\<forall>i. 1 \<le> i \<and> i \<le> ?n - 1 \<longrightarrow> - INT_MAX \<le> (h(now := ?h ?n)) i" by simp
  with p inv n have "heap_inv ?st" by (auto simp: heap_inv_def)
  moreover have "DeleteMin st = Ret (?h 1, ?st)"
    using s n by (simp add: DeleteMin_def Let_def)
  ultimately show ?thesis using items split min by (intro exI [of _ ?st]) simp
qed

section \<open>The heap is a priority queue\<close>

definition ins_opt :: "int \<Rightarrow> hst \<Rightarrow> hst option" where
  "ins_opt e st = (case Insert e st of Some (Ret st') \<Rightarrow> Some st' | _ \<Rightarrow> None)"

definition del_opt :: "hst \<Rightarrow> (int \<times> hst) option" where
  "del_opt st = (case DeleteMin st of Ret r \<Rightarrow> Some r | _ \<Rightarrow> None)"

lemma size_heap_items: "size (heap_items st) = nat (heapSize st)"
  by (simp add: heap_items_def at_idx_def)

interpretation pq: min_queue ins_opt del_opt heap_inv heap_items "\<lambda>e. - INT_MAX \<le> e" "nat (CAP - 1)"
proof
  show "\<exists>q'. ins_opt x q = Some q' \<and> heap_inv q' \<and> heap_items q' = add_mset x (heap_items q)"
    if "heap_inv q" "- INT_MAX \<le> x" "size (heap_items q) < nat (CAP - 1)" for q x
  proof -
    have "heapSize q + 1 < CAP" using that(3) by (simp add: size_heap_items)
    with Insert_ok [OF that(1,2)] show ?thesis by (auto simp: ins_opt_def)
  qed
  show "\<exists>q'. del_opt q = Some (Min_mset (heap_items q), q') \<and> heap_inv q' \<and>
      heap_items q' = heap_items q - {#Min_mset (heap_items q)#}"
    if "heap_inv q" "heap_items q \<noteq> {#}" for q
    using DeleteMin_ok [OF that] by (auto simp: del_opt_def)
qed

lemma Init_inv: "heap_inv (Init g)" "heap_items (Init g) = {#}"
  by (simp_all add: Init_def heap_inv_def ordered_def CAP_def heap_items_def at_idx_def)

lemma insert_k_opt: "ins_opt e st = Some st' \<Longrightarrow> insert_k e st k = k st'"
  by (auto simp: ins_opt_def insert_k_def split: option.splits outcome.splits)

lemma delete_k_opt: "del_opt st = Some (m, st') \<Longrightarrow> delete_k st k = k m st'"
  by (auto simp: del_opt_def delete_k_def split: outcome.splits)

lemma exec_read_step:
  "ins_opt x st = Some q \<Longrightarrow> exec (read_step i (st, e) k) (typed x # as) =
    (case exec (k (q, x)) as of (t, f) \<Rightarrow> (Did Scanf_int (typed x) # t, f))"
  by (simp add: read_step_def insert_k_opt)

lemma exec_print_step:
  "del_opt st = Some (m, q) \<Longrightarrow> exec (print_step i st k) as =
    (case exec (k q) as of (t, f) \<Rightarrow> (Printed (dec m @ '' '') # t, f))"
  by (simp add: print_step_def delete_k_opt)

lemma read_loop:
  assumes "length is = length xs" "ins_all ins_opt xs st = Some st'"
  shows "\<exists>e'. exec (for_each is read_step (st, e) k) (map typed xs @ as) =
      (case exec (k (st', e')) as of (t, f) \<Rightarrow> (map (\<lambda>x. Did Scanf_int (typed x)) xs @ t, f))"
  using assms
proof (induction "is" xs arbitrary: st e rule: list_induct2)
  case Nil
  then show ?case by (auto split: prod.splits)
next
  case (Cons i "is" x xs)
  then obtain q where q: "ins_opt x st = Some q" "ins_all ins_opt xs q = Some st'"
    by (auto split: option.splits)
  from Cons.IH [OF q(2), of x] obtain e' where
    "exec (for_each is read_step (q, x) k) (map typed xs @ as) =
      (case exec (k (st', e')) as of (t, f) \<Rightarrow> (map (\<lambda>x. Did Scanf_int (typed x)) xs @ t, f))"
    by blast
  then show ?case
    by (intro exI [of _ e']) (simp add: exec_read_step [OF q(1)] split: prod.splits)
qed

lemma print_loop:
  assumes "drain del_opt (length is) st = Some (ys, st')"
  shows "exec (for_each is print_step st k) as =
      (case exec (k st') as of (t, f) \<Rightarrow> (map (\<lambda>y. Printed (dec y @ '' '')) ys @ t, f))"
  using assms
proof (induction "is" arbitrary: st ys)
  case Nil
  then show ?case by (auto split: prod.splits)
next
  case (Cons i "is")
  then obtain m q zs where q: "del_opt st = Some (m, q)" "drain del_opt (length is) q = Some (zs, st')"
    "ys = m # zs" by (auto split: option.splits)
  with Cons.IH [OF q(2)] show ?case by (simp add: exec_print_step split: prod.splits)
qed

lemma sift_up_spins:
  assumes "sift_up e h now = Some r"
  shows "\<not> (0 \<le> now \<and> (\<forall>i. 0 \<le> i \<and> (i = 0 \<or> i < now) \<longrightarrow> e < h i))"
proof (rule sift_up.raw_induct [where
      P = "\<lambda>e h (now :: int) r. \<not> (0 \<le> now \<and> (\<forall>i. 0 \<le> i \<and> (i = 0 \<or> i < now) \<longrightarrow> e < h i))", OF _ assms])
  fix f and e :: int and h :: "int \<Rightarrow> int" and now :: int and r
  let ?p = "now div 2"
  assume IH: "\<And>e h now r. f e h now = Some r \<Longrightarrow>
      \<not> (0 \<le> now \<and> (\<forall>i. 0 \<le> i \<and> (i = 0 \<or> i < now) \<longrightarrow> e < h i))"
    and eq: "(if e < h ?p then f e (h(now := h ?p)) ?p else Some (h, now)) = Some r"
  show "\<not> (0 \<le> now \<and> (\<forall>i. 0 \<le> i \<and> (i = 0 \<or> i < now) \<longrightarrow> e < h i))"
  proof
    assume all: "0 \<le> now \<and> (\<forall>i. 0 \<le> i \<and> (i = 0 \<or> i < now) \<longrightarrow> e < h i)"
    then have p: "0 \<le> ?p" "?p = 0 \<or> ?p < now" by auto
    with all have "e < h ?p" by blast
    with eq have "f e (h(now := h ?p)) ?p = Some r" by simp
    from IH [OF this] p obtain i where i: "0 \<le> i" "i = 0 \<or> i < ?p" "\<not> e < (h(now := h ?p)) i"
      by blast
    with \<open>e < h ?p\<close> p all show False by (auto split: if_splits)
  qed
qed

text \<open>The queue against its specification: a run of operations and the multiset of elements.\<close>

datatype heap_op = InsertOp int | DeleteOp

fun run_ops :: "heap_op list \<Rightarrow> hst \<Rightarrow> (int list \<times> hst) option" where
  "run_ops [] st = Some ([], st)"
| "run_ops (InsertOp e # ops) st =
     (case Insert e st of Some (Ret st') \<Rightarrow> run_ops ops st' | _ \<Rightarrow> None)"
| "run_ops (DeleteOp # ops) st =
     (case DeleteMin st of OutOfBounds \<Rightarrow> None
      | Ret (m, st') \<Rightarrow> map_option (\<lambda>(ms, q). (m # ms, q)) (run_ops ops st'))"

fun spec_ops :: "heap_op list \<Rightarrow> int multiset \<Rightarrow> (int list \<times> int multiset) option" where
  "spec_ops [] M = Some ([], M)"
| "spec_ops (InsertOp e # ops) M =
     (if size M < 999999 \<and> - INT_MAX \<le> e then spec_ops ops (add_mset e M) else None)"
| "spec_ops (DeleteOp # ops) M =
     (if M = {#} then None
      else map_option (\<lambda>(ms, N). (Min_mset M # ms, N)) (spec_ops ops (M - {#Min_mset M#})))"

section \<open>What the heap program does\<close>

text \<open>
  C1. The program sorts: for any list xs of fewer than a million int values other
  than INT_MIN, typed after its length, main prints the elements of xs in ascending order, each
  with a space, then a newline, and exits with status 0, whatever the globals held before.
\<close>

theorem heap_main_sorts:
  assumes "length xs < 999999 + 1" and "\<forall>x \<in> set xs. INT_MIN < x \<and> x \<le> INT_MAX"
  shows "exec (heap_main globals n0 element0) (typed (int (length xs)) # map typed xs) =
    (Did Scanf_int (typed (int (length xs))) # map (\<lambda>x. Did Scanf_int (typed x)) xs @
      map (\<lambda>x. Printed (dec x @ '' '')) (sort xs) @ [Printed [newline]], Exited 0)"
proof -
  have adm: "list_all (\<lambda>e. - INT_MAX \<le> e) xs"
    using assms(2) by (auto simp: list_all_iff INT_MIN_def INT_MAX_def)
  have room: "length xs \<le> nat (CAP - 1)" using assms(1) by (simp add: CAP_def)
  from pq.sorting [OF Init_inv adm room] obtain q1 q2 where
    q: "ins_all ins_opt xs (Init globals) = Some q1" "drain del_opt (length xs) q1 = Some (sort xs, q2)"
    by blast
  let ?is = "[0..<nat (int (length xs))]"
  have len: "length ?is = length xs" by simp
  obtain e' where r: "exec (for_each ?is read_step (Init globals, element0) k) (map typed xs @ []) =
      (case exec (k (q1, e')) [] of (t, f) \<Rightarrow> (map (\<lambda>x. Did Scanf_int (typed x)) xs @ t, f))"
    if "k = (\<lambda>(st, element). for_each ?is print_step st (\<lambda>st. Out [newline] (Exit 0)))" for k
    using read_loop [OF len q(1), where as = "[]"] by blast
  from print_loop [of ?is q1 "sort xs" q2] q(2) r [OF refl] show ?thesis
    by (simp add: heap_main_def)
qed

theorem heap_main_sorts_witness:
  "exec (heap_main \<lparr>heap = (\<lambda>i. 7), heapSize = 3\<rparr> 0 0) [typed 3, typed 5, typed (-2), typed 5] =
    ([Did Scanf_int (typed 3), Did Scanf_int (typed 5), Did Scanf_int (typed (-2)),
      Did Scanf_int (typed 5), Printed ''-2 '', Printed ''5 '', Printed ''5 '', Printed [newline]],
     Exited 0)"
  using heap_main_sorts [of "[5, -2, 5]" "\<lparr>heap = (\<lambda>i. 7), heapSize = 3\<rparr>" 0 0]
  by (simp add: INT_MIN_def INT_MAX_def dec_def dec_nat.simps)

text \<open>
  C15. The heap refines the multiset of its elements: any sequence of
  insertions and deletions that the specification allows (no deletion from the empty queue, no
  INT_MIN, room in the array) runs without leaving the array, every DeleteMin returns the least
  element present, and the elements left are the specification's.
\<close>

theorem heap_refines_multiset:
  assumes "heap_inv st" and "spec_ops ops (heap_items st) = Some (outs, M)"
  shows "\<exists>st'. run_ops ops st = Some (outs, st') \<and> heap_inv st' \<and> heap_items st' = M"
  using assms
proof (induction ops "heap_items st" arbitrary: st outs rule: spec_ops.induct)
  case 1
  then show ?case by simp
next
  case (2 e ops)
  then have e: "size (heap_items st) < 999999" "- INT_MAX \<le> e"
    "spec_ops ops (add_mset e (heap_items st)) = Some (outs, M)" by (auto split: if_splits)
  then have "heapSize st + 1 < CAP" by (simp add: size_heap_items CAP_def)
  from Insert_ok [OF "2.prems"(1) e(2) this] obtain q where
    "Insert e st = Some (Ret q)" "heap_inv q" "heap_items q = add_mset e (heap_items st)" by blast
  with "2.hyps" [of q] e show ?case by simp
next
  case (3 ops)
  let ?m = "Min_mset (heap_items st)"
  from "3.prems" obtain ms where ne: "heap_items st \<noteq> {#}" and outs: "outs = ?m # ms"
    and rest: "spec_ops ops (heap_items st - {#?m#}) = Some (ms, M)" by (auto split: if_splits)
  from DeleteMin_ok [OF "3.prems"(1) ne] obtain q where
    "DeleteMin st = Ret (?m, q)" "heap_inv q" "heap_items q = heap_items st - {#?m#}" by blast
  with "3.hyps" [of q ms] ne rest outs show ?case by simp
qed

theorem heap_refines_multiset_witness:
  "\<exists>st'. run_ops [InsertOp 4, InsertOp 1, DeleteOp, InsertOp 3, DeleteOp]
      (Init \<lparr>heap = (\<lambda>i. 9), heapSize = 5\<rparr>) = Some ([1, 3], st') \<and> heap_inv st' \<and>
      heap_items st' = {#4#}"
  by (rule heap_refines_multiset [OF Init_inv(1)]) (simp add: Init_inv(2) INT_MAX_def)

text \<open>
  C39. The sentinel heap[0] is - INT_MAX and not INT_MIN, so inserting
  INT_MIN into any heap never returns: the loop of Insert reaches index 0 and stays there.
\<close>

theorem Insert_INT_MIN_spins:
  assumes "heap_inv st" and "heapSize st + 1 < CAP"
  shows "Insert INT_MIN st = None"
proof -
  let ?n = "heapSize st + 1" and ?h = "(heap st)(heapSize st + 1 := INT_MIN)"
  have "0 \<le> heapSize st" using assms(1) by (simp add: heap_inv_def)
  moreover have "\<forall>i. 0 \<le> i \<and> (i = 0 \<or> i < ?n) \<longrightarrow> INT_MIN < ?h i"
  proof (intro allI impI)
    fix i assume i: "0 \<le> i \<and> (i = 0 \<or> i < ?n)"
    with assms(1) have "- INT_MAX \<le> heap st i" "i \<noteq> ?n"
      by (cases "i = 0"; force simp: heap_inv_def)+
    then show "INT_MIN < ?h i" by (simp add: INT_MIN_def INT_MAX_def)
  qed
  ultimately have "sift_up INT_MIN ?h ?n = None"
    using sift_up_spins [of INT_MIN ?h ?n] by (cases "sift_up INT_MIN ?h ?n") auto
  with assms show ?thesis by (simp add: Insert_def Let_def heap_inv_def)
qed

theorem Insert_INT_MIN_spins_witness:
  "Insert INT_MIN (Init \<lparr>heap = (\<lambda>i. 9), heapSize = 5\<rparr>) = None"
  by (rule Insert_INT_MIN_spins [OF Init_inv(1)]) (simp add: Init_def CAP_def)

end
