(* ===== verification/CN_Crc.thy ===== *)
theory CN_Crc imports CN_Monitor begin

text \<open>
  errcorrection/crc1.c and errcorrection/crc.c: cyclic redundancy codes over ints and over the
  characters '0' and '1'. Both divide with a shift register; the reference is long division of
  polynomials over the two-element field, most significant coefficient first. The theorems are
  that both registers compute the reference remainder, that a transmitted frame is accepted and
  that one flipped bit never is.
\<close>

section \<open>Reference: long division over GF(2)\<close>

definition xorl :: "int list \<Rightarrow> int list \<Rightarrow> int list" where
  "xorl xs ys = map2 (XOR) xs ys"

definition bits :: "int list \<Rightarrow> bool" where
  "bits xs = list_all (\<lambda>b. b = 0 \<or> b = 1) xs"

function gf_rem :: "int list \<Rightarrow> int list \<Rightarrow> int list" where
  "gf_rem g xs =
     (if length xs < length g \<or> xs = [] then xs
      else gf_rem g (tl (if hd xs \<noteq> 0 then xorl (take (length g) xs) g @ drop (length g) xs else xs)))"
  by pat_completeness auto
termination
  by (relation "measure (\<lambda>(g, xs). length xs)") (auto simp: xorl_def)

declare gf_rem.simps [simp del]

text \<open>A generator: the coefficients of its first and last term are one.\<close>

definition generator :: "int list \<Rightarrow> bool" where
  "generator g = (bits g \<and> g \<noteq> [] \<and> hd g = 1 \<and> last g = 1)"

section \<open>The register of crc1.c\<close>

text \<open>
  One pass of the loop body: if r[0] is set the generator is added; the loop shifts the next
  coefficient in before each pass but the first.
\<close>

definition crc_reduce :: "int list \<Rightarrow> int list \<Rightarrow> int \<times> int list" where
  "crc_reduce g r = (if hd r \<noteq> 0 then (1, xorl r g) else (0, r))"

fun crc_div :: "int list \<Rightarrow> int list \<Rightarrow> int list \<Rightarrow> int list \<times> int list" where
  "crc_div g r [] = (case crc_reduce g r of (q, r') \<Rightarrow> ([q], r'))"
| "crc_div g r (b # bs) =
     (case crc_reduce g r of (q, r') \<Rightarrow>
       (case crc_div g (tl r' @ [b]) bs of (qs, r'') \<Rightarrow> (q # qs, r'')))"

text \<open>
  The division of a[0..m] by g of degree n; with m < n the loop makes no pass. The arrays a and g
  have 16 elements, so the at most 16 elements of the register r[20] and of div[16] that a
  division uses are there.
\<close>

definition crc1_divide :: "nat \<Rightarrow> int list \<Rightarrow> int list \<Rightarrow> int \<Rightarrow> int list \<times> int list" where
  "crc1_divide n g a m =
     (if m < int n then ([], take (Suc n) a)
      else crc_div (take (Suc n) g) (take (Suc n) a) (drop (Suc n) (take (nat m + 1) a)))"

text \<open>The receiver: read a frame, divide it, report whether a coefficient of the rest is set.\<close>

definition crc1_receive :: "nat \<Rightarrow> int list \<Rightarrow> int list \<Rightarrow> int \<Rightarrow> prog" where
  "crc1_receive n g a m0 =
     Out (newline # ''Enter the degree of frame : '') (
     scan_int m0 (\<lambda>m.
     Out (''Enter the frame : '' @ [newline]) (
     read_ints (nat (m + 1)) a (\<lambda>a.
     (case crc1_divide n g a m of (q, r) \<Rightarrow>
     Out (newline # ''Quotient is : '') (print_ints q (
     Out (newline # ''Reminder is : '') (print_ints (tl r) (
     if list_all (\<lambda>b. b = 0) (tl r)
     then Out (newline # '' No Error'' @ [newline]) (Exit 0)
     else Out (newline # ''Error'') (Exit 0))))))))))"

text \<open>The sender: append n zeros, divide, put the rest in their place, print it all.\<close>

definition crc1_send :: "nat \<Rightarrow> nat \<Rightarrow> int list \<Rightarrow> int list \<Rightarrow> prog" where
  "crc1_send n m g a =
     for_each [Suc m..<Suc (m + n)] (\<lambda>i a k. arr_set a (int i) 0 k) a (\<lambda>a.
     (case crc1_divide n g a (int (m + n)) of (q, r) \<Rightarrow>
     Out (newline # ''Quotient is : '') (print_ints q (
     Out (newline # ''Reminder is : '') (print_ints (tl r) (
     Out (newline # ''Transmitted frame  is : '') (
     let a = take (Suc m) a @ tl r @ drop (Suc (m + n)) a in
     print_ints (take (Suc (m + n)) a) (
     Out [newline] (
     crc1_receive n g a (int m))))))))))"

definition crc1_main :: "int list \<Rightarrow> int list \<Rightarrow> int \<Rightarrow> int \<Rightarrow> prog" where
  "crc1_main a0 g0 n0 m0 =
     Out ''Enter the degree of generator : '' (
     scan_int n0 (\<lambda>n.
     Out (newline # ''Enter the generator : '' @ [newline]) (
     read_ints (nat (n + 1)) g0 (\<lambda>g.
     Out (newline # ''Enter the degree of frame : '') (
     scan_int m0 (\<lambda>m.
     Out (''Enter the frame : '' @ [newline]) (
     read_ints (nat (m + 1)) a0 (\<lambda>a.
     let improper = Out (''Not a proper generator '' @ [newline]) (Exit 0) in
     if m < n then improper
     else arr_get g 0 (\<lambda>g_0. if g_0 = 0 then improper
     else arr_get g n (\<lambda>g_n. if g_n = 0 then improper
     else crc1_send (nat n) (nat m) g a))))))))))"

section \<open>The register of crc.c\<close>

text \<open>strcpy: without a NUL in the source array the copy leaves it.\<close>

definition strcpy :: "string \<Rightarrow> string \<Rightarrow> (string \<Rightarrow> prog) \<Rightarrow> prog" where
  "strcpy dst src k =
     (if NUL \<in> set src \<and> length (c_str src) < length dst then k (overwrite dst (lit (c_str src)))
      else Undef)"

text \<open>
  One pass for position i: the key is replaced by zeros or restored, the difference of temp and
  key goes one place to the left into rem, the next character of the input behind it, and rem
  is copied to temp as a string.
\<close>

definition crc_pass ::
    "string \<Rightarrow> string \<Rightarrow> nat \<Rightarrow> nat \<Rightarrow> string \<times> string \<times> string \<Rightarrow> (string \<times> string \<times> string \<Rightarrow> prog) \<Rightarrow> prog"
  where
  "crc_pass input key1 keylen i = (\<lambda>(temp, rem, quot) k.
     arr_set quot (int i) (temp ! 0) (\<lambda>quot.
     let key = (if temp ! 0 = CHR ''0'' then replicate keylen (CHR ''0'') else take keylen key1);
         diff = map2 (\<lambda>t c. if t = c then CHR ''0'' else CHR ''1'') (drop 1 (take keylen temp)) (drop 1 key);
         rem = overwrite rem diff
     in arr_get input (int (i + keylen)) (\<lambda>c.
        arr_set rem (int keylen - 1) c (\<lambda>rem.
        strcpy temp rem (\<lambda>temp. k (temp, rem, quot))))))"

definition gets_into :: "string \<Rightarrow> (string \<Rightarrow> prog) \<Rightarrow> prog" where
  "gets_into buf k = Call Gets (\<lambda>a.
     if ret a \<le> 0 then k buf
     else if length buf < length (lit (dat a)) then Undef
     else k (overwrite buf (lit (dat a))))"

definition crc_main :: "string \<Rightarrow> string \<Rightarrow> string \<Rightarrow> string \<Rightarrow> string \<Rightarrow> prog" where
  "crc_main input0 key0 temp0 quot0 rem0 =
     Out ''Enter Data: '' (gets_into input0 (\<lambda>input.
     Out ''Enter Key: '' (gets_into key0 (\<lambda>key.
     if NUL \<notin> set key \<or> NUL \<notin> set input then Undef else
     let keylen = length (c_str key); msglen = length (c_str input); key1 = lit (c_str key) in
     for_each [0..<keylen - 1] (\<lambda>i s k. arr_set s (int (msglen + i)) (CHR ''0'') k) input (\<lambda>input.
     if length temp0 < keylen then Undef else
     for_each [0..<msglen] (crc_pass input key1 keylen) (overwrite temp0 (take keylen input), rem0, quot0)
     (\<lambda>(temp, rem, quot).
     strcpy rem temp (\<lambda>rem.
     Out (newline # ''Quotient is '') (
     Out (take msglen quot) (
     Out (newline # ''Remainder is '') (
     Out (take (keylen - 1) rem) (
     Out (newline # ''Final data is: '') (
     Out (take msglen input) (
     Out (take (keylen - 1) rem) (Exit 0))))))))))))))"

section \<open>Polynomials as bit lists\<close>

lemma length_xorl [simp]: "length (xorl xs ys) = min (length xs) (length ys)"
  by (simp add: xorl_def)

lemma xorl_Nil [simp]: "xorl [] ys = []" "xorl xs [] = []"
  by (simp_all add: xorl_def)

lemma xorl_Cons [simp]: "xorl (x # xs) (y # ys) = (x XOR y) # xorl xs ys"
  by (simp add: xorl_def)

lemma xorl_self [simp]: "xorl xs xs = replicate (length xs) 0"
  by (induction xs) auto

lemma xorl_zeros [simp]:
  "xorl xs (replicate (length xs) 0) = xs" "xorl (replicate (length xs) 0) xs = xs"
  by (induction xs) auto

lemma xorl_append:
  "length xs = length ys \<Longrightarrow> xorl (xs @ us) (ys @ vs) = xorl xs ys @ xorl us vs"
  by (simp add: xorl_def)

lemma xorl_assoc: "xorl (xorl xs ys) zs = xorl xs (xorl ys zs)"
proof (induction xs arbitrary: ys zs)
  case (Cons x xs)
  then show ?case by (cases ys; cases zs) (auto simp: xor.assoc)
qed simp

lemma xorl_commute: "xorl xs ys = xorl ys xs"
proof (induction xs arbitrary: ys)
  case (Cons x xs)
  then show ?case by (cases ys) (auto simp: xor.commute)
qed simp

lemma xorl_left_commute: "xorl xs (xorl ys zs) = xorl ys (xorl xs zs)"
  by (metis xorl_assoc xorl_commute)

lemmas xorl_ac = xorl_assoc xorl_commute xorl_left_commute

lemma tl_xorl: "tl (xorl xs ys) = xorl (tl xs) (tl ys)"
  by (cases xs; cases ys) auto

lemma take_xorl: "take n (xorl xs ys) = xorl (take n xs) (take n ys)"
  by (simp add: xorl_def take_map take_zip)

lemma drop_xorl: "drop n (xorl xs ys) = xorl (drop n xs) (drop n ys)"
  by (simp add: xorl_def drop_map drop_zip)

lemma bits_simps [simp]:
  "bits []" "bits (x # xs) = ((x = 0 \<or> x = 1) \<and> bits xs)" "bits (xs @ ys) = (bits xs \<and> bits ys)"
  "bits (replicate n 0)"
  by (auto simp: bits_def list_all_iff)

lemma bits_xorl: "bits xs \<Longrightarrow> bits ys \<Longrightarrow> bits (xorl xs ys)"
proof (induction xs arbitrary: ys)
  case (Cons x xs)
  then show ?case by (cases ys) auto
qed simp

lemma bits_take: "bits xs \<Longrightarrow> bits (take n xs)"
  by (auto simp: bits_def list_all_iff dest: in_set_takeD)

lemma bits_drop: "bits xs \<Longrightarrow> bits (drop n xs)"
  by (auto simp: bits_def list_all_iff dest: in_set_dropD)

lemma bits_tl: "bits xs \<Longrightarrow> bits (tl xs)"
  by (cases xs) auto

section \<open>The reference remainder\<close>

text \<open>One step of long division drops the leading coefficient.\<close>

definition lead_out :: "int list \<Rightarrow> int list \<Rightarrow> int list" where
  "lead_out g xs = tl (if hd xs \<noteq> 0 then xorl (take (length g) xs) g @ drop (length g) xs else xs)"

lemma gf_rem_short: "length xs < length g \<Longrightarrow> gf_rem g xs = xs"
  by (subst gf_rem.simps) simp

lemma gf_rem_step: "length g \<le> length xs \<Longrightarrow> xs \<noteq> [] \<Longrightarrow> gf_rem g xs = gf_rem g (lead_out g xs)"
  by (subst gf_rem.simps) (simp add: lead_out_def)

lemma length_lead_out: "length g \<le> length xs \<Longrightarrow> length (lead_out g xs) = length xs - 1"
  by (simp add: lead_out_def)

lemma bits_lead_out: "bits g \<Longrightarrow> bits xs \<Longrightarrow> bits (lead_out g xs)"
  by (auto simp: lead_out_def intro!: bits_tl bits_xorl bits_take bits_drop)

lemma lead_out_xorl:
  assumes "bits xs" "bits ys" "length xs = length ys" "length g \<le> length xs" "xs \<noteq> []"
  shows "lead_out g (xorl xs ys) = xorl (lead_out g xs) (lead_out g ys)"
proof -
  obtain x xs' y ys' where xs: "xs = x # xs'" and ys: "ys = y # ys'"
    using assms(3,5) by (cases xs; cases ys) auto
  let ?a = "take (length g) xs" and ?b = "take (length g) ys"
    and ?c = "drop (length g) xs" and ?d = "drop (length g) ys"
  have len: "length ?a = length g" "length ?b = length g" "length ?c = length ?d"
    using assms(3,4) by simp_all
  have split: "xorl xs ys = xorl ?a ?b @ xorl ?c ?d"
    using xorl_append [of ?a ?b ?c ?d] len by simp
  have gg: "xorl (xorl ?a g) (xorl ?b g) = xorl ?a ?b"
  proof -
    have "xorl (xorl ?a g) (xorl ?b g) = xorl (xorl ?a ?b) (xorl g g)"
      by (simp only: xorl_ac)
    also have "xorl g g = replicate (length (xorl ?a ?b)) 0" using len by simp
    finally show ?thesis by (simp only: xorl_zeros(1))
  qed
  have xy: "xorl (us @ ?c) (vs @ ?d) = xorl us vs @ xorl ?c ?d"
    if "length us = length vs" for us vs
    using that by (rule xorl_append)
  have bit: "x = 0 \<or> x = 1" "y = 0 \<or> y = 1" using assms(1,2) xs ys by simp_all
  have hd: "hd (xorl xs ys) = (x XOR y)" "hd xs = x" "hd ys = y" using xs ys by simp_all
  have tk: "take (length g) (xorl xs ys) = xorl ?a ?b" "drop (length g) (xorl xs ys) = xorl ?c ?d"
    by (simp_all only: take_xorl drop_xorl)
  have whole: "?a @ ?c = xs" "?b @ ?d = ys" by simp_all
  have l: "length (xorl ?a g) = length g" "length (xorl ?b g) = length g" using len by simp_all
  consider "x = 0" "y = 0" | "x = 1" "y = 0" | "x = 0" "y = 1" | "x = 1" "y = 1" using bit by blast
  then show ?thesis
  proof cases
    case 1
    then show ?thesis unfolding lead_out_def hd by (simp add: tl_xorl)
  next
    case 2
    have "xorl (xorl ?a g @ ?c) ys = xorl (xorl ?a ?b) g @ xorl ?c ?d"
      using xy [of "xorl ?a g" ?b] l len unfolding whole by (simp only: xorl_ac)
    with 2 show ?thesis unfolding lead_out_def hd tk by (simp flip: tl_xorl)
  next
    case 3
    have "xorl xs (xorl ?b g @ ?d) = xorl (xorl ?a ?b) g @ xorl ?c ?d"
      using xy [of ?a "xorl ?b g"] l len unfolding whole by (simp only: xorl_ac)
    with 3 show ?thesis unfolding lead_out_def hd tk by (simp flip: tl_xorl)
  next
    case 4
    have "xorl (xorl ?a g @ ?c) (xorl ?b g @ ?d) = xorl xs ys"
      using xy [of "xorl ?a g" "xorl ?b g"] xy [of ?a ?b] l len unfolding whole gg by simp
    with 4 show ?thesis unfolding lead_out_def hd tk by (simp flip: tl_xorl)
  qed
qed


lemma gf_rem_xorl:
  assumes "g \<noteq> []" "bits g"
  shows "bits xs \<Longrightarrow> bits ys \<Longrightarrow> length xs = length ys \<Longrightarrow>
    gf_rem g (xorl xs ys) = xorl (gf_rem g xs) (gf_rem g ys)"
proof (induction "length xs" arbitrary: xs ys rule: less_induct)
  case less
  show ?case
  proof (cases "length xs < length g")
    case True
    with less.prems show ?thesis by (simp add: gf_rem_short)
  next
    case False
    with assms(1) have "0 < length xs" by (cases g) auto
    with less.prems have ne: "length g \<le> length xs" "xs \<noteq> []" "ys \<noteq> []" "xorl xs ys \<noteq> []"
      using False by (auto simp: not_less simp flip: length_greater_0_conv)
    let ?x = "lead_out g xs" and ?y = "lead_out g ys"
    have "gf_rem g (xorl ?x ?y) = xorl (gf_rem g ?x) (gf_rem g ?y)"
      by (rule less.hyps)
        (use ne less.prems assms in \<open>simp_all add: length_lead_out bits_lead_out\<close>)
    with ne less.prems show ?thesis by (simp add: gf_rem_step lead_out_xorl)
  qed
qed

lemma length_gf_rem: "g \<noteq> [] \<Longrightarrow> length g \<le> Suc (length xs) \<Longrightarrow> length (gf_rem g xs) = length g - 1"
proof (induction "length xs" arbitrary: xs rule: less_induct)
  case less
  show ?case
  proof (cases "length xs < length g")
    case True
    with less.prems show ?thesis by (simp add: gf_rem_short)
  next
    case False
    with less.prems have "xs \<noteq> []" "length g \<le> length xs" by auto
    with less show ?thesis by (simp add: gf_rem_step length_lead_out)
  qed
qed

lemma gf_rem_lead_zeros:
  "g \<noteq> [] \<Longrightarrow> Suc (length w) = length g \<Longrightarrow> gf_rem g (replicate k 0 @ w) = w"
proof (induction k)
  case 0
  then show ?case by (simp add: gf_rem_short)
next
  case (Suc k)
  then show ?case by (simp add: gf_rem_step lead_out_def)
qed

lemma gf_rem_snoc:
  "g \<noteq> [] \<Longrightarrow> length g \<le> Suc (length xs) \<Longrightarrow> gf_rem g (xs @ [b]) = lead_out g (gf_rem g xs @ [b])"
proof (induction "length xs" arbitrary: xs rule: less_induct)
  case less
  show ?case
  proof (cases "length xs < length g")
    case True
    with less.prems have "Suc (length xs) = length g" by simp
    with less.prems show ?thesis
      by (simp add: gf_rem_short gf_rem_step length_lead_out)
  next
    case False
    with less.prems have ne: "xs \<noteq> []" "length g \<le> length xs" by auto
    have "lead_out g (xs @ [b]) = lead_out g xs @ [b]"
      using ne less.prems by (cases xs; cases g) (auto simp: lead_out_def)
    with less.hyps [of "lead_out g xs"] ne less.prems show ?thesis
      by (simp add: gf_rem_step length_lead_out)
  qed
qed

text \<open>The registers compute the reference remainder.\<close>

lemma crc_div_rem:
  "length r = length g \<Longrightarrow> g \<noteq> [] \<Longrightarrow> tl (snd (crc_div g r bs)) = gf_rem g (r @ bs)"
proof (induction bs arbitrary: r)
  case Nil
  then have "r \<noteq> []" by auto
  with Nil show ?case
    by (simp add: gf_rem_step gf_rem_short length_lead_out)
      (simp add: lead_out_def crc_reduce_def)
next
  case (Cons b bs)
  let ?r = "tl (snd (crc_reduce g r)) @ [b]"
  from Cons.prems obtain y ys where y: "r = y # ys" by (cases r) auto
  have "length ?r = length g" using Cons.prems by (auto simp: crc_reduce_def)
  from Cons.IH [OF this Cons.prems(2)]
  have "tl (snd (crc_div g ?r bs)) = gf_rem g (tl (snd (crc_reduce g r)) @ b # bs)" by simp
  moreover have "lead_out g (r @ b # bs) = tl (snd (crc_reduce g r)) @ b # bs"
    using Cons.prems y by (cases g) (auto simp: lead_out_def crc_reduce_def)
  ultimately show ?case
    using Cons.prems by (auto simp: gf_rem_step y split: prod.splits)
qed

lemma length_crc_div: "length (fst (crc_div g r bs)) = Suc (length bs)"
  by (induction bs arbitrary: r) (auto simp: split_beta crc_reduce_def)

text \<open>The division of a message with its zeros is that of the register.\<close>

lemma crc1_divide_message:
  assumes "g \<noteq> []" "msg \<noteq> []"
  shows "crc1_divide (length g - 1) g (msg @ replicate (length g - 1) 0) (int (length msg + (length g - 1)) - 1) =
    crc_div g (take (length g) (msg @ replicate (length g - 1) 0)) (drop (length g) (msg @ replicate (length g - 1) 0))"
proof -
  let ?x = "msg @ replicate (length g - 1) 0"
  obtain n m where n: "length g = Suc n" "length msg = Suc m" using assms by (cases g; cases msg) auto
  have "nat (int (length msg + (length g - 1)) - 1) + 1 = length ?x" using n by simp
  then show ?thesis using n by (simp add: crc1_divide_def)
qed

lemma crc1_divide_rem:
  assumes "length g = Suc n" "n \<le> m" "length a = Suc m"
  shows "tl (snd (crc1_divide n (g @ g') (a @ a') (int m))) = gf_rem g a"
proof -
  have "nat (int m) + 1 = Suc m" by simp
  moreover have "g \<noteq> []" using assms(1) by auto
  ultimately show ?thesis
    using assms crc_div_rem [of "take (Suc n) a" g "drop (Suc n) a"]
    by (simp add: crc1_divide_def)
qed

section \<open>The characters of crc.c\<close>

text \<open>The arrays of crc.c hold bits as the characters 0 and 1.\<close>

definition bit_chars :: "int list \<Rightarrow> string" where
  "bit_chars xs = map (\<lambda>b. if b = 0 then CHR ''0'' else CHR ''1'') xs"

lemma length_bit_chars [simp]: "length (bit_chars xs) = length xs"
  by (simp add: bit_chars_def)

lemma bit_chars_simps [simp]:
  "bit_chars [] = []" "bit_chars (xs @ ys) = bit_chars xs @ bit_chars ys"
  "bit_chars (x # xs) = (if x = 0 then CHR ''0'' else CHR ''1'') # bit_chars xs"
  "bit_chars (replicate n 0) = replicate n (CHR ''0'')"
  by (simp_all add: bit_chars_def)

lemma no_nul_bit_chars [simp]: "no_nul (bit_chars xs)"
  by (induction xs) (auto simp: no_nul_def)

lemma take_bit_chars: "take n (bit_chars xs) = bit_chars (take n xs)"
  by (simp add: bit_chars_def take_map)

text \<open>Where two bits agree, their characters agree.\<close>

lemma diff_chars:
  "bits xs \<Longrightarrow> bits ys \<Longrightarrow>
    map2 (\<lambda>t c. if t = c then CHR ''0'' else CHR ''1'') (bit_chars xs) (bit_chars ys) =
    bit_chars (xorl xs ys)"
proof (induction xs arbitrary: ys)
  case (Cons x xs)
  then show ?case by (cases ys) auto
qed simp

text \<open>The key of a pass is the generator or zeros: the difference is the register after it.\<close>

lemma pass_diff:
  assumes "bits r" "bits g" "length r = length g" "r \<noteq> []"
  shows "map2 (\<lambda>t c. if t = c then CHR ''0'' else CHR ''1'') (drop 1 (bit_chars r))
      (drop 1 (if hd (bit_chars r) = CHR ''0'' then replicate (length g) (CHR ''0'') else bit_chars g)) =
    bit_chars (tl (snd (crc_reduce g r)))"
proof -
  obtain x xs where r: "r = x # xs" using assms(4) by (cases r) auto
  obtain y ys where g: "g = y # ys" using assms(3) r by (cases g) auto
  have "map2 (\<lambda>t c. if t = c then CHR ''0'' else CHR ''1'') (bit_chars xs) (bit_chars (replicate (length xs) 0)) =
      bit_chars xs"
    using diff_chars [of xs "replicate (length xs) 0"] assms r by simp
  then show ?thesis
    using assms diff_chars [of xs ys] by (auto simp: r g crc_reduce_def)
qed

lemma strcpy_fits:
  assumes "NUL \<in> set src"
  shows "length (c_str src) < length src"
proof -
  have "dropWhile (\<lambda>c. c \<noteq> NUL) src \<noteq> []" using assms by (auto simp: dropWhile_eq_Nil_conv)
  then have "length (c_str src) < length (c_str src @ dropWhile (\<lambda>c. c \<noteq> NUL) src)" by simp
  then show ?thesis by (simp only: c_str_def takeWhile_dropWhile_id)
qed

lemma strcpy_ok:
  "NUL \<in> set src \<Longrightarrow> length src = length dst \<Longrightarrow> strcpy dst src k = k (overwrite dst (lit (c_str src)))"
  using strcpy_fits [of src] by (simp add: strcpy_def)

lemma c_str_no_nul_append: "no_nul a \<Longrightarrow> c_str (a @ b) = a @ c_str b"
  by (simp add: c_str_def no_nul_def takeWhile_append2 list_all_iff)

text \<open>
  One pass computes one step of the register of crc1.c, if rem has a NUL behind the characters
  that the passes write. The next character stands behind the register unless it is NUL.
\<close>

lemma crc_pass_step:
  assumes g: "bits g" and r: "bits r" "length r = length g" "r \<noteq> []" "take (length g) temp = bit_chars r"
    and len: "length temp = length rem" "i < length quot" "i + length g < length input"
    and rem: "NUL \<in> set (drop (length g) rem)"
  shows "\<exists>temp' rem'.
    (\<forall>k. crc_pass input (lit (bit_chars g)) (length g) i (temp, rem, quot) k =
       k (temp', rem', quot[i := hd (bit_chars r)])) \<and>
    length temp' = length rem \<and> length rem' = length rem \<and> drop (length g) rem' = drop (length g) rem \<and>
    NUL \<in> set temp' \<and> take (length g - 1) temp' = bit_chars (tl (snd (crc_reduce g r))) \<and>
    (input ! (i + length g) \<noteq> NUL \<longrightarrow>
       take (length g) temp' = bit_chars (tl (snd (crc_reduce g r))) @ [input ! (i + length g)])"
proof -
  let ?n = "length g" and ?c = "input ! (i + length g)" and ?d = "bit_chars (tl (snd (crc_reduce g r)))"
  obtain n where n: "?n = Suc n" using r by (cases g) auto
  have d: "length ?d = n" using n r by (simp add: crc_reduce_def)
  have lr: "?n < length rem"
    using rem by (metis drop_all empty_iff empty_set not_le)
  have t0: "temp ! 0 = hd (bit_chars r)"
    using r(3,4) n nth_take [of 0 ?n temp] by (cases r) auto
  let ?rem = "?d @ ?c # drop ?n rem"
  have ow: "(overwrite rem ?d)[n := ?c] = ?rem"
    using d n lr by (simp add: overwrite_def list_update_append Cons_nth_drop_Suc [symmetric])
  let ?temp = "overwrite temp (lit (c_str ?rem))"
  have lrem: "length ?rem = length rem" using d n lr by simp
  have nul: "NUL \<in> set ?rem" using rem by simp
  have cs: "c_str ?rem = ?d @ c_str (?c # drop ?n rem)"
    by (rule c_str_no_nul_append) simp
  have key: "take ?n (lit (bit_chars g)) = bit_chars g" by (simp add: lit_def)
  have step: "crc_pass input (lit (bit_chars g)) ?n i (temp, rem, quot) k =
      k (?temp, ?rem, quot[i := hd (bit_chars r)])" for k
  proof -
    have "strcpy temp ?rem (\<lambda>temp. k (temp, ?rem, quot[i := hd (bit_chars r)])) =
        k (?temp, ?rem, quot[i := hd (bit_chars r)])"
      by (rule strcpy_ok) (use nul lrem len in simp_all)
    moreover have "length (overwrite rem ?d) = length rem"
      using d n lr by (simp add: length_overwrite)
    moreover have "nat (1 + (int i + int n)) = Suc (i + n)" by simp
    ultimately show ?thesis
      unfolding crc_pass_def prod.case Let_def key r(4) t0 pass_diff [OF r(1) g r(2,3)]
      using len n lr ow by simp
  qed
  have "length (c_str ?rem) < length temp"
    using strcpy_fits [OF nul] len lrem by simp
  then have "length ?temp = length ?rem" using lrem len by (simp add: length_overwrite length_lit)
  moreover have "NUL \<in> set ?temp" by (simp add: overwrite_def lit_def)
  moreover have "take (?n - 1) ?temp = ?d" unfolding cs using d n by (simp add: overwrite_def lit_def)
  moreover have "take ?n ?temp = ?d @ [?c]" if "?c \<noteq> NUL"
    unfolding cs using that d n by (simp add: overwrite_def lit_def c_str_def)
  ultimately show ?thesis
    using step lrem d n by (intro exI [of _ ?temp] exI [of _ ?rem]) simp
qed

text \<open>All passes: the quotient and the rest of the register division.\<close>

lemma crc_passes:
  "bits g \<Longrightarrow> bits r \<Longrightarrow> length r = length g \<Longrightarrow> r \<noteq> [] \<Longrightarrow> take (length g) temp = bit_chars r \<Longrightarrow>
    length temp = length rem \<Longrightarrow> NUL \<in> set (drop (length g) rem) \<Longrightarrow> bits bs \<Longrightarrow>
    i + length bs < length quot \<Longrightarrow> i + length g + length bs < length input \<Longrightarrow>
    take (length bs) (drop (i + length g) input) = bit_chars bs \<Longrightarrow>
    \<exists>temp' rem'. (\<forall>k. for_each [i..<i + Suc (length bs)] (crc_pass input (lit (bit_chars g)) (length g))
        (temp, rem, quot) k =
        k (temp', rem', take i quot @ bit_chars (fst (crc_div g r bs)) @ drop (i + Suc (length bs)) quot)) \<and>
      length temp' = length rem \<and> length rem' = length rem \<and> NUL \<in> set temp' \<and>
      take (length g - 1) temp' = bit_chars (tl (snd (crc_div g r bs)))"
proof (induction bs arbitrary: r i temp rem quot)
  case Nil
  obtain temp' rem' where p:
    "\<forall>k. crc_pass input (lit (bit_chars g)) (length g) i (temp, rem, quot) k =
       k (temp', rem', quot[i := hd (bit_chars r)])"
    "length temp' = length rem" "length rem' = length rem" "NUL \<in> set temp'"
    "take (length g - 1) temp' = bit_chars (tl (snd (crc_reduce g r)))"
    using crc_pass_step [of g r temp rem i quot input] Nil.prems by (simp, blast)
  have "[hd (bit_chars r)] = bit_chars [fst (crc_reduce g r)]"
    using Nil.prems(4) by (cases r) (simp_all add: crc_reduce_def)
  with p Nil.prems show ?case
    by (intro exI [of _ temp'] exI [of _ rem'])
      (auto simp: upd_conv_take_nth_drop split: prod.splits)
next
  case (Cons b bs)
  have c: "input ! (i + length g) = hd (bit_chars [b])" "take (length bs) (drop (Suc i + length g) input) = bit_chars bs"
    using Cons.prems(10,11) Cons_nth_drop_Suc [of "i + length g" input, symmetric] by simp_all
  obtain temp' rem' where p:
    "\<forall>k. crc_pass input (lit (bit_chars g)) (length g) i (temp, rem, quot) k =
       k (temp', rem', quot[i := hd (bit_chars r)])"
    "length temp' = length rem" "length rem' = length rem" "drop (length g) rem' = drop (length g) rem"
    "take (length g) temp' = bit_chars (tl (snd (crc_reduce g r))) @ [hd (bit_chars [b])]"
    using crc_pass_step [of g r temp rem i quot input] Cons.prems c by (simp split: if_splits) blast+
  have g0: "0 < length g" using Cons.prems(3,4) by (metis length_greater_0_conv)
  let ?r = "tl (snd (crc_reduce g r)) @ [b]" and ?quot = "quot[i := hd (bit_chars r)]"
  have r: "bits ?r" "length ?r = length g" "?r \<noteq> []" "take (length g) temp' = bit_chars ?r"
    using Cons.prems p(5) g0 by (auto simp: crc_reduce_def bits_xorl bits_tl)
  from Cons.IH [of ?r temp' rem' "Suc i" ?quot] r p Cons.prems c(2)
  obtain temp'' rem'' where q:
    "\<forall>k. for_each [Suc i..<Suc i + Suc (length bs)] (crc_pass input (lit (bit_chars g)) (length g))
        (temp', rem', ?quot) k =
        k (temp'', rem'', take (Suc i) ?quot @ bit_chars (fst (crc_div g ?r bs)) @
          drop (Suc i + Suc (length bs)) ?quot)"
    "length temp'' = length rem" "length rem'' = length rem" "NUL \<in> set temp''"
    "take (length g - 1) temp'' = bit_chars (tl (snd (crc_div g ?r bs)))"
    by (auto simp del: upt_Suc)
  have u: "[i..<i + Suc (length (b # bs))] = i # [Suc i..<Suc i + Suc (length bs)]"
    by (subst upt_conv_Cons) simp_all
  have "hd (bit_chars r) # bit_chars qs = bit_chars (fst (crc_reduce g r) # qs)" for qs
    using Cons.prems(4) by (cases r) (simp_all add: crc_reduce_def)
  with p(1) q show ?case
    unfolding u using Cons.prems
    by (intro exI [of _ temp''] exI [of _ rem''])
      (simp add: take_Suc_conv_app_nth split: prod.splits)
qed

lemma char_fill:
  "b + j + k \<le> length s \<Longrightarrow>
    for_each [j..<j + k] (\<lambda>i s c. arr_set s (int (b + i)) v c) s c =
    c (take (b + j) s @ replicate k v @ drop (b + j + k) s)"
proof (induction k arbitrary: j s)
  case (Suc k)
  have "[j..<j + Suc k] = j # [Suc j..<Suc j + k]" by (subst upt_Suc_Cons) simp_all
  moreover have "nat (int b + int j) = b + j" by simp
  ultimately show ?case using Suc.IH [of "Suc j" "s[b + j := v]"] Suc.prems
    by (simp add: take_Suc_conv_app_nth del: upt_Suc)
qed simp

text \<open>gets on a line of bits.\<close>

lemma gets_bits:
  assumes "xs \<noteq> []" "length xs < length buf"
  shows "exec (gets_into buf k) (gives (bit_chars xs) # as) =
    (case exec (k (overwrite buf (lit (bit_chars xs)))) as of
      (t, f) \<Rightarrow> (Did Gets (gives (bit_chars xs)) # t, f))"
  using assms by (simp add: gets_into_def length_lit)

text \<open>The passes of crc.c over a message: what is in quot and temp when its loop ends.\<close>

lemma crc_message_passes:
  assumes g: "bits g" "g \<noteq> []" and msg: "bits msg" "msg \<noteq> []" "length msg \<le> length quot"
    and arrays: "length temp = length rem" "length msg + length g \<le> length input"
      "take (length msg + (length g - 1)) input = bit_chars (msg @ replicate (length g - 1) 0)"
    and rem: "NUL \<in> set (drop (length g) rem)"
    and d: "crc1_divide (length g - 1) g (msg @ replicate (length g - 1) 0)
        (int (length msg + (length g - 1)) - 1) = (q, r)"
  shows "\<exists>temp' rem'. (\<forall>k. for_each [0..<length msg] (crc_pass input (lit (bit_chars g)) (length g))
        (overwrite temp (take (length g) input), rem, quot) k =
        k (temp', rem', bit_chars q @ drop (length msg) quot)) \<and>
      length temp' = length rem \<and> length rem' = length rem \<and> NUL \<in> set temp' \<and>
      take (length g - 1) temp' = bit_chars (tl r)"
proof -
  let ?n = "length g" and ?x = "msg @ replicate (length g - 1) 0"
  obtain m where m: "length msg = Suc m" using msg(2) by (cases msg) auto
  have n: "Suc (?n - 1) = ?n" using g(2) by (cases g) auto
  have lx: "length ?x = m + ?n" using m n by simp
  let ?r = "take ?n ?x" and ?bs = "drop ?n ?x"
  have len: "length ?r = ?n" "length ?bs = m" "?r \<noteq> []" using lx g(2) by auto
  have b: "bits ?r" "bits ?bs" using msg(1) by (auto intro: bits_take bits_drop)
  have inp: "take ?n input = bit_chars ?r" "take m (drop ?n input) = bit_chars ?bs"
  proof -
    have "length msg + (?n - 1) = m + ?n" using m n by simp
    then have x: "take (m + ?n) input = bit_chars ?x" using arrays(3) by simp
    have "take ?n input = take ?n (take (m + ?n) input)" by simp
    then show "take ?n input = bit_chars ?r" unfolding x take_bit_chars .
    have "take m (drop ?n input) = drop ?n (take (m + ?n) input)" by (simp add: drop_take)
    then show "take m (drop ?n input) = bit_chars ?bs" unfolding x by (simp add: bit_chars_def drop_map)
  qed
  have dd: "crc_div g ?r ?bs = (q, r)"
    using crc1_divide_message [OF g(2) msg(2)] d by simp
  have lr: "?n < length rem" using rem by (metis drop_all empty_iff empty_set not_le)
  have lb: "length (bit_chars ?r) = ?n" using len(1) by (simp only: length_bit_chars)
  have ap: "take ?n (bit_chars ?r @ ys) = bit_chars ?r" for ys
    by (subst lb [symmetric]) (simp only: append_eq_conv_conj [THEN iffD1, OF refl, THEN conjunct1, symmetric])
  have "length (overwrite temp (bit_chars ?r)) = length rem"
    unfolding overwrite_def using lb arrays(1) lr by (simp only: length_append length_drop)
  moreover have "take ?n (overwrite temp (bit_chars ?r)) = bit_chars ?r"
    unfolding overwrite_def by (rule ap)
  ultimately have "take ?n (overwrite temp (take ?n input)) = bit_chars ?r"
    "length (overwrite temp (take ?n input)) = length rem"
    by (simp_all only: inp(1))
  from crc_passes [of g ?r "overwrite temp (take ?n input)" rem ?bs 0 quot input, OF g(1) b(1) len(1,3) this rem b(2)]
  show ?thesis using inp(2) len m msg(3) arrays(2) unfolding dd by (simp del: upt_Suc)
qed

section \<open>Frames\<close>

definition crc_frame :: "int list \<Rightarrow> int list \<Rightarrow> int list" where
  "crc_frame g msg = msg @ gf_rem g (msg @ replicate (length g - 1) 0)"

definition all_zero :: "int list \<Rightarrow> bool" where
  "all_zero xs = list_all (\<lambda>b. b = 0) xs"

lemma all_zero_iff: "all_zero xs \<longleftrightarrow> xs = replicate (length xs) 0"
  by (induction xs) (auto simp: all_zero_def)

lemma bits_gf_rem: "g \<noteq> [] \<Longrightarrow> bits g \<Longrightarrow> bits xs \<Longrightarrow> bits (gf_rem g xs)"
proof (induction "length xs" arbitrary: xs rule: less_induct)
  case less
  show ?case
  proof (cases "length xs < length g")
    case True
    with less show ?thesis by (simp add: gf_rem_short)
  next
    case False
    with less.prems have "xs \<noteq> []" "length g \<le> length xs" by auto
    with less show ?thesis by (simp add: gf_rem_step length_lead_out bits_lead_out)
  qed
qed

lemma crc_frame_rem:
  assumes g: "g \<noteq> []" "bits g" and msg: "bits msg"
  shows "all_zero (gf_rem g (crc_frame g msg))"
proof -
  let ?n = "length g - 1"
  let ?r = "gf_rem g (msg @ replicate ?n 0)"
  have r: "length ?r = ?n" "bits ?r" using assms by (simp_all add: length_gf_rem bits_gf_rem)
  have "crc_frame g msg = xorl (msg @ replicate ?n 0) (replicate (length msg) 0 @ ?r)"
    using r xorl_zeros(2) [of ?r] by (simp add: crc_frame_def xorl_append)
  moreover have "gf_rem g (replicate (length msg) 0 @ ?r) = ?r"
    by (rule gf_rem_lead_zeros) (use g r in \<open>simp_all flip: length_greater_0_conv\<close>)
  ultimately have "gf_rem g (crc_frame g msg) = replicate ?n 0"
    using gf_rem_xorl [of g "msg @ replicate ?n 0" "replicate (length msg) 0 @ ?r"] assms r by simp
  then show ?thesis by (simp add: all_zero_def list_all_iff)
qed

lemma lead_out_nonzero:
  assumes "generator g" "2 \<le> length g" "Suc (length w) = length g" "\<not> all_zero w"
  shows "\<not> all_zero (lead_out g (w @ [0]))"
proof (cases w)
  case Nil
  with assms show ?thesis by simp
next
  case (Cons x w')
  from assms(1) have "butlast g @ [1] = g" using append_butlast_last_id [of g]
    by (simp add: generator_def)
  moreover have "butlast g \<noteq> []" using assms(2) by (cases g) auto
  ultimately obtain g' where g: "g = g' @ [1]" "g' \<noteq> []" by metis
  show ?thesis
  proof (cases "x = 0")
    case True
    with Cons assms show ?thesis by (simp add: lead_out_def all_zero_def)
  next
    case False
    have "xorl (w @ [0]) g = xorl w g' @ [1]"
      using xorl_append [of w g' "[0]" "[1]"] assms(3) g by simp
    moreover have "xorl w g' \<noteq> []" using Cons g by (cases g') auto
    ultimately have "lead_out g (w @ [0]) = tl (xorl w g') @ [1]"
      using False Cons assms(3) by (simp add: lead_out_def)
    then show ?thesis by (simp add: all_zero_def)
  qed
qed

lemma gf_rem_nonzero_shift:
  assumes g: "generator g" "2 \<le> length g"
  shows "length g \<le> Suc (length xs) \<Longrightarrow> \<not> all_zero (gf_rem g xs) \<Longrightarrow>
    \<not> all_zero (gf_rem g (xs @ replicate k 0))"
proof (induction k)
  case 0
  then show ?case by simp
next
  case (Suc k)
  have ne: "g \<noteq> []" using g(2) by auto
  have "xs @ replicate (Suc k) 0 = (xs @ replicate k 0) @ [0]"
    by (simp add: replicate_append_same)
  then show ?case
    using Suc lead_out_nonzero [OF g, of "gf_rem g (xs @ replicate k 0)"] ne g(2)
    by (simp add: gf_rem_snoc length_gf_rem del: append_assoc)
qed

text \<open>A single one is never divisible by a generator of positive degree.\<close>

lemma unit_not_divisible:
  assumes g: "generator g" "2 \<le> length g" and len: "length g \<le> Suc (i + k)"
  shows "\<not> all_zero (gf_rem g (replicate i 0 @ 1 # replicate k 0))"
proof -
  let ?n = "length g - 1"
  define j where "j = max (Suc i) ?n"
  let ?w = "replicate i 0 @ 1 # replicate (j - Suc i) (0 :: int)"
  have j: "Suc i \<le> j" "?n \<le> j" "j \<le> Suc (i + k)" "j = Suc i \<or> j = ?n"
    using len by (auto simp: j_def)
  have lw: "length ?w = j" using j by simp
  have ne: "g \<noteq> []" using g by auto
  have "\<not> all_zero (gf_rem g ?w)"
  proof (cases "j = ?n")
    case True
    with lw g show ?thesis by (subst gf_rem_short) (auto simp: all_zero_def)
  next
    case False
    with j g have i: "j = Suc i" "?n < Suc i" by auto
    have "?w = replicate (Suc i - ?n) 0 @ (replicate (?n - 1) 0 @ [1])"
      using i g by (simp add: replicate_add [symmetric] flip: append_assoc)
    then have "gf_rem g ?w = replicate (?n - 1) 0 @ [1]"
      by (simp only:) (rule gf_rem_lead_zeros, use g ne in auto)
    then show ?thesis by (simp add: all_zero_def)
  qed
  with gf_rem_nonzero_shift [OF g, of ?w "Suc (i + k) - j"] lw j
  have "\<not> all_zero (gf_rem g (?w @ replicate (Suc (i + k) - j) 0))" by simp
  moreover have "?w @ replicate (Suc (i + k) - j) 0 = replicate i 0 @ 1 # replicate k 0"
    using j by (simp add: replicate_add [symmetric])
  ultimately show ?thesis by simp
qed

definition flip_bit :: "int list \<Rightarrow> nat \<Rightarrow> int list" where
  "flip_bit xs i = xs[i := 1 - xs ! i]"

lemma flip_bit_xorl:
  assumes "bits xs" "i < length xs"
  shows "flip_bit xs i = xorl xs (replicate i 0 @ 1 # replicate (length xs - Suc i) 0)"
proof -
  have xs: "xs = take i xs @ xs ! i # drop (Suc i) xs"
    using assms(2) by (rule id_take_nth_drop)
  have "xs ! i = 0 \<or> xs ! i = 1" using assms by (auto simp: bits_def list_all_length)
  then have b: "xs ! i XOR 1 = 1 - xs ! i" by auto
  have l: "length (take i xs) = i" "length (drop (Suc i) xs) = length xs - Suc i"
    using assms(2) by simp_all
  have "xorl xs (replicate i 0 @ 1 # replicate (length xs - Suc i) 0) =
      xorl (take i xs) (replicate i 0) @ (xs ! i XOR 1) # xorl (drop (Suc i) xs) (replicate (length xs - Suc i) 0)"
    by (subst (1) xs, subst xorl_append) (use assms(2) in simp_all)
  also have "\<dots> = take i xs @ (1 - xs ! i) # drop (Suc i) xs"
    using xorl_zeros(1) [of "take i xs"] xorl_zeros(1) [of "drop (Suc i) xs"] l b by simp
  finally show ?thesis using assms(2) by (simp add: flip_bit_def upd_conv_take_nth_drop)
qed

lemma flipped_frame_rem:
  assumes g: "generator g" "2 \<le> length g" and msg: "bits msg" "length g \<le> length msg"
    and i: "i < length (crc_frame g msg)"
  shows "\<not> all_zero (gf_rem g (flip_bit (crc_frame g msg) i))"
proof -
  let ?f = "crc_frame g msg" and ?e = "replicate i 0 @ 1 # replicate (length (crc_frame g msg) - Suc i) (0 :: int)"
  have gb: "g \<noteq> []" "bits g" using g by (auto simp: generator_def)
  have fb: "bits ?f" using gb msg by (simp add: crc_frame_def bits_gf_rem)
  have len: "length ?f = length msg + (length g - 1)"
    using gb by (simp add: crc_frame_def length_gf_rem)
  have eb: "bits ?e" "length ?e = length ?f" using i by auto
  have fz: "gf_rem g ?f = replicate (length g - 1) 0"
    using crc_frame_rem [OF gb msg(1)] length_gf_rem [of g ?f] gb len msg(2)
    by (simp add: all_zero_iff)
  have "gf_rem g (flip_bit ?f i) = xorl (gf_rem g ?f) (gf_rem g ?e)"
    using gf_rem_xorl [OF gb fb eb(1)] eb(2) fb i by (simp add: flip_bit_xorl)
  also have "\<dots> = gf_rem g ?e"
    using fz length_gf_rem [of g ?e] xorl_zeros(2) [of "gf_rem g ?e"] gb eb(2) len msg(2) by simp
  finally show ?thesis
    using unit_not_divisible [OF g, of i "length ?f - Suc i"] i len msg(2) by simp
qed


section \<open>What crc1.c prints\<close>

definition spaced :: "int list \<Rightarrow> string list" where
  "spaced xs = map (\<lambda>x. dec x @ '' '') xs"

text \<open>The keyboard of a session: generator, message, and the frame given to the receiver.\<close>

definition crc1_keys :: "int list \<Rightarrow> int list \<Rightarrow> int list \<Rightarrow> ans list" where
  "crc1_keys g msg fr =
     typed (int (length g) - 1) # map typed g @ typed (int (length msg) - 1) # map typed msg @
     typed (int (length fr) - 1) # map typed fr"

text \<open>What the receiver prints for the frame fr: quotient q, rest and verdict.\<close>

definition crc1_verdict :: "int list \<Rightarrow> int list \<Rightarrow> string" where
  "crc1_verdict g fr =
     (if all_zero (gf_rem g fr) then newline # '' No Error'' @ [newline] else newline # ''Error'')"

lemma receive_prints:
  assumes g: "length g = Suc n" and fr: "length fr = Suc m" "n \<le> m" "length fr \<le> length a"
  shows "\<exists>q. printed (trace (crc1_receive n (g @ g') a m0) (typed (int m) # map typed fr)) =
    [newline # ''Enter the degree of frame : '', ''Enter the frame : '' @ [newline],
     newline # ''Quotient is : ''] @ spaced q @ [newline # ''Reminder is : ''] @
    spaced (gf_rem g fr) @ [crc1_verdict g fr]"
proof -
  have e: "exec (read_ints (nat (int m + 1)) a k) (map typed fr @ []) =
      (case exec (k (fr @ drop (length fr) a)) [] of
        (t, f) \<Rightarrow> (map (\<lambda>x. Did Scanf_int (typed x)) fr @ t, f))" for k
    using exec_read_ints [of fr a k "[]"] fr by (simp add: nat_add_distrib)
  obtain q r where d: "crc1_divide n (g @ g') (fr @ drop (length fr) a) (int m) = (q, r)"
    by fastforce
  have "tl r = gf_rem g fr" using crc1_divide_rem [OF g fr(2,1), of g' "drop (length fr) a"] d by simp
  with e d show ?thesis
    unfolding crc1_receive_def trace_def
    by (intro exI [of _ q])
      (simp add: spaced_def crc1_verdict_def all_zero_def split: prod.splits)
qed

lemma exec_zero_fill:
  assumes "i + k \<le> length a"
  shows "exec (for_each [i..<i + k] (\<lambda>i a c. arr_set a (int i) 0 c) a c) as =
    exec (c (take i a @ replicate k 0 @ drop (i + k) a)) as"
  using assms
proof (induction k arbitrary: i a)
  case 0
  then show ?case by simp
next
  case (Suc k)
  have "[i..<i + Suc k] = i # [Suc i..<Suc i + k]" by (subst upt_Suc_Cons) simp_all
  moreover from Suc.prems have "take (Suc i) (a[i := 0]) @ replicate k 0 @ drop (Suc i + k) (a[i := 0]) =
      take i a @ replicate (Suc k) 0 @ drop (i + Suc k) a"
    by (simp add: take_Suc_conv_app_nth)
  ultimately show ?case using Suc.IH [of "Suc i" "a[i := 0]"] Suc.prems by (simp del: upt_Suc)
qed

lemma send_prints:
  assumes g: "length g = Suc n" and msg: "length msg = Suc m" "n \<le> m"
    and a: "length msg + n \<le> length (msg @ a')" and fr: "length fr = Suc m'" "n \<le> m'" "length fr \<le> length (msg @ a')"
  shows "\<exists>pre q. printed (trace (crc1_send n m (g @ g') (msg @ a')) (typed (int m') # map typed fr)) =
    pre @ [newline # ''Transmitted frame  is : ''] @ spaced (crc_frame g msg) @
    [[newline], newline # ''Enter the degree of frame : '', ''Enter the frame : '' @ [newline],
     newline # ''Quotient is : ''] @ spaced q @ [newline # ''Reminder is : ''] @
    spaced (gf_rem g fr) @ [crc1_verdict g fr]"
proof -
  let ?z = "replicate n (0 :: int)" and ?as = "typed (int m') # map typed fr"
  let ?a = "msg @ ?z @ drop n a'"
  obtain q r where d: "crc1_divide n (g @ g') ?a (int (m + n)) = (q, r)" by fastforce
  have "tl r = gf_rem g (msg @ ?z)"
    using crc1_divide_rem [of g n "m + n" "msg @ ?z" g' "drop n a'"] g msg d by simp
  then have fm: "msg @ tl r = crc_frame g msg" using g by (simp add: crc_frame_def)
  have g1: "g \<noteq> []" using g by auto
  have lr: "length (tl r) = n"
    using length_gf_rem [of g "msg @ ?z"] g1 g msg \<open>tl r = _\<close> by simp
  have z: "exec (for_each [Suc m..<Suc (m + n)] (\<lambda>i a c. arr_set a (int i) 0 c) (msg @ a') c) as =
      exec (c ?a) as" for c as
    using exec_zero_fill [of "Suc m" n "msg @ a'" c as] a msg by simp
  let ?b = "take (Suc m) ?a @ tl r @ drop (Suc (m + n)) ?a"
  have b: "?b = (msg @ tl r) @ drop n a'" "take (Suc (m + n)) ?b = msg @ tl r"
    using msg lr by simp_all
  have lb: "length fr \<le> length ((msg @ tl r) @ drop n a')" using fr a lr by simp
  obtain q' where q': "printed (trace (crc1_receive n (g @ g') ?b (int m)) ?as) =
    [newline # ''Enter the degree of frame : '', ''Enter the frame : '' @ [newline],
     newline # ''Quotient is : ''] @ spaced q' @ [newline # ''Reminder is : ''] @
    spaced (gf_rem g fr) @ [crc1_verdict g fr]"
    using receive_prints [OF g fr(1,2) lb, of g' "int m"] unfolding b by blast
  have "printed (trace (crc1_send n m (g @ g') (msg @ a')) ?as) =
      ((newline # ''Quotient is : '') # spaced q @ (newline # ''Reminder is : '') # spaced (tl r)) @
      [newline # ''Transmitted frame  is : ''] @ spaced (msg @ tl r) @ [newline] #
      printed (trace (crc1_receive n (g @ g') ?b (int m)) ?as)"
    unfolding crc1_send_def trace_def z d prod.case Let_def b(2)
    by (simp add: spaced_def split: prod.splits)
  then show ?thesis unfolding fm q'
    by (intro exI [of _ "(newline # ''Quotient is : '') # spaced q @ (newline # ''Reminder is : '') # spaced (tl r)"]
        exI [of _ q']) simp
qed

lemma main_prints:
  assumes g: "length g = Suc n" "hd g \<noteq> 0" "last g \<noteq> 0" "length g \<le> length g0"
    and msg: "length msg = Suc m" "n \<le> m" "length msg + n \<le> length a0"
    and fr: "length fr = Suc m'" "n \<le> m'" "length fr \<le> length a0"
  shows "\<exists>pre q. printed (trace (crc1_main a0 g0 n0 m0) (crc1_keys g msg fr)) =
    pre @ [newline # ''Transmitted frame  is : ''] @ spaced (crc_frame g msg) @
    [[newline], newline # ''Enter the degree of frame : '', ''Enter the frame : '' @ [newline],
     newline # ''Quotient is : ''] @ spaced q @ [newline # ''Reminder is : ''] @
    spaced (gf_rem g fr) @ [crc1_verdict g fr]"
proof -
  let ?as = "typed (int m') # map typed fr"
  let ?g = "g @ drop (length g) g0" and ?a = "msg @ drop (length msg) a0"
  have rg: "exec (read_ints (nat (int n + 1)) g0 k) (map typed g @ as) =
      (case exec (k ?g) as of (t, f) \<Rightarrow> (map (\<lambda>x. Did Scanf_int (typed x)) g @ t, f))" for k as
    using exec_read_ints [of g g0 k as] g by (simp add: nat_add_distrib)
  have ra: "exec (read_ints (nat (int m + 1)) a0 k) (map typed msg @ as) =
      (case exec (k ?a) as of (t, f) \<Rightarrow> (map (\<lambda>x. Did Scanf_int (typed x)) msg @ t, f))" for k as
    using exec_read_ints [of msg a0 k as] msg by (simp add: nat_add_distrib)
  have g0: "g0 \<noteq> []" using g by auto
  have "g \<noteq> []" using g by auto
  then have gs: "g \<noteq> []" "?g ! 0 = hd g" "?g ! n = last g"
    using g by (simp_all add: nth_append hd_conv_nth last_conv_nth)
  have la: "length msg + n \<le> length ?a" "length fr \<le> length ?a" using msg fr by simp_all
  from send_prints [OF g(1) msg(1,2) la(1) fr(1,2) la(2), of "drop (length g) g0"]
  obtain pre q where s: "printed (trace (crc1_send n m ?g ?a) ?as) =
    pre @ [newline # ''Transmitted frame  is : ''] @ spaced (crc_frame g msg) @
    [[newline], newline # ''Enter the degree of frame : '', ''Enter the frame : '' @ [newline],
     newline # ''Quotient is : ''] @ spaced q @ [newline # ''Reminder is : ''] @
    spaced (gf_rem g fr) @ [crc1_verdict g fr]" by blast
  have keys: "crc1_keys g msg fr = typed (int n) # map typed g @ typed (int m) # map typed msg @ ?as"
    using g msg fr by (simp add: crc1_keys_def)
  have "printed (trace (crc1_main a0 g0 n0 m0) (crc1_keys g msg fr)) =
      [''Enter the degree of generator : '', newline # ''Enter the generator : '' @ [newline],
       newline # ''Enter the degree of frame : '', ''Enter the frame : '' @ [newline]] @
      printed (trace (crc1_send n m ?g ?a) ?as)"
    unfolding keys crc1_main_def trace_def
    using gs g0 g msg by (simp add: rg ra Let_def arr_get_def split: prod.splits)
  with s show ?thesis by (metis append.assoc)
qed

section \<open>What the checksum programs do\<close>

text \<open>
  C12. For a generator of positive degree and a message of bits that is at
  least as long, both within the arrays, the sender of crc1.c prints the message followed by the
  remainder of its division as the transmitted frame, and a receiver that is given that frame
  prints a remainder of zeros and No Error.
\<close>

theorem crc1_accepts_own_frame:
  assumes "generator g" and "bits msg" and "length g \<le> length msg"
    and "length g0 = 16" and "length a0 = 16" and "length (crc_frame g msg) \<le> 16"
  shows "\<exists>pre q. printed (trace (crc1_main a0 g0 n0 m0) (crc1_keys g msg (crc_frame g msg))) =
    pre @ [newline # ''Transmitted frame  is : ''] @ spaced (crc_frame g msg) @
    [[newline], newline # ''Enter the degree of frame : '', ''Enter the frame : '' @ [newline],
     newline # ''Quotient is : ''] @ spaced q @ [newline # ''Reminder is : ''] @
    spaced (replicate (length g - 1) 0) @ [newline # '' No Error'' @ [newline]]"
proof -
  from assms(1) have g: "g \<noteq> []" "bits g" "hd g \<noteq> 0" "last g \<noteq> 0" by (auto simp: generator_def)
  then obtain n where n: "length g = Suc n" by (cases g) auto
  with assms(3) obtain m where m: "length msg = Suc m" "n \<le> m" by (cases msg) auto
  have lf: "length (crc_frame g msg) = Suc (m + n)" "length msg + n = length (crc_frame g msg)"
    using g n m by (simp_all add: crc_frame_def length_gf_rem)
  have z: "all_zero (gf_rem g (crc_frame g msg))" by (rule crc_frame_rem [OF g(1,2) assms(2)])
  then have "gf_rem g (crc_frame g msg) = replicate (length g - 1) 0"
    using length_gf_rem [of g "crc_frame g msg"] g n m lf by (simp add: all_zero_iff)
  moreover from z have "crc1_verdict g (crc_frame g msg) = newline # '' No Error'' @ [newline]"
    by (simp add: crc1_verdict_def)
  ultimately show ?thesis
    using main_prints [OF n g(3,4) _ m(1,2) _ lf(1), of g0 a0 n0 m0] assms(4-6) lf m n by simp
qed

theorem crc1_accepts_own_frame_witness:
  "crc_frame [1, 0, 1, 1] [1, 1, 0, 1] = [1, 1, 0, 1, 0, 0, 1] \<and>
   (\<exists>pre q. printed (trace (crc1_main (replicate 16 7) (replicate 16 7) 0 0)
      (crc1_keys [1, 0, 1, 1] [1, 1, 0, 1] (crc_frame [1, 0, 1, 1] [1, 1, 0, 1]))) =
    pre @ [newline # ''Transmitted frame  is : ''] @ spaced (crc_frame [1, 0, 1, 1] [1, 1, 0, 1]) @
    [[newline], newline # ''Enter the degree of frame : '', ''Enter the frame : '' @ [newline],
     newline # ''Quotient is : ''] @ spaced q @ [newline # ''Reminder is : ''] @
    spaced (replicate (length [1, 0, 1, 1 :: int] - 1) 0) @ [newline # '' No Error'' @ [newline]])"
proof
  show f: "crc_frame [1, 0, 1, 1] [1, 1, 0, 1] = [1, 1, 0, 1, 0, 0, 1]"
    by code_simp
  show "\<exists>pre q. printed (trace (crc1_main (replicate 16 7) (replicate 16 7) 0 0)
      (crc1_keys [1, 0, 1, 1] [1, 1, 0, 1] (crc_frame [1, 0, 1, 1] [1, 1, 0, 1]))) =
    pre @ [newline # ''Transmitted frame  is : ''] @ spaced (crc_frame [1, 0, 1, 1] [1, 1, 0, 1]) @
    [[newline], newline # ''Enter the degree of frame : '', ''Enter the frame : '' @ [newline],
     newline # ''Quotient is : ''] @ spaced q @ [newline # ''Reminder is : ''] @
    spaced (replicate (length [1, 0, 1, 1 :: int] - 1) 0) @ [newline # '' No Error'' @ [newline]]"
    by (rule crc1_accepts_own_frame) (simp_all add: f generator_def)
qed

text \<open>
  C6. The receiver of crc1.c detects every single-bit error: given the
  transmitted frame with the bit at any one position changed, it ends with Error.
\<close>

theorem crc1_detects_flipped_bit:
  assumes "generator g" and "2 \<le> length g" and "bits msg" and "length g \<le> length msg"
    and "length g0 = 16" and "length a0 = 16" and "length (crc_frame g msg) \<le> 16"
    and "i < length (crc_frame g msg)"
  shows "last (printed (trace (crc1_main a0 g0 n0 m0)
    (crc1_keys g msg (flip_bit (crc_frame g msg) i)))) = newline # ''Error''"
proof -
  let ?f = "flip_bit (crc_frame g msg) i"
  from assms(1) have g: "g \<noteq> []" "bits g" "hd g \<noteq> 0" "last g \<noteq> 0" by (auto simp: generator_def)
  then obtain n where n: "length g = Suc n" by (cases g) auto
  with assms(4) obtain m where m: "length msg = Suc m" "n \<le> m" by (cases msg) auto
  have lf: "length (crc_frame g msg) = Suc (m + n)" "length ?f = Suc (m + n)"
    using g n m by (simp_all add: crc_frame_def length_gf_rem flip_bit_def)
  have "crc1_verdict g ?f = newline # ''Error''"
    using flipped_frame_rem [OF assms(1-4,8)] by (simp add: crc1_verdict_def)
  moreover have "\<exists>us. printed (trace (crc1_main a0 g0 n0 m0) (crc1_keys g msg ?f)) =
      us @ [crc1_verdict g ?f]"
    using main_prints [OF n g(3,4) _ m(1,2) _ lf(2), of g0 a0 n0 m0] assms(5-7) lf m n
    by (auto simp del: append_assoc simp flip: append_assoc append_Cons)
  ultimately show ?thesis by auto
qed

theorem crc1_detects_flipped_bit_witness:
  "last (printed (trace (crc1_main (replicate 16 7) (replicate 16 7) 0 0)
    (crc1_keys [1, 0, 1, 1] [1, 1, 0, 1] (flip_bit (crc_frame [1, 0, 1, 1] [1, 1, 0, 1]) 5)))) =
   newline # ''Error''"
proof (rule crc1_detects_flipped_bit)
  show "length (crc_frame [1, 0, 1, 1] [1, 1, 0, 1]) \<le> 16" by code_simp
  show "5 < length (crc_frame [1, 0, 1, 1] [1, 1, 0, 1])" by code_simp
qed (simp_all add: generator_def)

text \<open>What main does with the result: the length of the quotient, the frame, the copy of the remainder.\<close>

lemma crc1_divide_frame:
  assumes "bits g" and "g \<noteq> []" and "bits msg" and "msg \<noteq> []"
    and "crc1_divide (length g - 1) g (msg @ replicate (length g - 1) 0)
        (int (length msg + (length g - 1)) - 1) = (q, r)"
  shows "msg @ tl r = crc_frame g msg"
  using crc1_divide_rem [of g "length g - 1" "length msg + (length g - 1) - 1"
      "msg @ replicate (length g - 1) 0" "[]" "[]"] assms
  by (cases msg; cases g) (simp_all add: crc_frame_def)

lemma length_crc1_quotient:
  assumes "g \<noteq> []" and "msg \<noteq> []"
    and "crc1_divide (length g - 1) g (msg @ replicate (length g - 1) 0)
        (int (length msg + (length g - 1)) - 1) = (q, r)"
  shows "length q = length msg"
proof -
  let ?m = "msg @ replicate (length g - 1) 0"
  have "fst (crc_div g (take (length g) ?m) (drop (length g) ?m)) = q"
    using assms(3) unfolding crc1_divide_message [OF assms(1,2)] by simp
  then show ?thesis
    using length_crc_div [of g "take (length g) ?m" "drop (length g) ?m"] assms(1,2)
    by (cases msg; cases g) auto
qed

lemma copied_bits:
  assumes "take m a = bit_chars r" and "m \<le> length a"
  shows "take m (overwrite b (lit (c_str a))) = bit_chars r"
proof -
  have "length (bit_chars r) = m" using arg_cong [OF assms(1), where f = length] assms(2) by simp
  moreover have "c_str a = bit_chars r @ c_str (drop m a)"
    using c_str_no_nul_append [of "bit_chars r"] assms(1) by (metis append_take_drop_id no_nul_bit_chars)
  ultimately show ?thesis by (simp add: overwrite_def lit_def)
qed



end
