(* ===== verification/CN_Hamming.thy ===== *)
theory CN_Hamming imports CN_Prog begin

unbundle bit_operations_syntax

text \<open>
  errcorrection/hamming.cpp: main reads a frame, puts redundancy bits at the positions that are
  powers of two, changes the bit at a position the user names and computes from the redundancy
  bits where the error is. errcorrection/first.cpp: the parity bit of a number. The arrays are
  declared without initial values; what they hold at first are parameters.
\<close>

section \<open>The binary representation of a position\<close>

text \<open>The loop that finds the position of the 1, and the one that fills a1.\<close>

fun exponent :: "nat \<Rightarrow> int \<Rightarrow> int" where
  "exponent i7 i4 =
     (if 0 < i7 then (if i7 = 1 then i4 + 1 else exponent (i7 div 2) (i4 + 1)) else i4)"

declare exponent.simps [simp del]

fun binary :: "nat \<Rightarrow> nat \<Rightarrow> int list \<Rightarrow> (int list \<Rightarrow> prog) \<Rightarrow> prog" where
  "binary i7 i6 a1 k =
     (if 0 < i7 then
        (if i7 = 1 then arr_set a1 (int i6) 1 k
         else arr_set a1 (int i6) (int (i7 mod 2)) (\<lambda>a1. binary (i7 div 2) (i6 + 1) a1 k))
      else k a1)"

declare binary.simps [simp del]

text \<open>
  The number of positions up to l that have a 1 in the frame and bit i4 in their binary
  representation; a1 is reset for every position.
\<close>

definition count_ones :: "nat \<Rightarrow> int \<Rightarrow> int list \<Rightarrow> (int \<Rightarrow> prog) \<Rightarrow> prog" where
  "count_ones l i4 df k =
     for_each [1..<Suc l] (\<lambda>i2 i3 k.
       binary i2 0 [- 1, - 1, - 1, - 1] (\<lambda>a1. arr_get a1 i4 (\<lambda>b.
       if b = 1 then arr_get df (int i2) (\<lambda>d. if d = 1 then k (i3 + 1) else k i3) else k i3)))
     0 k"

section \<open>The program\<close>

definition read_frame :: "int \<Rightarrow> int list \<Rightarrow> (int list \<Rightarrow> prog) \<Rightarrow> prog" where
  "read_frame m db k = for_each (rev [0..<nat m]) read_int_at db k"

definition print_frame :: "int \<Rightarrow> int list \<Rightarrow> prog \<Rightarrow> prog" where
  "print_frame m db k =
     for_each [0..<nat m] (\<lambda>i _ k. arr_get db (int i) (\<lambda>v. Out (dec v @ '' '') (k ()))) () (\<lambda>_. k)"

definition reverse_frame :: "int \<Rightarrow> int list \<Rightarrow> int list \<Rightarrow> (int list \<Rightarrow> prog) \<Rightarrow> prog" where
  "reverse_frame m db temp k =
     for_each [0..<nat m] (\<lambda>j temp k. arr_get db (m - 1 - int j) (\<lambda>v. arr_set temp (int j) v k)) temp
     (\<lambda>temp. for_each [0..<nat m] (\<lambda>i db k. arr_get temp (int i) (\<lambda>v. arr_set db (int i) v k)) db k)"

text \<open>The new frame: a record of the variables of the loop that introduces the redundancy bits.\<close>

record frame =
  df :: "int list"
  rb :: "int list"
  nrb :: nat
  len :: nat

function place :: "int \<Rightarrow> int list \<Rightarrow> nat \<Rightarrow> nat \<Rightarrow> nat \<Rightarrow> frame \<Rightarrow> (frame \<Rightarrow> prog) \<Rightarrow> prog" where
  "place m db i j k f K =
     (if int j < m then
        (if i = k
         then arr_set (df f) (int i) (- 1) (\<lambda>d.
           place m db (i + 1) j (k * 2) (f\<lparr>df := d, nrb := nrb f + 1, len := len f + 1\<rparr>) K)
         else arr_get db (int j) (\<lambda>v. arr_set (df f) (int i) v (\<lambda>d.
           place m db (i + 1) (j + 1) k (f\<lparr>df := d, len := len f + 1\<rparr>) K)))
      else K f)"
  by pat_completeness auto
termination
  by (relation "measures [\<lambda>(m, db, i, j, k, f, K). nat m - j,
      \<lambda>(m, db, i, j, k, f, K). if i = k then (if k = 1 then 2 else 1) else 0]") auto

declare place.simps [simp del]

definition print_new_frame :: "nat \<Rightarrow> int list \<Rightarrow> prog \<Rightarrow> prog" where
  "print_new_frame l d k =
     for_each (rev [1..<Suc l]) (\<lambda>i _ k. arr_get d (int i) (\<lambda>v. Out ('' '' @ dec v) (k ()))) () (\<lambda>_. k)"

text \<open>A redundancy bit: its parity goes into the frame and into rb.\<close>

definition set_parity :: "nat \<Rightarrow> nat \<Rightarrow> frame \<Rightarrow> (frame \<Rightarrow> prog) \<Rightarrow> prog" where
  "set_parity i1 i5 f k =
     count_ones (len f) (exponent i1 (- 1)) (df f) (\<lambda>i3.
     let b = (if i3 mod 2 = 0 then 0 else 1) in
     arr_set (df f) (int i1) b (\<lambda>d. arr_set (rb f) (int i5) b (\<lambda>r. k (f\<lparr>df := d, rb := r\<rparr>))))"

definition redundancy_turn :: "nat \<Rightarrow> frame \<times> nat \<Rightarrow> (frame \<times> nat \<Rightarrow> prog) \<Rightarrow> prog" where
  "redundancy_turn i1 = (\<lambda>(f, i5) k. arr_get (df f) (int i1) (\<lambda>v.
     if v = - 1 then set_parity i1 i5 f (\<lambda>f.
       arr_get (rb f) (int i5) (\<lambda>r.
       Out (newline # '' R'' @ dec (int i5 + 1) @ '' = '' @ dec r @ CHR 0x09 # '' New Frame'') (
       for_each [1..<Suc (len f)] (\<lambda>i2 _ k. arr_get (df f) (int i2) (\<lambda>v. Out ('' '' @ dec v) (k ()))) ()
         (\<lambda>_. k (f, i5 + 1)))))
     else k (f, i5)))"

definition redundancy :: "frame \<Rightarrow> (frame \<Rightarrow> prog) \<Rightarrow> prog" where
  "redundancy f k = for_each [1..<Suc (len f)] redundancy_turn (f, 0) (\<lambda>(f, i5). k f)"

text \<open>if (df[eb] = 1): the condition stores 1 in the frame and is true.\<close>

definition change_bit :: "int \<Rightarrow> frame \<Rightarrow> (frame \<Rightarrow> prog) \<Rightarrow> prog" where
  "change_bit eb f k =
     arr_get (df f) eb (\<lambda>v.
     Out (newline # '' Bit at position '' @ dec eb @ '' is '' @ dec v) (
     arr_set (df f) eb 1 (\<lambda>d. arr_get d eb (\<lambda>c.
     arr_set d eb (if c \<noteq> 0 then 0 else 1) (\<lambda>d. arr_get d eb (\<lambda>v.
     Out ('' and now changed to '' @ dec v) (k (f\<lparr>df := d\<rparr>))))))))"

definition recalculate_turn :: "nat \<Rightarrow> frame \<times> nat \<times> nat \<Rightarrow> (frame \<times> nat \<times> nat \<Rightarrow> prog) \<Rightarrow> prog" where
  "recalculate_turn i1 = (\<lambda>(f, i5, k) K.
     if i1 = k then set_parity i1 i5 f (\<lambda>f. K (f, i5 + 1, k * 2)) else K (f, i5, k))"

definition recalculate :: "frame \<Rightarrow> (frame \<Rightarrow> prog) \<Rightarrow> prog" where
  "recalculate f K = for_each [1..<Suc (len f)] recalculate_turn (f, 0, 1) (\<lambda>s. K (fst s))"

definition error_position :: "frame \<Rightarrow> (int \<Rightarrow> prog) \<Rightarrow> prog" where
  "error_position f K =
     for_each [0..<nrb f] (\<lambda>i _ k. arr_get (rb f) (int i) (\<lambda>v. Out ('' '' @ dec v) (k ()))) () (\<lambda>_.
     for_each [0..<nrb f] (\<lambda>i (ep, j) k. arr_get (rb f) (int i) (\<lambda>v.
       k (if v = 1 then ep + j else ep, j * 2))) (0, 1) (\<lambda>(ep, j). K ep))"

definition locate :: "int \<Rightarrow> frame \<Rightarrow> prog" where
  "locate eb f =
     change_bit eb f (\<lambda>f.
     Out (newline # '' New Frame is'') (print_new_frame (len f) (df f) (
     recalculate f (\<lambda>f.
     Out (newline # '' Redundancy bits:'') (
     error_position f (\<lambda>ep.
     Out (newline # '' Error is at : '' @ dec ep) (Exit 0)))))))"

definition ask_error :: "int \<Rightarrow> frame \<Rightarrow> prog" where
  "ask_error eb f =
     Out [newline] (Out (newline # '' Enter bit number where error is occurred: '') (
     scan_int eb (\<lambda>eb. locate eb f)))"

definition hamming_main :: "int \<Rightarrow> int \<Rightarrow> int \<Rightarrow> int list \<Rightarrow> int list \<Rightarrow> int list \<Rightarrow> int list \<Rightarrow> prog" where
  "hamming_main m r eb db temp df0 rb0 =
     Out (newline # '' Enter frame size:'') (scan_int m (\<lambda>m.
     Out (newline # '' Enter Frame :'') (read_frame m db (\<lambda>db.
     Out (newline # '' Enter redundancy bits: '') (scan_int r (\<lambda>r.
     Out (newline # '' Frame :'' @ newline # '' '') (print_frame m db (
     reverse_frame m db temp (\<lambda>db.
     place m db 1 0 1 \<lparr>df = df0, rb = rb0, nrb = 0, len = 0\<rparr> (\<lambda>f.
     Out [newline] (Out (newline # '' Frame after introducing redundancy bits :'' @ newline # '' '') (
     print_new_frame (len f) (df f) (
     redundancy f (ask_error eb))))))))))))))"

section \<open>The parity bit of a number\<close>

text \<open>
  first.cpp. A negative number is shifted to -1 and stays there, so that the counter overflows;
  the shifted number wraps around at 32 bits.
\<close>

fun count_bits :: "nat \<Rightarrow> nat \<Rightarrow> nat" where
  "count_bits num count = (if num = 0 then count else count_bits (num div 2) (if odd num then count + 1 else count))"

declare count_bits.simps [simp del]

definition transmitted :: "nat \<Rightarrow> 32 word" where
  "transmitted num = push_bit 1 (word_of_nat num) OR of_bool (odd (count_bits num 0))"

definition parity_main :: "int \<Rightarrow> prog" where
  "parity_main num =
     scan_int num (\<lambda>num. if num < 0 then Undef else
     Out (line (''The parity bit is '' @ dec (of_bool (odd (count_bits (nat num) 0))))) (
     Out (line (''And the transmitted number is '' @ dec (sint (transmitted (nat num))))) (Exit 0)))"

section \<open>Programs that print and go on\<close>

definition outputs :: "prog \<Rightarrow> prog \<Rightarrow> bool" where
  "outputs p q = (\<exists>out. p = foldr Out out q)"

lemma outputs_refl [simp]: "outputs p p"
  unfolding outputs_def by (rule exI [of _ "[]"]) simp

lemma outputs_Out: "outputs p q \<Longrightarrow> outputs (Out s p) q"
  unfolding outputs_def by (metis foldr.simps(2) comp_apply)

lemma outputs_trans: "outputs p q \<Longrightarrow> outputs q r \<Longrightarrow> outputs p r"
  unfolding outputs_def by (metis foldr_append)

lemma outputs_for_each:
  assumes "\<And>x. x \<in> set xs \<Longrightarrow> \<exists>s. \<forall>k. body x () k = Out s (k ())"
  shows "outputs (for_each xs body () (\<lambda>_. q)) q"
  using assms
proof (induction xs)
  case (Cons x xs)
  obtain s where s: "\<And>k. body x () k = Out s (k ())" using Cons.prems [of x] by auto
  have "outputs (for_each xs body () (\<lambda>_. q)) q" using Cons by simp
  then show ?case by (simp add: s outputs_Out)
qed simp

lemma printed_outputs: "printed (trace (foldr Out out q) as) = out @ printed (trace q as)"
  by (induction out) simp_all

lemma final_outputs: "final_of (foldr Out out q) as = final_of q as"
  by (induction out) simp_all

lemma outputs_run:
  assumes "outputs p q"
  shows "final_of p as = final_of q as"
    and "printed (trace q as) \<noteq> [] \<Longrightarrow> last (printed (trace p as)) = last (printed (trace q as))"
    and "printed (trace q as) \<noteq> [] \<Longrightarrow> printed (trace p as) \<noteq> []"
  using assms by (auto simp: outputs_def printed_outputs final_outputs)

text \<open>The number that first.cpp transmits has an even number of ones.\<close>

lemma count_bits_step:
  "0 < n \<Longrightarrow> count_bits n c = count_bits (n div 2) (if odd n then c + 1 else c)"
  by (subst count_bits.simps) simp

lemma count_bits_zero [simp]: "count_bits 0 c = c"
  by (simp add: count_bits.simps)

lemma count_bits_add: "count_bits n c = c + count_bits n 0"
proof (induction n arbitrary: c rule: less_induct)
  case (less n)
  show ?case
  proof (cases "n = 0")
    case False
    with less [of "n div 2" "if odd n then c + 1 else c"] less [of "n div 2" "if odd n then 1 else 0"]
    show ?thesis by (cases "odd n") (simp_all add: count_bits_step [of n])
  qed simp
qed

lemma transmitted_even:
  assumes "num < 2 ^ 31"
  shows "even (count_bits (unat (transmitted num)) 0)"
proof -
  have "unat (transmitted num) = 2 * num + of_bool (odd (count_bits num 0))"
  proof -
    have "transmitted num = word_of_nat (2 * num + of_bool (odd (count_bits num 0)))"
      by (simp add: transmitted_def push_bit_eq_mult or_one_eq)
    moreover have "2 * num + of_bool (odd (count_bits num 0)) < (2 :: nat) ^ LENGTH(32)"
      using assms by simp
    ultimately show ?thesis by (simp only: unat_of_nat mod_less)
  qed
  then show ?thesis
    using count_bits_add [of num 1] by (cases "num = 0") (auto simp: count_bits_step [of "2 * num"] count_bits_step [of "Suc (2 * num)"] count_bits_zero)
qed

section \<open>Positions and their bits\<close>

lemma exponent_power: "exponent (2 ^ e) c = c + int e + 1"
proof (induction e arbitrary: c)
  case 0
  show ?case by (simp add: exponent.simps)
next
  case (Suc e)
  have "exponent (2 ^ Suc e) c = exponent (2 ^ e) (c + 1)"
    by (subst exponent.simps) simp
  with Suc show ?case by simp
qed

text \<open>For a position below 16 the test of a1 is the test of the bit.\<close>

definition bits4 :: "nat \<Rightarrow> int list" where
  "bits4 n = (if n = 1 then [1, - 1, - 1, - 1]
     else if n < 4 then [int (n mod 2), 1, - 1, - 1]
     else if n < 8 then [int (n mod 2), int (n div 2 mod 2), 1, - 1]
     else [int (n mod 2), int (n div 2 mod 2), int (n div 4 mod 2), 1])"

lemma binary_bits4: "0 < n \<Longrightarrow> n < 16 \<Longrightarrow> binary n 0 [- 1, - 1, - 1, - 1] k = k (bits4 n)"
proof -
  assume "0 < n" "n < 16"
  then have "n \<in> {1, 2, 3, 4, 5, 6, 7, 8, 9, 10, 11, 12, 13, 14, 15}" by (simp; presburger)
  then show ?thesis
    by (elim insertE emptyE) (simp_all add: binary.simps bits4_def)
qed

lemma bits4_bit: "0 < n \<Longrightarrow> n < 16 \<Longrightarrow> e < 4 \<Longrightarrow> (bits4 n ! e = 1) = bit n e"
proof -
  assume "0 < n" "n < 16" "e < 4"
  then have "n \<in> {1, 2, 3, 4, 5, 6, 7, 8, 9, 10, 11, 12, 13, 14, 15}" "e \<in> {0, 1, 2, 3}"
    by (simp; presburger)+
  then show ?thesis
    by (elim insertE emptyE) (simp_all add: bits4_def bit_iff_odd)
qed

lemma length_bits4 [simp]: "length (bits4 n) = 4"
  by (simp add: bits4_def)

text \<open>The parity check e over the positions of a frame of length l.\<close>

definition hit :: "nat \<Rightarrow> int list \<Rightarrow> nat \<Rightarrow> nat" where
  "hit e d i = of_bool (bit i e \<and> d ! i = 1)"

definition ones :: "nat \<Rightarrow> nat \<Rightarrow> int list \<Rightarrow> nat" where
  "ones l e d = (\<Sum>i = 1..l. hit e d i)"

lemma count_ones_from:
  fixes d :: "int list"
  assumes "e < 4"
  shows "Suc l - i = n \<Longrightarrow> 0 < i \<Longrightarrow> l < 16 \<Longrightarrow> l < length d \<Longrightarrow>
    for_each [i..<Suc l] (\<lambda>i2 i3 k.
       binary i2 0 [- 1, - 1, - 1, - 1] (\<lambda>a1. arr_get a1 (int e) (\<lambda>b.
       if b = 1 then arr_get d (int i2) (\<lambda>d. if d = 1 then k (i3 + 1) else k i3) else k i3))) c k =
    k (c + int (\<Sum>i = i..l. hit e d i))"
proof (induction n arbitrary: i c)
  case 0
  then show ?case by simp
next
  case (Suc n)
  then have i: "i \<le> l" "[i..<Suc l] = i # [Suc i..<Suc l]" "i < 16"
    by (auto simp: upt_rec)
  have "sum (hit e d) {i..l} = hit e d i + sum (hit e d) {Suc i..l}"
    using i by (simp add: sum.atLeast_Suc_atMost)
  with Suc.IH [of "Suc i"] Suc.prems i(1,3) bits4_bit [of i e] assms show ?case
    unfolding i(2) by (simp add: binary_bits4 hit_def [of e d i] add.assoc del: upt_Suc of_nat_sum)
qed

lemma count_ones_eq:
  "e < 4 \<Longrightarrow> l < 16 \<Longrightarrow> l < length d \<Longrightarrow> count_ones l (int e) d k = k (int (ones l e d))"
  using count_ones_from [of e l 1 "l" d 0 k] by (simp add: count_ones_def ones_def del: upt_Suc of_nat_sum)

lemma ones_update:
  assumes "1 \<le> p" "p \<le> l" "l < length d"
  shows "ones l e (d[p := v]) + of_bool (bit p e \<and> d ! p = 1) = ones l e d + of_bool (bit p e \<and> v = 1)"
proof -
  have "ones l e x = hit e x p + sum (hit e x) ({1..l} - {p})" for x
    unfolding ones_def using assms by (simp add: sum.remove)
  moreover have "sum (hit e (d[p := v])) ({1..l} - {p}) = sum (hit e d) ({1..l} - {p})"
    by (rule sum.cong) (auto simp: hit_def)
  ultimately show ?thesis
    using assms by (simp add: hit_def [of e d p] hit_def [of e "d[p := v]" p])
qed

section \<open>Where the redundancy bits go\<close>

text \<open>The frame with -1 at the positions of the redundancy bits; k is the next power of two.\<close>

function lay :: "nat \<Rightarrow> nat \<Rightarrow> int list \<Rightarrow> int list" where
  "lay i k [] = []"
| "lay i k (x # xs) = (if i = k then - 1 # lay (i + 1) (k * 2) (x # xs) else x # lay (i + 1) k xs)"
  by pat_completeness auto
termination
  by (relation "measures [\<lambda>(i, k, xs). length xs, \<lambda>(i, k, xs). if i = k then (if k = 1 then 2 else 1) else 0]") auto

declare lay.simps(2) [simp del]

definition is_power :: "nat \<Rightarrow> bool" where
  "is_power n = (\<exists>e. n = 2 ^ e)"

text \<open>2 ^ e is the least power of two that is not below i.\<close>

definition next_power :: "nat \<Rightarrow> nat \<Rightarrow> bool" where
  "next_power i e = (i \<le> 2 ^ e \<and> 2 ^ e < 2 * i)"

lemma next_power_first: "next_power 1 0"
  by (simp add: next_power_def)

lemma next_power_step:
  assumes "next_power i e"
  shows "next_power (i + 1) (if i = 2 ^ e then e + 1 else e)"
  using assms by (auto simp: next_power_def)

lemma next_power_is: "next_power i e \<Longrightarrow> is_power i \<longleftrightarrow> i = 2 ^ e"
proof
  assume n: "next_power i e" and "is_power i"
  then obtain a where a: "i = 2 ^ a" by (auto simp: is_power_def)
  with n have "(2 :: nat) ^ a \<le> 2 ^ e" "(2 :: nat) ^ e < 2 ^ Suc a" by (auto simp: next_power_def)
  then have "a \<le> e" "e < Suc a" by (simp_all only: power_increasing_iff power_strict_increasing_iff one_less_numeral_iff semiring_norm)
  with a show "i = 2 ^ e" by simp
qed (auto simp: is_power_def)

lemma lay_nth:
  "next_power i e \<Longrightarrow> p < length (lay i (2 ^ e) xs) \<Longrightarrow>
    (if is_power (i + p) then lay i (2 ^ e) xs ! p = - 1 else lay i (2 ^ e) xs ! p \<in> set xs)"
proof (induction i "(2 :: nat) ^ e" xs arbitrary: e p rule: lay.induct)
  case (2 i x xs)
  show ?case
  proof (cases "i = 2 ^ e")
    case True
    with 2(3) next_power_step [of i e] have n: "next_power (i + 1) (Suc e)" by simp
    from True have l: "lay i (2 ^ e) (x # xs) = - 1 # lay (i + 1) (2 ^ Suc e) (x # xs)"
      by (subst lay.simps) (simp add: mult.commute)
    show ?thesis
    proof (cases p)
      case 0
      with l True show ?thesis by (auto simp: is_power_def)
    next
      case (Suc q)
      with 2(4) have "q < length (lay (i + 1) (2 ^ Suc e) (x # xs))" by (simp only: l) simp
      with 2(1) [of "Suc e" q] n True Suc show ?thesis
        unfolding l by (auto simp: mult.commute split: if_splits)
    qed
  next
    case False
    with 2(3) next_power_step [of i e] have n: "next_power (i + 1) e" by simp
    from False have l: "lay i (2 ^ e) (x # xs) = x # lay (i + 1) (2 ^ e) xs"
      by (subst lay.simps) simp
    show ?thesis
    proof (cases p)
      case 0
      with l False next_power_is [OF 2(3)] show ?thesis by simp
    next
      case (Suc q)
      with 2(4) have "q < length (lay (i + 1) (2 ^ e) xs)" by (simp only: l) simp
      with 2(2) [of e q] n False Suc show ?thesis unfolding l by (auto split: if_splits)
    qed
  qed
qed simp

lemma lay_marks:
  "next_power i e \<Longrightarrow> xs \<noteq> [] \<Longrightarrow> length xs \<le> length (lay i (2 ^ e) xs) \<and>
    i + length (lay i (2 ^ e) xs) \<le> 2 ^ (e + (length (lay i (2 ^ e) xs) - length xs)) \<and>
    2 ^ (e + (length (lay i (2 ^ e) xs) - length xs)) + 2 < 2 * (i + length (lay i (2 ^ e) xs))"
proof (induction i "(2 :: nat) ^ e" xs arbitrary: e rule: lay.induct)
  case (2 i x xs)
  show ?case
  proof (cases "i = 2 ^ e")
    case True
    with 2(3) next_power_step [of i e] have n: "next_power (i + 1) (Suc e)" by simp
    from True have l: "lay i (2 ^ e) (x # xs) = - 1 # lay (i + 1) (2 ^ Suc e) (x # xs)"
      by (subst lay.simps) (simp add: mult.commute)
    have "length (x # xs) \<le> length (lay (i + 1) (2 ^ Suc e) (x # xs))"
      using 2(1) [of "Suc e"] n True by (simp add: mult.commute)
    then obtain d where "length (lay (i + 1) (2 ^ Suc e) (x # xs)) = length (x # xs) + d"
      by (metis le_Suc_ex)
    with 2(1) [of "Suc e"] n True show ?thesis unfolding l by (simp add: mult.commute)
  next
    case False
    with 2(3) next_power_step [of i e] have n: "next_power (i + 1) e" by simp
    from False have l: "lay i (2 ^ e) (x # xs) = x # lay (i + 1) (2 ^ e) xs"
      by (subst lay.simps) simp
    show ?thesis
    proof (cases "xs = []")
      case True
      with l n 2(3) show ?thesis by (auto simp: next_power_def)
    next
      case xs: False
      have "length xs \<le> length (lay (i + 1) (2 ^ e) xs)" using 2(2) [of e] n False xs by simp
      then obtain d where "length (lay (i + 1) (2 ^ e) xs) = length xs + d" by (metis le_Suc_ex)
      with 2(2) [of e] n False xs show ?thesis unfolding l by simp
    qed
  qed
qed simp

text \<open>The loop that introduces the redundancy bits makes this frame.\<close>

lemma put_front: "i < length d \<Longrightarrow> take (i + 1) (d[i := v]) = take i d @ [v]"
  by (simp add: take_Suc_conv_app_nth)

lemma place_lay:
  "i + length (lay i k xs) \<le> length (df f) \<Longrightarrow> length pre = j \<Longrightarrow> length xs \<le> length (lay i k xs) \<and>
   place (int (j + length xs)) (pre @ xs @ rest) i j k f K =
     K (f\<lparr>df := take i (df f) @ lay i k xs @ drop (i + length (lay i k xs)) (df f),
          nrb := nrb f + (length (lay i k xs) - length xs),
          len := len f + length (lay i k xs)\<rparr>)"
proof (induction i k xs arbitrary: f pre j rule: lay.induct)
  case (1 i k)
  show ?case by (simp add: place.simps)
next
  case (2 i k x xs)
  show ?case
  proof (cases "i = k")
    case True
    then have l: "lay i k (x # xs) = - 1 # lay (i + 1) (k * 2) (x # xs)" by (subst lay.simps) simp
    let ?f = "f\<lparr>df := (df f)[i := - 1], nrb := nrb f + 1, len := len f + 1\<rparr>"
    from l 2(3) have i: "i < length (df f)" by simp
    from 2(1) [OF True, of ?f pre j] 2(3,4) l
    have IH: "length (x # xs) \<le> length (lay (i + 1) (k * 2) (x # xs))"
      "place (int (j + length (x # xs))) (pre @ (x # xs) @ rest) (i + 1) j (k * 2) ?f K =
        K (?f\<lparr>df := take (i + 1) (df ?f) @ lay (i + 1) (k * 2) (x # xs) @ drop (i + 1 + length (lay (i + 1) (k * 2) (x # xs))) (df ?f),
          nrb := nrb ?f + (length (lay (i + 1) (k * 2) (x # xs)) - length (x # xs)),
          len := len ?f + length (lay (i + 1) (k * 2) (x # xs))\<rparr>)" by simp_all
    then obtain d where d: "length (lay (i + 1) (k * 2) (x # xs)) = length (x # xs) + d" by (metis le_Suc_ex)
    have "place (int (j + length (x # xs))) (pre @ (x # xs) @ rest) i j k f K =
        place (int (j + length (x # xs))) (pre @ (x # xs) @ rest) (i + 1) j (k * 2) ?f K"
      using True i by (subst place.simps) simp
    then show ?thesis
      unfolding IH(2) l using i d put_front [of i "df f" "- 1"] by simp
  next
    case False
    then have l: "lay i k (x # xs) = x # lay (i + 1) k xs" by (subst lay.simps) simp
    let ?f = "f\<lparr>df := (df f)[i := x], len := len f + 1\<rparr>"
    from l 2(3) have i: "i < length (df f)" by simp
    from 2(2) [OF False, of ?f "pre @ [x]" "j + 1"] 2(3,4) l
    have IH: "length xs \<le> length (lay (i + 1) k xs)"
      "place (int (j + length (x # xs))) (pre @ (x # xs) @ rest) (i + 1) (j + 1) k ?f K =
        K (?f\<lparr>df := take (i + 1) (df ?f) @ lay (i + 1) k xs @ drop (i + 1 + length (lay (i + 1) k xs)) (df ?f),
          nrb := nrb ?f + (length (lay (i + 1) k xs) - length xs),
          len := len ?f + length (lay (i + 1) k xs)\<rparr>)" by simp_all
    then obtain d where d: "length (lay (i + 1) k xs) = length xs + d" by (metis le_Suc_ex)
    have "place (int (j + length (x # xs))) (pre @ (x # xs) @ rest) i j k f K =
        place (int (j + length (x # xs))) (pre @ (x # xs) @ rest) (i + 1) (j + 1) k ?f K"
      using False i 2(4) by (subst place.simps) (simp add: nth_append)
    then show ?thesis
      unfolding IH(2) l using i d put_front [of i "df f" x] by simp
  qed
qed

section \<open>The redundancy bits\<close>

lemma set_parity_eq:
  assumes "e < 4" "len f < 16" "len f < length (df f)" "2 ^ e \<le> len f" "length (rb f) = 8"
  shows "set_parity (2 ^ e) e f k =
    (let b = int (ones (len f) e (df f) mod 2) in k (f\<lparr>df := (df f)[2 ^ e := b], rb := (rb f)[e := b]\<rparr>))"
proof -
  have "exponent (2 ^ e) (- 1) = int e" by (simp add: exponent_power)
  moreover have "(if int n mod 2 = 0 then 0 else 1) = int (n mod 2)" for n :: nat by presburger
  ultimately show ?thesis
    using assms by (simp add: set_parity_def count_ones_eq Let_def nat_power_eq)
qed

lemma bit_power: "bit ((2 :: nat) ^ e) e' \<longleftrightarrow> e = e'"
  by (simp add: bit_simps) blast

lemma ones_other: "e \<noteq> e' \<Longrightarrow> 2 ^ e \<le> l \<Longrightarrow> l < length d \<Longrightarrow> ones l e' (d[2 ^ e := v]) = ones l e' d"
  using ones_update [of "2 ^ e" l d e' v] by (simp add: bit_power)

lemma ones_own:
  "2 ^ e \<le> l \<Longrightarrow> l < length d \<Longrightarrow> d ! (2 ^ e) \<noteq> 1 \<Longrightarrow>
    ones l e (d[2 ^ e := v]) = ones l e d + of_bool (v = 1)"
  using ones_update [of "2 ^ e" l d e v] by (simp add: bit_power)

text \<open>A power of two has one bit: a parity check depends on the data and on its own position.\<close>

lemma ones_agree:
  assumes "\<forall>p \<in> {1..l}. d ! p = d' ! p \<or> (is_power p \<and> p \<noteq> 2 ^ e)"
  shows "ones l e d = ones l e d'"
  unfolding ones_def
proof (rule sum.cong [OF refl])
  fix p assume "p \<in> {1..l}"
  with assms have "d ! p = d' ! p \<or> \<not> bit p e" by (auto simp: is_power_def bit_power)
  then show "hit e d p = hit e d' p" by (auto simp: hit_def)
qed

lemma power_below_16: "(2 :: nat) ^ e < 16 \<Longrightarrow> e < 4"
  using power_strict_increasing_iff [of "2 :: nat" e 4] by simp

text \<open>The first scan: the positions below i are done.\<close>

definition scanned :: "nat \<Rightarrow> int list \<Rightarrow> nat \<Rightarrow> nat \<Rightarrow> frame \<Rightarrow> bool" where
  "scanned l d n i f =
     (len f = l \<and> nrb f = n \<and> length (df f) = length d \<and> length (rb f) = 8 \<and>
      (\<forall>p \<in> {1..l}. df f ! p =
        (if is_power p \<and> p < i then int (ones l (nat (exponent p (- 1))) d mod 2) else d ! p)))"

lemma scanned_parity:
  assumes s: "scanned l d n (2 ^ e) f" and l: "2 ^ e \<le> l" "l < length d"
  defines "b \<equiv> int (ones l e d mod 2)"
  shows "ones l e (df f) = ones l e d"
    and "scanned l d n (2 ^ e + 1) (f\<lparr>df := (df f)[2 ^ e := b], rb := (rb f)[e := b]\<rparr>)"
proof -
  show "ones l e (df f) = ones l e d"
    by (rule ones_agree) (use s in \<open>auto simp: scanned_def\<close>)
  show "scanned l d n (2 ^ e + 1) (f\<lparr>df := (df f)[2 ^ e := b], rb := (rb f)[e := b]\<rparr>)"
    using s l by (auto simp: scanned_def b_def nth_list_update exponent_power is_power_def less_Suc_eq)
qed

lemma redundancy_from:
  assumes d: "\<forall>p \<in> {1..l}. is_power p \<longleftrightarrow> d ! p = - 1" and l: "l < 16" "l < length d"
  shows "Suc l - i = m \<Longrightarrow> 0 < i \<Longrightarrow> i \<le> Suc l \<Longrightarrow> scanned l d n i f \<Longrightarrow> next_power i e \<Longrightarrow>
    \<exists>f'. outputs (for_each [i..<Suc l] redundancy_turn (f, e) (\<lambda>(f, i5). k f)) (k f') \<and>
      scanned l d n (Suc l) f'"
proof (induction m arbitrary: i e f)
  case 0
  then have "i = Suc l" by simp
  with 0 show ?case by (intro exI [of _ f]) simp
next
  case (Suc m)
  then have i: "i \<le> l" "[i..<Suc l] = i # [Suc i..<Suc l]" "Suc l - Suc i = m" by (auto simp: upt_rec)
  have v: "df f ! i = d ! i" using Suc.prems i by (simp add: scanned_def)
  have len: "len f = l" "length (df f) = length d" "length (rb f) = 8"
    using Suc.prems by (simp_all add: scanned_def)
  note next' = next_power_step [OF Suc.prems(5)]
  show ?case
  proof (cases "i = 2 ^ e")
    case True
    with i l(1) have e: "e < 4" by (intro power_below_16) simp
    note par = scanned_parity [of l d n e f] 
    define f1 where "f1 = f\<lparr>df := (df f)[2 ^ e := int (ones l e d mod 2)], rb := (rb f)[e := int (ones l e d mod 2)]\<rparr>"
    have f1: "scanned l d n (Suc i) f1" and ones: "ones l e (df f) = ones l e d"
      using par True Suc.prems(4) i l by (simp_all add: f1_def)
    have "next_power (Suc i) (e + 1)" using next' True by simp
    with Suc.IH [of "Suc i" f1 "e + 1"] f1 i
    obtain f' where f': "outputs (for_each [Suc i..<Suc l] redundancy_turn (f1, e + 1) (\<lambda>(f, i5). k f)) (k f')"
      "scanned l d n (Suc l) f'" by auto
    have "outputs (redundancy_turn i (f, e) K) (K (f1, e + 1))" for K
    proof -
      have "set_parity i e f K' = K' f1" for K'
        using set_parity_eq [of e f K'] e i l len True ones by (simp add: f1_def Let_def)
      moreover have "d ! i = - 1" using d i True Suc.prems(2) by (auto simp: is_power_def)
      ultimately show ?thesis
        using i l len v e
        by (auto simp: redundancy_turn_def f1_def intro!: outputs_Out outputs_for_each)
    qed
    with f' show ?thesis unfolding i(2) for_each.simps by (blast intro: outputs_trans)
  next
    case False
    then have "\<not> is_power i" using next_power_is [OF Suc.prems(5)] by simp
    then have s: "scanned l d n (Suc i) f" and di: "d ! i \<noteq> - 1"
      using Suc.prems i d by (auto simp: scanned_def less_Suc_eq)
    moreover have "next_power (Suc i) e" using next' False by simp
    ultimately
    obtain f' where "outputs (for_each [Suc i..<Suc l] redundancy_turn (f, e) (\<lambda>(f, i5). k f)) (k f')"
      "scanned l d n (Suc l) f'" using Suc.IH [of "Suc i" f e] i by auto
    moreover have "redundancy_turn i (f, e) K = K (f, e)" for K
      using v i l len di by (simp add: redundancy_turn_def)
    ultimately show ?thesis unfolding i(2) by auto
  qed
qed

lemma redundancy_eq:
  assumes "\<forall>p \<in> {1..l}. is_power p \<longleftrightarrow> d ! p = - 1" "l < 16" "l < length d"
    and "len f = l" "df f = d" "length (rb f) = 8"
  shows "\<exists>f'. outputs (redundancy f k) (k f') \<and> scanned l d (nrb f) (Suc l) f'"
  using redundancy_from [OF assms(1-3), of 1 l "nrb f" f 0 k] assms next_power_first
  by (simp add: redundancy_def scanned_def)

text \<open>The second scan, of the changed frame d: the checks below i are in rb.\<close>

definition rescanned :: "nat \<Rightarrow> int list \<Rightarrow> nat \<Rightarrow> nat \<Rightarrow> frame \<Rightarrow> bool" where
  "rescanned l d n i f =
     (len f = l \<and> nrb f = n \<and> length (df f) = length d \<and> length (rb f) = 8 \<and>
      (\<forall>p \<in> {1..l}. df f ! p = d ! p \<or> (is_power p \<and> p < i)) \<and>
      (\<forall>e. 2 ^ e < i \<longrightarrow> rb f ! e = int (ones l e d mod 2)))"

lemma rescanned_parity:
  assumes s: "rescanned l d n (2 ^ e) f" and l: "2 ^ e \<le> l" "l < length d" "e < 4"
  defines "b \<equiv> int (ones l e d mod 2)"
  shows "ones l e (df f) = ones l e d"
    and "rescanned l d n (Suc (2 ^ e)) (f\<lparr>df := (df f)[2 ^ e := b], rb := (rb f)[e := b]\<rparr>)"
proof -
  show "ones l e (df f) = ones l e d"
    by (rule ones_agree) (use s in \<open>auto simp: rescanned_def\<close>)
  show "rescanned l d n (Suc (2 ^ e)) (f\<lparr>df := (df f)[2 ^ e := b], rb := (rb f)[e := b]\<rparr>)"
    using s l by (auto simp: rescanned_def b_def nth_list_update is_power_def less_Suc_eq)
qed

lemma recalculate_from:
  assumes l: "l < 16" "l < length d"
  shows "Suc l - i = m \<Longrightarrow> 0 < i \<Longrightarrow> i \<le> Suc l \<Longrightarrow> rescanned l d n i f \<Longrightarrow> next_power i e \<Longrightarrow>
    \<exists>f'. (\<forall>K. for_each [i..<Suc l] recalculate_turn (f, e, 2 ^ e) (\<lambda>s. K (fst s)) = K f') \<and>
      rescanned l d n (Suc l) f'"
proof (induction m arbitrary: i e f)
  case 0
  then have "i = Suc l" by simp
  with 0 show ?case by (intro exI [of _ f]) simp
next
  case (Suc m)
  then have i: "i \<le> l" "[i..<Suc l] = i # [Suc i..<Suc l]" "Suc l - Suc i = m" by (auto simp: upt_rec)
  note next' = next_power_step [OF Suc.prems(5)]
  show ?case
  proof (cases "i = 2 ^ e")
    case True
    with i l(1) have e: "e < 4" by (intro power_below_16) simp
    define f1 where "f1 = f\<lparr>df := (df f)[2 ^ e := int (ones l e d mod 2)], rb := (rb f)[e := int (ones l e d mod 2)]\<rparr>"
    have f1: "rescanned l d n (Suc i) f1" and ones: "ones l e (df f) = ones l e d"
      using rescanned_parity [of l d n e f] True Suc.prems(4) i l e by (simp_all add: f1_def)
    have "set_parity i e f K' = K' f1" for K'
      using set_parity_eq [of e f K'] Suc.prems(4) e i l True ones
      by (simp add: f1_def Let_def rescanned_def)
    then have "recalculate_turn i (f, e, 2 ^ e) K' = K' (f1, e + 1, 2 ^ (e + 1))" for K'
      using True by (simp add: recalculate_turn_def mult.commute)
    moreover have "next_power (Suc i) (e + 1)" using next' True by simp
    ultimately show ?thesis
      using Suc.IH [of "Suc i" f1 "e + 1"] f1 i unfolding i(2) for_each.simps by (simp del: upt_Suc)
  next
    case False
    then have "\<not> is_power i" using next_power_is [OF Suc.prems(5)] by simp
    then have "rescanned l d n (Suc i) f"
      using Suc.prems(4) by (auto simp: rescanned_def less_Suc_eq is_power_def)
    moreover have "next_power (Suc i) e" using next' False by simp
    moreover have "recalculate_turn i (f, e, 2 ^ e) K' = K' (f, e, 2 ^ e)" for K'
      using False by (simp add: recalculate_turn_def)
    ultimately show ?thesis
      using Suc.IH [of "Suc i" f e] i unfolding i(2) for_each.simps by (simp del: upt_Suc)
  qed
qed

lemma recalculate_eq:
  assumes "len f < 16" "len f < length (df f)" "length (rb f) = 8"
  shows "\<exists>f'. (\<forall>K. recalculate f K = K f') \<and> rescanned (len f) (df f) (nrb f) (Suc (len f)) f'"
  using recalculate_from [of "len f" "df f" 1 "len f" "nrb f" f 0] assms next_power_first
  by (simp add: recalculate_def rescanned_def)

text \<open>The loop that adds up the weights of the redundancy bits that are 1.\<close>

definition weight :: "int list \<Rightarrow> nat \<Rightarrow> nat" where
  "weight r e = 2 ^ e * of_bool (r ! e = 1)"

lemma weigh_from:
  "n - i = m \<Longrightarrow> i \<le> n \<Longrightarrow> n \<le> length r \<Longrightarrow>
    for_each [i..<n] (\<lambda>i (ep, j) k. arr_get r (int i) (\<lambda>v. k (if v = 1 then ep + j else ep, j * 2)))
      (ep, 2 ^ i) (\<lambda>(ep, j). K ep) = K (ep + int (sum (weight r) {i..<n}))"
proof (induction m arbitrary: i ep)
  case (Suc m)
  then have i: "i < n" "[i..<n] = i # [Suc i..<n]" by (auto simp: upt_rec)
  have "sum (weight r) {i..<n} = weight r i + sum (weight r) {Suc i..<n}"
    using i by (simp add: sum.atLeast_Suc_lessThan)
  with Suc.IH [of "Suc i"] Suc.prems i(1) show ?case
    unfolding i(2) by (simp add: weight_def [of r i] mult.commute add.assoc del: of_nat_sum)
qed simp

lemma error_position_eq:
  assumes "nrb f \<le> length (rb f)"
  shows "outputs (error_position f K) (K (int (sum (weight (rb f)) {0..<nrb f})))"
  unfolding error_position_def
  by (rule outputs_trans [OF outputs_for_each])
    (use assms weigh_from [of "nrb f" 0 "nrb f" "rb f" 0 K] in \<open>auto simp del: of_nat_sum\<close>)

lemma sum_of_bits: "x < 2 ^ n \<Longrightarrow> (\<Sum>e = 0..<n. 2 ^ e * of_bool (bit x e)) = (x :: nat)"
  using take_bit_sum [of n x] by (simp add: push_bit_eq_mult mult.commute take_bit_nat_eq_self)

section \<open>The frame that is sent\<close>

text \<open>
  The bit at position p of the frame for the data xs: at a power of two the parity of the data
  bits its check covers, and elsewhere the data, in order.
\<close>

definition code_bit :: "int list \<Rightarrow> nat \<Rightarrow> int" where
  "code_bit xs p =
     (let d = 0 # lay 1 1 xs in
      if d ! p = - 1 then int (ones (length d - 1) (nat (exponent p (- 1))) d mod 2) else d ! p)"

lemma many_marks: "5 \<le> n \<Longrightarrow> 22 + 2 * n \<le> (2 :: nat) ^ n"
  by (induction n rule: nat_induct_at_least) simp_all

text \<open>Eleven data bits fill a frame of fifteen.\<close>

lemma layout:
  assumes "xs \<noteq> []" "length xs \<le> 11" "set xs \<subseteq> {0, 1}"
  defines "l \<equiv> length (lay 1 1 xs)" and "n \<equiv> length (lay 1 1 xs) - length xs"
  shows "l = length xs + n" "l < 16" "n \<le> 4" "l < 2 ^ n" "\<forall>e < n. 2 ^ e \<le> l"
    and "\<forall>p \<in> {1..l}. is_power p \<longleftrightarrow> (0 # lay 1 1 xs) ! p = - 1"
    and "\<forall>p \<in> {1..l}. \<not> is_power p \<longrightarrow> (0 # lay 1 1 xs) ! p \<in> {0, 1}"
proof -
  from lay_marks [OF next_power_first assms(1)]
  have m: "length xs \<le> l" "1 + l \<le> 2 ^ n" "2 ^ n < 2 * l" by (simp_all add: l_def n_def)
  then show l: "l = length xs + n" and "l < 2 ^ n" by (simp_all add: l_def n_def)
  have "\<not> 5 \<le> n" using many_marks [of n] m(3) l assms(2) by auto
  then show "n \<le> 4" by simp
  with l assms(2) show "l < 16" by simp
  show "\<forall>e < n. 2 ^ e \<le> l"
  proof (intro allI impI)
    fix e assume "e < n"
    then have "(2 :: nat) ^ Suc e \<le> 2 ^ n" by (intro power_increasing) auto
    with m(3) show "2 ^ e \<le> l" by simp
  qed
  have at: "if is_power p then (0 # lay 1 1 xs) ! p = - 1 else (0 # lay 1 1 xs) ! p \<in> set xs"
    if "p \<in> {1..l}" for p
    using lay_nth [OF next_power_first, of "p - 1" xs] that by (cases p) (auto simp: l_def)
  then have data: "(0 # lay 1 1 xs) ! p \<in> {0, 1}" if "p \<in> {1..l}" "\<not> is_power p" for p
    using that assms(3) by (meson subsetD)
  show "\<forall>p \<in> {1..l}. is_power p \<longleftrightarrow> (0 # lay 1 1 xs) ! p = - 1"
  proof
    fix p assume p: "p \<in> {1..l}"
    from at [OF p] data [OF p] show "is_power p \<longleftrightarrow> (0 # lay 1 1 xs) ! p = - 1"
      by (cases "is_power p") auto
  qed
  show "\<forall>p \<in> {1..l}. \<not> is_power p \<longrightarrow> (0 # lay 1 1 xs) ! p \<in> {0, 1}"
    using data by blast
qed

lemma encoded_checks:
  assumes s: "scanned l d n (Suc l) f" and p: "\<forall>p \<in> {1..l}. is_power p \<longleftrightarrow> d ! p = - 1"
    and l: "l < length d" "2 ^ e \<le> l"
  shows "even (ones l e (df f))"
proof -
  let ?d = "(df f)[2 ^ e := - 1]"
  have b: "df f ! (2 ^ e) = int (ones l e d mod 2)"
    using s l by (auto simp: scanned_def is_power_def exponent_power)
  have "ones l e ?d = ones l e d"
    by (rule ones_agree) (use s p l in \<open>auto simp: scanned_def nth_list_update is_power_def\<close>)
  moreover have "ones l e (?d[2 ^ e := df f ! (2 ^ e)]) = ones l e ?d + of_bool (df f ! (2 ^ e) = 1)"
    using s l by (intro ones_own) (auto simp: scanned_def)
  moreover have "?d[2 ^ e := df f ! (2 ^ e)] = df f" by simp
  ultimately show ?thesis by (simp add: b) presburger
qed

lemma located:
  assumes s: "scanned l d n (Suc l) f" and p: "\<forall>p \<in> {1..l}. is_power p \<longleftrightarrow> d ! p = - 1"
    and l: "l < length d" "l < 2 ^ n" "\<forall>e < n. 2 ^ e \<le> l" and eb: "1 \<le> eb" "eb \<le> l"
    and r: "rescanned l ((df f)[eb := 0]) n (Suc l) f'"
  shows "sum (weight (rb f')) {0..<n} = (if df f ! eb = 1 then eb else 0)"
proof -
  have "weight (rb f') e = 2 ^ e * of_bool (bit (if df f ! eb = 1 then eb else 0) e)" if "e < n" for e
  proof -
    from that l(3) have le: "2 ^ e \<le> l" by simp
    have "ones l e ((df f)[eb := 0]) + of_bool (bit eb e \<and> df f ! eb = 1) = ones l e (df f)"
      using ones_update [of eb l "df f" e 0] eb s l by (simp add: scanned_def)
    with encoded_checks [OF s p l(1) le]
    have "ones l e ((df f)[eb := 0]) mod 2 = of_bool (bit eb e \<and> df f ! eb = 1)"
      by (cases "bit eb e \<and> df f ! eb = 1") (simp_all, presburger+)
    moreover have "rb f' ! e = int (ones l e ((df f)[eb := 0]) mod 2)"
      using r le by (simp add: rescanned_def)
    ultimately show ?thesis by (simp add: weight_def)
  qed
  then have "sum (weight (rb f')) {0..<n} =
      (\<Sum>e = 0..<n. 2 ^ e * of_bool (bit (if df f ! eb = 1 then eb else 0) e))"
    by (intro sum.cong) auto
  also have "\<dots> = (if df f ! eb = 1 then eb else 0)"
    by (rule sum_of_bits) (use l(2) eb in auto)
  finally show ?thesis .
qed

lemma code_bit_scanned:
  assumes s: "scanned l d n (Suc l) f" and l: "l = length (lay 1 1 xs)"
    and d: "\<forall>p \<in> {1..l}. d ! p = (0 # lay 1 1 xs) ! p"
    and pw: "\<forall>p \<in> {1..l}. is_power p \<longleftrightarrow> (0 # lay 1 1 xs) ! p = - 1" and p: "1 \<le> p" "p \<le> l"
  shows "df f ! p = code_bit xs p"
proof -
  have "ones l e d = ones l e (0 # lay 1 1 xs)" for e by (rule ones_agree) (use d in simp)
  with assms show ?thesis by (simp add: scanned_def code_bit_def)
qed

section \<open>Reading the frame\<close>

lemma exec_read_down:
  "length xs \<le> length db \<Longrightarrow> exec (for_each (rev [0..<length xs]) read_int_at db k) (map typed xs @ as) =
    (case exec (k (rev xs @ drop (length xs) db)) as of
      (t, f) \<Rightarrow> (map (\<lambda>x. Did Scanf_int (typed x)) xs @ t, f))"
proof (induction xs arbitrary: db)
  case (Cons x xs)
  then have i: "length xs < length db" "length xs \<le> length (db[length xs := x])" by auto
  have "rev xs @ drop (length xs) (db[length xs := x]) = rev (x # xs) @ drop (length (x # xs)) db"
    using i(1) by (simp add: drop_update_swap Cons_nth_drop_Suc [symmetric])
  with Cons.IH [OF i(2)] i(1) show ?case
    by (simp add: exec_read_int_at split: prod.splits)
qed simp

lemma copy_from:
  assumes "\<forall>j < n. 0 \<le> g j \<and> g j < int (length src)"
  shows "n - i = m \<Longrightarrow> i \<le> n \<Longrightarrow> n \<le> length t \<Longrightarrow>
    for_each [i..<n] (\<lambda>j t k. arr_get src (g j) (\<lambda>v. arr_set t (int j) v k)) t k =
    k (take i t @ map (\<lambda>j. src ! nat (g j)) [i..<n] @ drop n t)"
proof (induction m arbitrary: i t)
  case 0
  then show ?case by simp
next
  case (Suc m)
  then have i: "i < n" "[i..<n] = i # [Suc i..<n]" by (auto simp: upt_rec)
  with Suc.IH [of "Suc i" "t[i := src ! nat (g i)]"] Suc.prems assms(1) show ?case
    unfolding i(2) by (simp add: take_Suc_conv_app_nth)
qed

lemma copy_all:
  assumes "\<forall>j < n. 0 \<le> g j \<and> g j < int (length src)" "n \<le> length t"
    and "map (\<lambda>j. src ! nat (g j)) [0..<n] = ys"
  shows "for_each [0..<n] (\<lambda>j t k. arr_get src (g j) (\<lambda>v. arr_set t (int j) v k)) t k = k (ys @ drop n t)"
  using copy_from [OF assms(1), of 0 n t k] assms(2,3) by simp

lemma reverse_frame_eq:
  assumes "length xs \<le> length db" "length xs \<le> length temp"
  shows "reverse_frame (int (length xs)) (rev xs @ drop (length xs) db) temp k = k (xs @ drop (length xs) db)"
proof -
  let ?db = "rev xs @ drop (length xs) db"
  have "map (\<lambda>j. ?db ! nat (int (length xs) - 1 - int j)) [0..<length xs] = xs"
    by (rule nth_equalityI) (auto simp: nth_append rev_nth nat_diff_distrib)
  then have t: "for_each [0..<length xs] (\<lambda>j t k. arr_get ?db (int (length xs) - 1 - int j)
      (\<lambda>v. arr_set t (int j) v k)) temp k' = k' (xs @ drop (length xs) temp)" for k'
    using assms by (intro copy_all) auto
  have "map (\<lambda>j. (xs @ drop (length xs) temp) ! nat (int j)) [0..<length xs] = xs"
    by (rule nth_equalityI) (auto simp: nth_append)
  then have "for_each [0..<length xs] (\<lambda>j t k. arr_get (xs @ drop (length xs) temp) (int j)
      (\<lambda>v. arr_set t (int j) v k)) ?db k = k (xs @ drop (length xs) ?db)"
    using assms by (intro copy_all) auto
  then show ?thesis by (simp add: reverse_frame_def t)
qed

lemma print_new_frame_outputs: "l < length d \<Longrightarrow> outputs (print_new_frame l d k) k"
  unfolding print_new_frame_def by (rule outputs_for_each) auto

lemma print_frame_outputs: "m \<le> int (length d) \<Longrightarrow> outputs (print_frame m d k) k"
  unfolding print_frame_def by (rule outputs_for_each) auto

lemma change_bit_outputs:
  "1 \<le> p \<Longrightarrow> p < length (df f) \<Longrightarrow> outputs (change_bit (int p) f k) (k (f\<lparr>df := (df f)[p := 0]\<rparr>))"
  by (simp add: change_bit_def outputs_Out)

section \<open>The program finds the bit it has cleared\<close>

lemma in_array:
  assumes "length L < 16" "length a = 30" "q \<in> {1..length L}"
  shows "(take 1 a @ L @ drop (1 + length L) a) ! q = (0 # L) ! q"
  using assms by (cases q) (auto simp: nth_append)

text \<open>From the frame on: what is printed last is the position of the cleared 1.\<close>

lemma from_frame:
  assumes xs: "xs \<noteq> []" "length xs \<le> 11" "set xs \<subseteq> {0, 1}"
    and arrays: "length db = 30" "length temp = 30" "length df0 = 30" "length rb0 = 8"
    and p: "1 \<le> p" "p \<le> length (lay 1 1 xs)"
  defines "d \<equiv> take 1 df0 @ lay 1 1 xs @ drop (1 + length (lay 1 1 xs)) df0"
    and "n \<equiv> length (lay 1 1 xs) - length xs" and "l \<equiv> length (lay 1 1 xs)"
  shows "\<exists>f1 f2. scanned l d n (Suc l) f1 \<and> rescanned l ((df f1)[p := 0]) n (Suc l) f2 \<and>
    outputs (redundancy \<lparr>df = d, rb = rb0, nrb = n, len = l\<rparr> K) (K f1) \<and>
    (\<forall>K'. recalculate (f1\<lparr>df := (df f1)[p := 0]\<rparr>) K' = K' f2) \<and> df f1 ! p = code_bit xs p"
proof -
  note L = layout [OF xs, folded n_def l_def]
  have len: "length d = 30" using arrays L(2) by (simp add: d_def l_def)
  have d: "d ! q = (0 # lay 1 1 xs) ! q" if "q \<in> {1..l}" for q
    using that arrays L(2) in_array [of "lay 1 1 xs" df0] by (simp add: d_def l_def)
  have pw: "\<forall>q \<in> {1..l}. is_power q \<longleftrightarrow> d ! q = - 1" using L(6) d by simp
  obtain f1 where f1: "scanned l d n (Suc l) f1" "outputs (redundancy \<lparr>df = d, rb = rb0, nrb = n, len = l\<rparr> K) (K f1)"
    using redundancy_eq [OF pw, of "\<lparr>df = d, rb = rb0, nrb = n, len = l\<rparr>" K] L(2) len arrays by auto
  then have "len f1 = l" "length (df f1) = 30" "length (rb f1) = 8" "nrb f1 = n"
    using len by (simp_all add: scanned_def)
  then obtain f2 where f2: "\<forall>K'. recalculate (f1\<lparr>df := (df f1)[p := 0]\<rparr>) K' = K' f2"
    "rescanned l ((df f1)[p := 0]) n (Suc l) f2"
    using recalculate_eq [of "f1\<lparr>df := (df f1)[p := 0]\<rparr>"] L(2) by auto
  have "df f1 ! p = code_bit xs p"
    by (rule code_bit_scanned [OF f1(1)]) (use d L(6) p in \<open>simp_all add: l_def\<close>)
  with f1 f2 show ?thesis by blast
qed

definition report :: "int \<Rightarrow> prog" where
  "report ep = Out (newline # '' Error is at : '' @ dec ep) (Exit 0)"

text \<open>The two halves of the program, before and after the question for the error.\<close>

lemma locate_outputs:
  assumes f1: "scanned l d n (Suc l) f1" "l < length d" "n \<le> 8" "1 \<le> p" "p \<le> l"
    and f2: "rescanned l ((df f1)[p := 0]) n (Suc l) f2"
    and K: "\<And>K'. recalculate (f1\<lparr>df := (df f1)[p := 0]\<rparr>) K' = K' f2"
  shows "outputs (locate (int p) f1) (report (int (sum (weight (rb f2)) {0..<n})))"
proof -
  have len: "len f1 = l" "length (df f1) = length d" "nrb f2 = n" "length (rb f2) = 8"
    using f1 f2 by (simp_all add: scanned_def rescanned_def)
  have start: "outputs (locate (int p) f1) (Out (newline # '' New Frame is'')
      (print_new_frame l ((df f1)[p := 0]) (Out (newline # '' Redundancy bits:'') (error_position f2 report))))"
    unfolding locate_def report_def [abs_def]
    by (rule outputs_trans [OF change_bit_outputs]) (use f1 len K in simp_all)
  have "outputs (error_position f2 report) (report (int (sum (weight (rb f2)) {0..<n})))"
    using error_position_eq [of f2 report] len f1 by simp
  from outputs_trans [OF print_new_frame_outputs outputs_Out [OF this], of l "(df f1)[p := 0]"]
  show ?thesis
    using len f1 by (intro outputs_trans [OF start outputs_Out]) simp
qed

text \<open>The answers of a user who enters the frame xs, some number and the position p.\<close>

definition entered :: "int list \<Rightarrow> int \<Rightarrow> nat \<Rightarrow> ans list" where
  "entered xs r p = typed (int (length xs)) # map typed xs @ [typed r, typed (int p)]"

lemma hamming_reads:
  assumes "length xs \<le> length db" "length xs \<le> length temp"
    and "outputs (place (int (length xs)) (xs @ drop (length xs) db) 1 0 1
        \<lparr>df = df0, rb = rb0, nrb = 0, len = 0\<rparr> (\<lambda>f.
        Out [newline] (Out (newline # '' Frame after introducing redundancy bits :'' @ newline # '' '') (
        print_new_frame (len f) (df f) (redundancy f (ask_error eb)))))) (ask_error eb f1)"
  shows "final_of (hamming_main m r eb db temp df0 rb0) (entered xs r' p) = final_of (locate (int p) f1) []"
    and "printed (trace (locate (int p) f1) []) \<noteq> [] \<Longrightarrow>
      last (printed (trace (hamming_main m r eb db temp df0 rb0) (entered xs r' p))) =
      last (printed (trace (locate (int p) f1) []))"
proof -
  let ?db = "rev xs @ drop (length xs) db"
  define q where "q = Out (newline # '' Frame :'' @ newline # '' '') (
     print_frame (int (length xs)) ?db (reverse_frame (int (length xs)) ?db temp (\<lambda>db.
     place (int (length xs)) db 1 0 1 \<lparr>df = df0, rb = rb0, nrb = 0, len = 0\<rparr> (\<lambda>f.
     Out [newline] (Out (newline # '' Frame after introducing redundancy bits :'' @ newline # '' '') (
     print_new_frame (len f) (df f) (redundancy f (ask_error eb))))))))"
  have "outputs q (ask_error eb f1)"
    unfolding q_def reverse_frame_eq [OF assms(1,2)]
    by (intro outputs_Out outputs_trans [OF print_frame_outputs assms(3)]) (use assms(1) in simp)
  note run = outputs_run [OF this, of "[typed (int p)]"]
  have main: "exec (hamming_main m r eb db temp df0 rb0) (entered xs r' p) =
    (case exec q [typed (int p)] of (t, f) \<Rightarrow>
      (Printed (newline # '' Enter frame size:'') # Did Scanf_int (typed (int (length xs))) #
       Printed (newline # '' Enter Frame :'') # map (\<lambda>x. Did Scanf_int (typed x)) xs @
       Printed (newline # '' Enter redundancy bits: '') # Did Scanf_int (typed r') # t, f))"
    using exec_read_down [OF assms(1)]
    by (simp add: hamming_main_def entered_def read_frame_def q_def split: prod.splits)
  show "final_of (hamming_main m r eb db temp df0 rb0) (entered xs r' p) = final_of (locate (int p) f1) []"
    using run(1) main by (simp add: ask_error_def final_of_def split: prod.splits)
  show "last (printed (trace (hamming_main m r eb db temp df0 rb0) (entered xs r' p))) =
      last (printed (trace (locate (int p) f1) []))"
    if "printed (trace (locate (int p) f1) []) \<noteq> []"
  proof -
    have "printed (trace (ask_error eb f1) [typed (int p)]) =
        [[newline], newline # '' Enter bit number where error is occurred: ''] @
        printed (trace (locate (int p) f1) [])" by (simp add: ask_error_def)
    moreover have "printed (trace (hamming_main m r eb db temp df0 rb0) (entered xs r' p)) =
      [newline # '' Enter frame size:'', newline # '' Enter Frame :'', newline # '' Enter redundancy bits: ''] @
        printed (trace q [typed (int p)])"
      using main by (simp add: trace_def split: prod.splits)
    moreover have "printed (trace q [typed (int p)]) \<noteq> []" by (simp add: q_def)
    ultimately show ?thesis using run(2) that by simp
  qed
qed

text \<open>
  C14. For every frame of one to eleven data bits and every position p of the
  frame that is sent, the program, told to change the bit at p, reports an error at p when that
  bit is a 1. When it is a 0 it reports position 0, that is no error: the program means to set
  the bit to 1, but its test assigns 1 to the bit, is true, and clears it.
\<close>

theorem hamming_locates_one:
  assumes xs: "xs \<noteq> []" "length xs \<le> 11" "set xs \<subseteq> {0, 1}"
    and arrays: "length db = 30" "length temp = 30" "length df0 = 30" "length rb0 = 8"
    and p: "1 \<le> p" "p \<le> length (lay 1 1 xs)"
  shows "final_of (hamming_main m r eb db temp df0 rb0) (entered xs r' p) = Exited 0 \<and>
    last (printed (trace (hamming_main m r eb db temp df0 rb0) (entered xs r' p))) =
      newline # '' Error is at : '' @ dec (if code_bit xs p = 1 then int p else 0)"
proof -
  define L n d where "L = length (lay 1 1 xs)" and "n = L - length xs"
    and "d = take 1 df0 @ lay 1 1 xs @ drop (1 + L) df0"
  note lay = layout [OF xs, folded L_def n_def]
  from from_frame [OF xs arrays p, of "ask_error eb", folded L_def, folded n_def d_def] obtain f1 f2 where
    f1: "scanned L d n (Suc L) f1" "df f1 ! p = code_bit xs p"
      "outputs (redundancy \<lparr>df = d, rb = rb0, nrb = n, len = L\<rparr> (ask_error eb)) (ask_error eb f1)"
    and f2: "rescanned L ((df f1)[p := 0]) n (Suc L) f2"
      "\<And>K'. recalculate (f1\<lparr>df := (df f1)[p := 0]\<rparr>) K' = K' f2"
    by blast
  have len: "L < length d" "length xs \<le> L" using lay(1,2) arrays by (simp_all add: d_def L_def)
  have pw: "\<forall>q \<in> {1..L}. is_power q \<longleftrightarrow> d ! q = - 1"
    using lay(2,6) in_array [of "lay 1 1 xs" df0] arrays(3) by (simp add: L_def d_def)
  have at: "sum (weight (rb f2)) {0..<n} = (if code_bit xs p = 1 then p else 0)"
    using located [OF f1(1) pw len(1) lay(4,5) p(1) _ f2(1)] p f1(2) by (simp add: L_def)
  have "outputs (locate (int p) f1) (report (int (sum (weight (rb f2)) {0..<n})))"
    using locate_outputs [OF f1(1) len(1) _ p(1) _ f2] p lay(3) by (simp add: L_def)
  note report = outputs_run [OF this, unfolded at, of "[]"]
  have "1 + length (lay 1 1 xs) \<le> length df0" using lay(2) arrays by (simp add: L_def)
  from place_lay [of 1 1 xs "\<lparr>df = df0, rb = rb0, nrb = 0, len = 0\<rparr>" "[]" 0 "drop (length xs) db"] this
  have place: "place (int (length xs)) (xs @ drop (length xs) db) 1 0 1 \<lparr>df = df0, rb = rb0, nrb = 0, len = 0\<rparr> K =
      K \<lparr>df = d, rb = rb0, nrb = n, len = L\<rparr>" for K
    by (simp add: d_def n_def L_def)
  have "outputs (Out [newline] (Out (newline # '' Frame after introducing redundancy bits :'' @ newline # '' '')
      (print_new_frame L d (redundancy \<lparr>df = d, rb = rb0, nrb = n, len = L\<rparr> (ask_error eb))))) (ask_error eb f1)"
    by (intro outputs_Out outputs_trans [OF print_new_frame_outputs [OF len(1)] f1(3)])
  then have "outputs (place (int (length xs)) (xs @ drop (length xs) db) 1 0 1
        \<lparr>df = df0, rb = rb0, nrb = 0, len = 0\<rparr> (\<lambda>f.
        Out [newline] (Out (newline # '' Frame after introducing redundancy bits :'' @ newline # '' '') (
        print_new_frame (len f) (df f) (redundancy f (ask_error eb)))))) (ask_error eb f1)"
    unfolding place by simp
  note reads = hamming_reads [OF _ _ this]
  have "final_of (locate (int p) f1) [] = Exited 0"
    and "printed (trace (locate (int p) f1) []) \<noteq> []"
    and "last (printed (trace (locate (int p) f1) [])) =
      newline # '' Error is at : '' @ dec (if code_bit xs p = 1 then int p else 0)"
    using report by (simp_all add: report_def)
  with reads arrays xs(2) show ?thesis by simp
qed

theorem hamming_locates_one_witness:
  "last (printed (trace (hamming_main 0 0 0 (replicate 30 0) (replicate 30 0) (replicate 30 0) (replicate 8 0))
      (entered [1, 0, 1, 1] 3 7))) = newline # '' Error is at : 7''"
proof -
  have "length (lay 1 1 [1, 0, 1, 1]) = 7" "code_bit [1, 0, 1, 1] 7 = 1"
    by code_simp+
  then show ?thesis
    using hamming_locates_one [of "[1, 0, 1, 1]" "replicate 30 0" "replicate 30 0" "replicate 30 0" "replicate 8 0" 7 0 0 0 3]
  by (simp add: dec_def dec_nat.simps [of 7])
qed

end
