(* ===== verification/CN_Checksum.thy ===== *)
theory CN_Checksum imports CN_Monitor begin

text \<open>
  tcp_injection/TCP-Packet-Injection.c and rawsockets/basic/{client,server}.c: packets built by
  hand. Headers are byte strings laid out as the little-endian LP64 compiler lays the structs
  out; malloc'ed memory that is not written keeps an arbitrary content, a parameter of the
  definitions. The reference is the ones' complement sum of 16-bit words, that is the sum modulo
  65535 with zero only for zero.
\<close>

section \<open>Bytes in memory\<close>

definition byte :: "nat \<Rightarrow> char" where
  "byte n = char_of (n mod 256)"

definition val8 :: "char \<Rightarrow> nat" where
  "val8 c = of_char c"

text \<open>A 16-bit value in host order and in network order; a 32-bit one in network order.\<close>

definition host16 :: "nat \<Rightarrow> string" where
  "host16 n = [byte n, byte (n div 256)]"

definition net16 :: "nat \<Rightarrow> string" where
  "net16 n = [byte (n div 256), byte n]"

definition net32 :: "nat \<Rightarrow> string" where
  "net32 n = net16 (n div 65536) @ net16 n"

definition word_le :: "char \<Rightarrow> char \<Rightarrow> nat" where
  "word_le a b = val8 a + 256 * val8 b"

text \<open>inet_addr on a dotted quad, as the four bytes in memory; anything else is INADDR_NONE.\<close>

fun split_at_dot :: "string \<Rightarrow> string \<Rightarrow> string list" where
  "split_at_dot w [] = [w]"
| "split_at_dot w (c # cs) =
     (if c = CHR ''.'' then w # split_at_dot [] cs else split_at_dot (w @ [c]) cs)"

definition inet_addr :: "string \<Rightarrow> string" where
  "inet_addr s = (let ps = split_at_dot [] s in
     if length ps = 4 \<and> list_all (\<lambda>p. p \<noteq> [] \<and> list_all is_digit p \<and> read_digits 0 p < 256) ps
     then map (\<lambda>p. byte (read_digits 0 p)) ps else replicate 4 (byte 255))"

text \<open>ether_aton on six pairs of hexadecimal digits between colons.\<close>

definition hex_val :: "char \<Rightarrow> nat" where
  "hex_val c = (if is_digit c then digit_val c else val8 c - 87)"

definition ether_aton :: "string \<Rightarrow> string" where
  "ether_aton s = map (\<lambda>i. byte (16 * hex_val (s ! (3 * i)) + hex_val (s ! (3 * i + 1)))) [0..<6]"

section \<open>The checksum of the injection tool\<close>

text \<open>One addition of the loop: the sum is folded once its bit 31 is set.\<close>

definition fold_once :: "nat \<Rightarrow> nat" where
  "fold_once acc = acc mod 65536 + acc div 65536"

definition cc_add :: "nat \<Rightarrow> nat \<Rightarrow> nat" where
  "cc_add acc w = (let s = acc + w in if odd (s div 2 ^ 31) then fold_once s else s)"

fun cc_loop :: "nat \<Rightarrow> string \<Rightarrow> nat" where
  "cc_loop acc (a # b # d) = cc_loop (cc_add acc (word_le a b)) d"
| "cc_loop acc [a] = acc + val8 a"
| "cc_loop acc [] = acc"

lemma fold_once_split: "fold_once s + 65535 * (s div 65536) = s"
  by (simp add: fold_once_def)

lemma fold_once_less: "s div 65536 \<noteq> 0 \<Longrightarrow> fold_once s < s"
  using fold_once_split [of s] by simp

function cc_fold :: "nat \<Rightarrow> nat" where
  "cc_fold acc = (if acc div 65536 \<noteq> 0 then cc_fold (fold_once acc) else acc)"
  by pat_completeness auto
termination
  by (relation "measure id") (simp_all add: fold_once_less)

declare cc_fold.simps [simp del]

definition ComputeChecksum :: "string \<Rightarrow> nat" where
  "ComputeChecksum data = 65535 - cc_fold (cc_loop 0 data)"

section \<open>The headers of the injection tool\<close>

definition DATA_SIZE :: nat where "DATA_SIZE = 100"

definition CreateEthernetHeader :: "string \<Rightarrow> string \<Rightarrow> nat \<Rightarrow> string" where
  "CreateEthernetHeader src_mac dst_mac protocol =
     ether_aton dst_mac @ ether_aton src_mac @ net16 protocol"

text \<open>The fields of struct iphdr, with check as the bytes of the checksum field.\<close>

definition iphdr :: "string \<Rightarrow> string" where
  "iphdr check =
     [byte 69, byte 0] @ net16 (20 + 20 + DATA_SIZE) @ net16 111 @ net16 0 @ [byte 111, byte 6] @
     check @ inet_addr ''192.168.0.10'' @ inet_addr ''192.168.0.11''"

definition CreateIPHeader :: string where
  "CreateIPHeader = iphdr (host16 (ComputeChecksum (iphdr (host16 0))))"

text \<open>
  struct tcphdr: res1 and doff share byte 12; syn is set in byte 13, whose other bits keep what
  malloc returned.
\<close>

definition tcphdr :: "nat \<Rightarrow> string \<Rightarrow> string" where
  "tcphdr junk13 check =
     net16 80 @ net16 100 @ net32 111 @ net32 111 @ [byte 80, byte (junk13 OR 2)] @ net16 100 @
     check @ host16 0"

text \<open>
  struct PseudoHeader has two 8-byte unsigned longs, two bytes, a short and 4 bytes of padding,
  which nothing writes.
\<close>

definition PseudoHeader :: "string \<Rightarrow> string \<Rightarrow> nat \<Rightarrow> nat \<Rightarrow> string \<Rightarrow> string" where
  "PseudoHeader source_ip dest_ip protocol tcp_length padding =
     (source_ip @ zeros 4) @ (dest_ip @ zeros 4) @ [byte 0, byte protocol] @ net16 tcp_length @ padding"

definition tcp_checksum :: "nat \<Rightarrow> string \<Rightarrow> string \<Rightarrow> string \<Rightarrow> nat" where
  "tcp_checksum junk13 padding ip data =
     (let segment_len = val8 (ip ! 2) * 256 + val8 (ip ! 3) - 20 in
      ComputeChecksum
        (PseudoHeader (take 4 (drop 12 ip)) (take 4 (drop 16 ip)) (val8 (ip ! 9)) segment_len padding @
         tcphdr junk13 (host16 0) @ take DATA_SIZE data))"

definition the_packet :: "nat \<Rightarrow> string \<Rightarrow> string \<Rightarrow> string" where
  "the_packet junk13 padding data =
     CreateEthernetHeader ''aa:aa:aa:aa:aa:aa'' ''bb:bb:bb:bb:bb:bb'' 0x800 @ CreateIPHeader @
     tcphdr junk13 (host16 (tcp_checksum junk13 padding CreateIPHeader data)) @ take DATA_SIZE data"

section \<open>The injection program\<close>

definition CreateRawSocket :: "int \<Rightarrow> (int \<Rightarrow> prog) \<Rightarrow> prog" where
  "CreateRawSocket protocol_to_sniff k =
     Call (Socket PF_PACKET SOCK_RAW (uint (htons_int protocol_to_sniff))) (\<lambda>a.
     if ret a = -1 then Perror ''Error creating raw socket: '' (Exit (-1)) else k (ret a))"

definition BindRawSocketToInterface :: "string \<Rightarrow> int \<Rightarrow> int \<Rightarrow> prog \<Rightarrow> prog" where
  "BindRawSocketToInterface device rawsock protocol k =
     Call (Ioctl rawsock (take 16 device)) (\<lambda>a.
     if ret a = -1 then Out (line ''Error getting Interface index !'') (Exit (-1))
     else let ifindex = (case ints a of [] \<Rightarrow> 0 | i # _ \<Rightarrow> i) in
     Call (Bind rawsock (LinkLayer ifindex (htons_int protocol))) (\<lambda>b.
     if ret b = -1 then Perror (line ''Error binding raw socket to interface'') (Exit (-1)) else k))"

definition SendRawPacket :: "int \<Rightarrow> string \<Rightarrow> int \<Rightarrow> (bool \<Rightarrow> prog) \<Rightarrow> prog" where
  "SendRawPacket rawsock pkt pkt_len k =
     Call (Write rawsock pkt pkt_len) (\<lambda>a.
     if ret a \<noteq> pkt_len
     then Out (line (''Could only send '' @ dec (ret a) @ '' bytes of packet of length '' @ dec pkt_len))
            (k False)
     else k True)"

definition CreateData :: "nat \<Rightarrow> (string \<Rightarrow> prog) \<Rightarrow> prog" where
  "CreateData len k =
     Call Gettimeofday (\<lambda>t. Call (Srand (case ints t of [] \<Rightarrow> 0 | s # _ \<Rightarrow> s)) (\<lambda>_.
     for_each [0..<len] (\<lambda>_ data k. Call Rand (\<lambda>r. k (data @ [byte (nat (255 * ret r div 2 ^ 31))])))
       [] k))"

definition injection_main :: "nat \<Rightarrow> string \<Rightarrow> string list \<Rightarrow> prog" where
  "injection_main junk13 padding argv =
     CreateRawSocket 3 (\<lambda>raw.
     if length argv < 2 then Undef else
     BindRawSocketToInterface (argv ! 1) raw 3 (
     CreateData DATA_SIZE (\<lambda>data.
     let packet = the_packet junk13 padding data;
         pkt_len = 14 + (256 * int (val8 (CreateIPHeader ! 2)) + int (val8 (CreateIPHeader ! 3))) in
     SendRawPacket raw packet pkt_len (\<lambda>sent.
     let fin = Call (Close raw) (\<lambda>_. Exit 0) in
     if \<not> sent then Perror ''Error sending packet'' fin
     else Out (line ''Packet sent successfully'') fin))))"

section \<open>The raw socket examples\<close>

text \<open>csum takes a number of words, and folds twice.\<close>

fun words_le :: "string \<Rightarrow> nat list" where
  "words_le (a # b # d) = word_le a b # words_le d"
| "words_le [a] = [val8 a]"
| "words_le [] = []"

definition csum :: "string \<Rightarrow> nat \<Rightarrow> nat" where
  "csum buf nwords =
     (let acc = sum_list (take nwords (words_le buf));
          acc = acc div 65536 + acc mod 65536;
          acc = acc + acc div 65536
      in 65535 - acc mod 65536)"

text \<open>
  struct ipheader declares iph_ihl:5 and iph_ver:4 of type unsigned char: the second does not fit
  in the rest of the first byte and gets the next one. With the padding before the shorts the
  struct has 24 bytes, the checksum at offset 14.
\<close>

definition ipheader :: "nat \<Rightarrow> nat \<Rightarrow> nat \<Rightarrow> nat \<Rightarrow> nat \<Rightarrow> string \<Rightarrow> string \<Rightarrow> string" where
  "ipheader tos len ident ttl protocol source dest =
     [byte 5, byte 4, byte tos, byte 0] @ host16 len @ net16 ident @ [byte 0, byte 0] @ host16 0 @
     [byte ttl, byte protocol] @ host16 0 @ source @ dest"

definition set_chksum :: "string \<Rightarrow> nat \<Rightarrow> string" where
  "set_chksum packet c = take 14 packet @ host16 c @ drop 16 packet"

definition udpheader :: "int \<Rightarrow> int \<Rightarrow> nat \<Rightarrow> string" where
  "udpheader srcport destport len =
     net16 (nat (srcport mod 65536)) @ net16 (nat (destport mod 65536)) @ net16 len @ host16 0"

text \<open>
  The tcpheader of client.c: tcph_reserved and tcph_offset in byte 12, tcp_res1 and tcph_hlen in
  byte 13, the flags in byte 14 with syn as bit 1, a byte of padding, then window, checksum and
  urgent pointer and 2 bytes of padding: 24 bytes.
\<close>

definition tcpheader :: "int \<Rightarrow> int \<Rightarrow> string" where
  "tcpheader srcport destport =
     net16 (nat (srcport mod 65536)) @ net16 (nat (destport mod 65536)) @ net32 1 @ net32 0 @
     [byte 80, byte 0, byte 2, byte 0] @ net16 32767 @ host16 0 @ host16 0 @ zeros 2"

definition raw_buffer :: "string \<Rightarrow> string" where
  "raw_buffer headers =
     (let buffer = headers @ zeros (8192 - length headers)
      in set_chksum buffer (csum buffer (length headers)))"

definition raw_addr :: "string \<Rightarrow> string \<Rightarrow> addr" where
  "raw_addr ip port =
     Inet (htons_int (atoi (lit port)))
       (word_of_nat (sum_list (map (\<lambda>(c, m). val8 c * m) (zip (inet_addr ip) [1, 256, 65536, 16777216]))))"

text \<open>main of server.c: UDP over IP, twenty times.\<close>

definition rawudp_main :: "string list \<Rightarrow> prog" where
  "rawudp_main argv =
     (if length argv \<noteq> 5 then
        Out (line ''- Invalid parameters!!!'') (
        Out (line (''- Usage '' @ (case argv of [] \<Rightarrow> [] | p # _ \<Rightarrow> p) @
          '' <source hostname/IP> <source port> <target hostname/IP> <target port>'')) (Exit 0))
      else
     Call (Socket AF_INET SOCK_RAW 17) (\<lambda>s. let sd = ret s in
     if sd < 0 then Perror ''socket() error'' (Exit (-1)) else
     Out (line ''socket() - Using SOCK_RAW socket and UDP protocol is OK.'') (
     let sin = raw_addr (argv ! 1) (argv ! 2);
         buffer = raw_buffer (ipheader 16 32 54321 64 17 (inet_addr (argv ! 1)) (inet_addr (argv ! 3)) @
           udpheader (atoi (lit (argv ! 2))) (atoi (lit (argv ! 4))) 8) in
     Call (Setsockopt sd IP_HDRINCL) (\<lambda>s'. if ret s' < 0 then Perror ''setsockopt() error'' (Exit (-1)) else
     Out (line ''setsockopt() is OK.'') (
     Out (line ''Trying...'') (
     Out (line ''Using raw socket and UDP protocol'') (
     Out (line (''Using Source IP: '' @ argv ! 1 @ '' port: '' @ dec (atoi (lit (argv ! 2))) @
       '', Target IP: '' @ argv ! 3 @ '' port: '' @ dec (atoi (lit (argv ! 4))) @ ''.'')) (
     for_each [1..<21] (\<lambda>count _ k.
       Call (Sendto sd buffer 32 sin) (\<lambda>a.
       if ret a < 0 then Perror ''sendto() error'' (Exit (-1))
       else Out (line (''Count #'' @ dec (int count) @ '' - sendto() is OK.'')) (Call (Sleep 2) (\<lambda>_. k ()))))
     () (\<lambda>_. Call (Close sd) (\<lambda>_. Exit 0))))))))))"

text \<open>main of client.c: TCP over IP, twenty times.\<close>

definition rawtcp_main :: "string list \<Rightarrow> prog" where
  "rawtcp_main argv =
     (if length argv \<noteq> 5 then
        Out (line ''- Invalid parameters!!!'') (
        Out (line (''- Usage: '' @ (case argv of [] \<Rightarrow> [] | p # _ \<Rightarrow> p) @
          '' <source hostname/IP> <source port> <target hostname/IP> <target port>'')) (Exit (-1)))
      else
     Call (Socket AF_INET SOCK_RAW 6) (\<lambda>s. let sd = ret s in
     if sd < 0 then Perror ''socket() error'' (Exit 0) else
     Out (line ''socket()-SOCK_RAW and tcp protocol is OK.'') (
     let sin = raw_addr (argv ! 1) (argv ! 2);
         buffer = raw_buffer (ipheader 16 48 54321 64 6 (inet_addr (argv ! 1)) (inet_addr (argv ! 3)) @
           tcpheader (atoi (lit (argv ! 2))) (atoi (lit (argv ! 4)))) in
     Call (Setsockopt sd IP_HDRINCL) (\<lambda>s'. if ret s' < 0 then Perror ''setsockopt() error'' (Exit 0) else
     Out (line ''setsockopt() is OK'') (
     Out (line (''Using:::::Source IP: '' @ argv ! 1 @ '' port: '' @ dec (atoi (lit (argv ! 2))) @
       '', Target IP: '' @ argv ! 3 @ '' port: '' @ dec (atoi (lit (argv ! 4))) @ ''.'')) (
     for_each [0..<20] (\<lambda>count _ k.
       Call (Sendto sd buffer 48 sin) (\<lambda>a.
       if ret a < 0 then Perror ''sendto() error'' (Exit 0)
       else Out (line (''Count #'' @ dec (int count) @ '' - sendto() is OK'')) (Call (Sleep 2) (\<lambda>_. k ()))))
     () (\<lambda>_. Call (Close sd) (\<lambda>_. Exit 0))))))))"


section \<open>Sums of 16-bit words\<close>

definition wsum :: "string \<Rightarrow> nat" where
  "wsum d = sum_list (words_le d)"

lemma wsum_simps [simp]:
  "wsum [] = 0" "wsum [a] = val8 a" "wsum (a # b # d) = word_le a b + wsum d"
  by (simp_all add: wsum_def)

lemma wsum_append: "even (length d) \<Longrightarrow> wsum (d @ e) = wsum d + wsum e"
  by (induction d rule: words_le.induct) auto

lemma wsum_zeros [simp]: "wsum (zeros n) = 0"
  by (induction n rule: less_induct)
    (case_tac x; simp add: zeros_def val8_def; case_tac nat; simp add: word_le_def val8_def)

lemma val8_byte [simp]: "val8 (byte n) = n mod 256"
  by (simp add: val8_def byte_def)

lemma word_host16: "n < 65536 \<Longrightarrow> wsum (host16 n) = n"
  by (simp add: host16_def word_le_def)

lemma fold_once_mod: "fold_once s mod 65535 = s mod 65535"
  by (metis fold_once_split mod_mult_self2)

lemma fold_once_pos: "fold_once s = 0 \<longleftrightarrow> s = 0"
  by (auto simp: fold_once_def)

lemma cc_add_mod: "cc_add s w mod 65535 = (s + w) mod 65535"
  by (simp add: cc_add_def fold_once_mod Let_def)

lemma cc_add_zero: "cc_add s w = 0 \<longleftrightarrow> s = 0 \<and> w = 0"
  by (auto simp: cc_add_def fold_once_pos Let_def)

lemma cc_loop_mod: "cc_loop s d mod 65535 = (s + wsum d) mod 65535"
proof (induction s d rule: cc_loop.induct)
  case (1 s a b d)
  have "cc_loop s (a # b # d) mod 65535 = (cc_add s (word_le a b) + wsum d) mod 65535"
    using 1 by simp
  also have "\<dots> = (s + word_le a b + wsum d) mod 65535"
    by (metis cc_add_mod mod_add_left_eq)
  finally show ?case by (simp add: add.assoc)
qed simp_all

lemma cc_loop_zero: "cc_loop s d = 0 \<longleftrightarrow> s = 0 \<and> wsum d = 0"
  by (induction s d rule: cc_loop.induct) (auto simp: cc_add_zero)

lemma cc_fold_facts: "cc_fold s mod 65535 = s mod 65535 \<and> (cc_fold s = 0 \<longleftrightarrow> s = 0) \<and> cc_fold s < 65536"
proof (induction s rule: cc_fold.induct)
  case (1 s)
  show ?case
  proof (cases "s div 65536 = 0")
    case True
    then show ?thesis by (auto simp: cc_fold.simps [of s])
  next
    case False
    then have "cc_fold s = cc_fold (fold_once s)" by (simp add: cc_fold.simps [of s])
    with 1 [OF False] show ?thesis by (simp add: fold_once_mod fold_once_pos)
  qed
qed

text \<open>A folded sum is determined by its remainder and by whether it is zero.\<close>

definition folded :: "nat \<Rightarrow> nat \<Rightarrow> bool" where
  "folded s f = (f < 65536 \<and> f mod 65535 = s mod 65535 \<and> (f = 0 \<longleftrightarrow> s = 0))"

lemma folded_unique: "folded s f \<Longrightarrow> folded s f' \<Longrightarrow> f = f'"
proof -
  assume a: "folded s f" "folded s f'"
  have mod: "x mod 65535 = (if x = 65535 then 0 else x)" if "x < 65536" for x :: nat
    using that by (cases "x = 65535") auto
  from a mod [of f] mod [of f'] show "f = f'" by (auto simp: folded_def split: if_splits)
qed

lemma checksum_folded: "folded (wsum d) (cc_fold (cc_loop 0 d))"
  using cc_fold_facts [of "cc_loop 0 d"] cc_loop_mod [of 0 d] cc_loop_zero [of 0 d]
  by (simp add: folded_def)

lemma ComputeChecksum_eq: "folded (wsum d) f \<Longrightarrow> ComputeChecksum d = 65535 - f"
  using folded_unique [OF checksum_folded] by (simp add: ComputeChecksum_def)

lemma ComputeChecksum_zero_iff: "ComputeChecksum d = 0 \<longleftrightarrow> 0 < wsum d \<and> wsum d mod 65535 = 0"
proof -
  obtain f where f: "folded (wsum d) f" "ComputeChecksum d = 65535 - f"
    using checksum_folded ComputeChecksum_eq by blast
  have "f = 65535 \<longleftrightarrow> f \<noteq> 0 \<and> f mod 65535 = 0" if "f < 65536"
    using that by (cases "f = 65535") auto
  with f show ?thesis by (auto simp: folded_def)
qed

lemma ComputeChecksum_bound: "ComputeChecksum d < 65536"
  by (simp add: ComputeChecksum_def)

lemma checksum_cancels: "(wsum d + ComputeChecksum d) mod 65535 = 0" "0 < wsum d + ComputeChecksum d"
proof -
  obtain f where f: "folded (wsum d) f" "ComputeChecksum d = 65535 - f"
    using checksum_folded ComputeChecksum_eq by blast
  have "(wsum d + (65535 - f)) mod 65535 = (f + (65535 - f)) mod 65535"
    by (rule mod_add_cong) (use f in \<open>simp_all add: folded_def\<close>)
  with f show "(wsum d + ComputeChecksum d) mod 65535 = 0" by (simp add: folded_def)
  show "0 < wsum d + ComputeChecksum d" using f by (auto simp: folded_def)
qed

lemma length_words_le: "even (length d) \<Longrightarrow> length (words_le d) = length d div 2"
  by (induction d rule: words_le.induct) auto

lemma wsum_bound: "even (length d) \<Longrightarrow> wsum d \<le> 65535 * (length d div 2)"
proof (induction d rule: words_le.induct)
  case (1 a b d)
  have "val8 a < 256" "val8 b < 256" by (simp_all add: val8_def)
  with 1 show ?case by (auto simp: word_le_def)
qed auto

text \<open>Two folds are enough for a 32-bit sum.\<close>

lemma two_folds: "s < 65536 * 65536 \<Longrightarrow> folded s ((fold_once s + fold_once s div 65536) mod 65536)"
proof -
  assume s: "s < 65536 * 65536"
  let ?t = "fold_once s"
  from s have "s div 65536 < 65536" by (simp add: less_mult_imp_div_less)
  moreover have "s mod 65536 < 65536" by simp
  ultimately have t: "?t \<le> 131070" unfolding fold_once_def by linarith
  have m: "?t mod 65535 = s mod 65535" "?t = 0 \<longleftrightarrow> s = 0"
    by (simp_all add: fold_once_mod fold_once_pos)
  show ?thesis
  proof (cases "?t < 65536")
    case True
    with m show ?thesis by (simp add: folded_def)
  next
    case False
    then have d: "?t div 65536 = 1" using t by (simp add: div_nat_eqI)
    obtain u where u: "?t = 65536 + u" using False by (metis le_Suc_ex not_less)
    then have "u < 65535" using t by simp
    have "?t + 1 = (u + 1) + 65536" using u by simp
    with \<open>u < 65535\<close> have f: "(?t + 1) mod 65536 = u + 1" by (simp only: mod_add_self2) simp
    have "?t = (u + 1) + 65535" using u by simp
    then have "(u + 1) mod 65535 = ?t mod 65535" by (simp only: mod_add_self2)
    with m u f d \<open>u < 65535\<close> show ?thesis by (simp add: folded_def)
  qed
qed

lemma even_host16 [simp]: "length (host16 n) = 2" "length (net16 n) = 2" "length (net32 n) = 4"
  by (simp_all add: host16_def net16_def net32_def)

lemma wsum_host16: "wsum (host16 n) = n mod 65536"
proof -
  have "n mod 256 + 256 * (n div 256 mod 256) = n mod (256 * 256)"
    using mod_mult2_eq [of n 256 256] by simp
  then show ?thesis by (simp add: host16_def word_le_def)
qed

lemma complement_mod:
  fixes b c p :: nat
  assumes "(b + c + p) mod 65535 = 0" and "0 < b"
  shows "(0 < b + c \<and> (b + c) mod 65535 = 0) \<longleftrightarrow> p mod 65535 = 0"
proof -
  have "65535 dvd (b + c) + p" using assms(1) by (simp only: mod_eq_0_iff_dvd)
  then have "65535 dvd b + c \<longleftrightarrow> 65535 dvd p" by (metis dvd_add_right_iff dvd_add_left_iff)
  with assms(2) show ?thesis by (simp only: mod_eq_0_iff_dvd add_gr_0 simp_thms)
qed

text \<open>A checksum field inside data.\<close>

lemma wsum_field:
  "even (length p) \<Longrightarrow> wsum (p @ host16 n @ q) = wsum p + n mod 65536 + wsum q"
  by (simp add: wsum_append wsum_host16)

lemma wsum_field0: "even (length p) \<Longrightarrow> wsum (p @ host16 0 @ q) = wsum p + wsum q"
  by (simp add: wsum_field)

lemma field_verifies:
  assumes "even (length p)"
  shows "ComputeChecksum (p @ host16 (ComputeChecksum (p @ host16 0 @ q)) @ q) = 0"
proof -
  let ?d = "p @ host16 0 @ q"
  have "ComputeChecksum ?d mod 65536 = ComputeChecksum ?d" using ComputeChecksum_bound by simp
  then have "wsum (p @ host16 (ComputeChecksum ?d) @ q) = wsum ?d + ComputeChecksum ?d"
    using assms by (simp only: wsum_field wsum_field0)
  with checksum_cancels [of ?d] show ?thesis by (simp only: ComputeChecksum_zero_iff)
qed

section \<open>What the packet programs do\<close>

text \<open>
  C32. A checksum verifies: data with its 16-bit checksum field set to
  zero gets a checksum with which, stored in that field at any even offset, the sum over the
  data is that of a valid header, so that ComputeChecksum of it is zero.
\<close>

theorem ComputeChecksum_verifies:
  assumes "even (length p)"
  shows "ComputeChecksum (p @ host16 (ComputeChecksum (p @ host16 0 @ q)) @ q) = 0"
  using assms by (rule field_verifies)

theorem ComputeChecksum_verifies_witness:
  "ComputeChecksum (''E1'' @ host16 (ComputeChecksum (''E1'' @ host16 0 @ ''abc'')) @ ''abc'') = 0"
  by (rule ComputeChecksum_verifies) simp

text \<open>
  C34. The two checksum routines of the repository agree: on a buffer of
  n 16-bit words, csum with the count of words and ComputeChecksum with the count of bytes
  return the same value, although one folds twice at the end and the other while it adds.
\<close>

theorem csum_is_ComputeChecksum:
  assumes "length buf = 2 * n" and "n < 65536"
  shows "csum buf n = ComputeChecksum buf"
proof -
  have n: "length (words_le buf) = n" using assms(1) by (simp add: length_words_le)
  have "wsum buf \<le> 65535 * n" using wsum_bound [of buf] assms(1) by simp
  then have "wsum buf < 65536 * 65536" using assms(2) by simp
  from two_folds [OF this]
  have "ComputeChecksum buf = 65535 - (fold_once (wsum buf) + fold_once (wsum buf) div 65536) mod 65536"
    by (rule ComputeChecksum_eq)
  then show ?thesis
    using n by (simp add: csum_def Let_def fold_once_def wsum_def add.commute)
qed

theorem csum_is_ComputeChecksum_witness:
  "csum (replicate 20 (byte 200)) 10 = ComputeChecksum (replicate 20 (byte 200))"
  by (rule csum_is_ComputeChecksum) simp_all

definition rfc_pseudo_header :: "string \<Rightarrow> string" where
  "rfc_pseudo_header ip =
     take 4 (drop 12 ip) @ take 4 (drop 16 ip) @ [byte 0, ip ! 9] @ net16 (val8 (ip ! 2) * 256 + val8 (ip ! 3) - 20)"

lemma ip_header_bytes:
  "CreateIPHeader = [byte 69, byte 0] @ net16 140 @ net16 111 @ net16 0 @ [byte 111, byte 6] @
    host16 (ComputeChecksum (iphdr (host16 0))) @ map byte [192, 168, 0, 10] @ map byte [192, 168, 0, 11]"
proof -
  have "inet_addr ''192.168.0.10'' = map byte [192, 168, 0, 10]"
    "inet_addr ''192.168.0.11'' = map byte [192, 168, 0, 11]" by code_simp+
  then show ?thesis by (simp add: CreateIPHeader_def iphdr_def DATA_SIZE_def)
qed

lemma length_CreateIPHeader [simp]: "length CreateIPHeader = 20"
  by (simp add: ip_header_bytes)

lemma length_ethernet [simp]: "length (CreateEthernetHeader s d p) = 14"
  by (simp add: CreateEthernetHeader_def ether_aton_def)

lemma length_tcphdr: "length c = 2 \<Longrightarrow> length (tcphdr j c) = 20"
  by (simp add: tcphdr_def)

lemma wsum_tcphdr: "wsum (tcphdr j (host16 n)) = wsum (tcphdr j (host16 0)) + n mod 65536"
proof -
  let ?p = "net16 80 @ net16 100 @ net32 111 @ net32 111 @ [byte 80, byte (j OR 2)] @ net16 100"
  have e: "even (length ?p)" by simp
  have "tcphdr j (host16 m) = ?p @ host16 m @ host16 0" for m by (simp add: tcphdr_def)
  then show ?thesis using wsum_field [OF e] by simp
qed

lemma wsum_pseudo:
  assumes "length s = 4" "length d = 4" "even (length padding)"
  shows "wsum (PseudoHeader s d p n padding @ r) =
    wsum s + wsum d + wsum [byte 0, byte p] + wsum (net16 n) + wsum padding + wsum r"
  using assms by (simp add: PseudoHeader_def wsum_append length_zeros)

lemma ip_header_verifies: "ComputeChecksum CreateIPHeader = 0"
proof -
  let ?p = "[byte 69, byte 0] @ net16 (20 + 20 + DATA_SIZE) @ net16 111 @ net16 0 @ [byte 111, byte 6]"
    and ?q = "inet_addr ''192.168.0.10'' @ inet_addr ''192.168.0.11''"
  have "even (length ?p)" by simp
  from field_verifies [OF this, of ?q] show ?thesis
    by (simp add: CreateIPHeader_def iphdr_def)
qed

text \<open>
  C22. The packet that the injection tool writes has 154 bytes, its IP
  header verifies, and its TCP segment verifies under the 12-byte pseudo header of the protocol
  exactly when the two words of padding at the end of the tool's own 24-byte pseudo header,
  which it never writes, sum to zero modulo 65535.
\<close>

theorem injected_packet_checksums:
  assumes "length data = DATA_SIZE" and "length padding = 4"
  shows "length (the_packet junk13 padding data) = 154 \<and>
    ComputeChecksum (take 20 (drop 14 (the_packet junk13 padding data))) = 0 \<and>
    (ComputeChecksum (rfc_pseudo_header CreateIPHeader @ drop 34 (the_packet junk13 padding data)) = 0 \<longleftrightarrow>
      wsum padding mod 65535 = 0)"
proof (intro conjI)
  let ?ip = CreateIPHeader
  let ?c = "tcp_checksum junk13 padding ?ip data"
  let ?tcp = "tcphdr junk13 (host16 ?c)"
  have d: "length data = 100" using assms(1) by (simp add: DATA_SIZE_def)
  then show "length (the_packet junk13 padding data) = 154"
    by (simp add: the_packet_def length_tcphdr DATA_SIZE_def)
  have "take 20 (drop 14 (the_packet junk13 padding data)) = ?ip" by (simp add: the_packet_def)
  moreover have "ComputeChecksum ?ip = 0" by (rule ip_header_verifies)
  ultimately show "ComputeChecksum (take 20 (drop 14 (the_packet junk13 padding data))) = 0" by simp
  let ?s = "take 4 (drop 12 ?ip)" and ?t = "take 4 (drop 16 ?ip)"
  have rest: "drop 34 (the_packet junk13 padding data) = ?tcp @ data"
    using d by (simp add: the_packet_def DATA_SIZE_def)
  have n: "val8 (?ip ! 2) * 256 + val8 (?ip ! 3) - 20 = 120" "?ip ! 9 = byte 6"
    by (simp_all add: ip_header_bytes net16_def)
  let ?base = "wsum ?s + wsum ?t + wsum [byte 0, byte 6] + wsum (net16 120) +
    wsum (tcphdr junk13 (host16 0)) + wsum data"
  let ?w = "PseudoHeader ?s ?t 6 120 padding @ tcphdr junk13 (host16 0) @ data"
  have c: "?c = ComputeChecksum ?w"
    using d n by (simp add: tcp_checksum_def DATA_SIZE_def)
  have w: "wsum ?w = ?base + wsum padding"
    using wsum_pseudo [of ?s ?t padding 6 120 "tcphdr junk13 (host16 0) @ data"] assms(2)
    by (simp add: wsum_append length_tcphdr)
  have "even (length ?tcp)" "?c mod 65536 = ?c"
    unfolding c using ComputeChecksum_bound [of ?w] by (simp_all add: length_tcphdr)
  then have "wsum (?tcp @ data) = wsum (tcphdr junk13 (host16 0)) + ?c + wsum data"
    using wsum_tcphdr [of junk13 ?c] by (simp only: wsum_append)
  moreover have "rfc_pseudo_header ?ip = ?s @ ?t @ [byte 0, byte 6] @ net16 120"
    using n by (simp add: rfc_pseudo_header_def)
  moreover have "even (length ?s)" "even (length ?t)" by simp_all
  ultimately have r: "wsum (rfc_pseudo_header ?ip @ ?tcp @ data) = ?base + ?c"
    using wsum_append [of "[byte 0, byte 6]" "net16 120 @ ?tcp @ data"]
    by (simp add: wsum_append del: wsum_simps)
  have cancel: "(?base + ?c + wsum padding) mod 65535 = 0" "0 < ?base + ?c + wsum padding"
    using checksum_cancels [of ?w] unfolding c [symmetric] w by (simp_all only: ac_simps)
  have "0 < ?base" using n by (simp add: word_le_def)
  then show "ComputeChecksum (rfc_pseudo_header ?ip @ drop 34 (the_packet junk13 padding data)) = 0 \<longleftrightarrow>
      wsum padding mod 65535 = 0"
    unfolding rest ComputeChecksum_zero_iff r by (rule complement_mod [OF cancel(1)])
qed

theorem injected_packet_checksums_witness:
  "length (the_packet 0 (zeros 4) (replicate 100 (byte 7))) = 154 \<and>
    ComputeChecksum (take 20 (drop 14 (the_packet 0 (zeros 4) (replicate 100 (byte 7))))) = 0 \<and>
    (ComputeChecksum (rfc_pseudo_header CreateIPHeader @
       drop 34 (the_packet 0 (zeros 4) (replicate 100 (byte 7)))) = 0 \<longleftrightarrow>
      wsum (zeros 4) mod 65535 = 0)"
  by (rule injected_packet_checksums) (simp_all add: DATA_SIZE_def length_zeros)

text \<open>
  Every datagram that the raw UDP example sends goes to the address built
  from its source arguments, and what the kernel reads as IP version and protocol in it, the
  high half of the first byte and the byte at offset 9, is zero: the two bit fields of the
  struct do not share a byte.
\<close>

theorem rawudp_datagrams:
  "list_all (\<lambda>c. case c of Sendto fd buf n dest \<Rightarrow>
      dest = raw_addr (argv ! 1) (argv ! 2) \<and> n = 32 \<and> val8 (buf ! 0) div 16 = 0 \<and> val8 (buf ! 9) = 0
    | _ \<Rightarrow> True) (calls (trace (rawudp_main argv) as))"
proof (rule always_trace)
  have b: "val8 (raw_buffer (ipheader tos len id ttl p s d @ r) ! 0) = 5"
    "val8 (raw_buffer (ipheader tos len id ttl p s d @ r) ! 9) = 0" for tos len id ttl p s d r
    by (simp_all add: raw_buffer_def set_chksum_def ipheader_def host16_def net16_def Let_def)
  show "always (\<lambda>c. case c of Sendto fd buf n dest \<Rightarrow>
      dest = raw_addr (argv ! 1) (argv ! 2) \<and> n = 32 \<and> val8 (buf ! 0) div 16 = 0 \<and> val8 (buf ! 9) = 0
    | _ \<Rightarrow> True) (rawudp_main argv)"
    unfolding rawudp_main_def Let_def
    by (auto intro!: always_for_each [where I = "\<lambda>_. True"] simp: b simp del: upt_conv_Cons)
qed

end
