(* ===== verification/CN_Sockets.thy ===== *)
theory CN_Sockets imports CN_Monitor begin

text \<open>
  What the socket programs share: formatting into character arrays, sending and receiving
  through them, calls that are checked with the program's error_func, and the bytes that a run
  has sent. Character arrays are declared without initial value; what they hold at first is a
  parameter. Where C would read on behind an array that has no NUL, the models stop at its end.
\<close>

section \<open>Formatting\<close>

text \<open>sprintf into a buffer, and strcat; a buffer that is too short is overrun.\<close>

definition put_str :: "string \<Rightarrow> string \<Rightarrow> (string \<Rightarrow> prog) \<Rightarrow> prog" where
  "put_str b s k = (if length s < length b then k (overwrite b (lit s)) else Undef)"

definition strcat :: "string \<Rightarrow> string \<Rightarrow> (string \<Rightarrow> prog) \<Rightarrow> prog" where
  "strcat b s k = (if NUL \<in> set b then put_str b (c_str b @ s) k else Undef)"

lemma put_str_fits [simp]: "length s < length b \<Longrightarrow> put_str b s k = k (overwrite b (lit s))"
  by (simp add: put_str_def)

lemma always_put_str [simp]:
  "always P (put_str b s k) = (length s < length b \<longrightarrow> always P (k (overwrite b (lit s))))"
  by (simp add: put_str_def)

lemma obeys_put_str [simp]:
  "obeys ok upd m (put_str b s k) = (length s < length b \<longrightarrow> obeys ok upd m (k (overwrite b (lit s))))"
  by (simp add: put_str_def)

section \<open>Sending and receiving\<close>

text \<open>
  recv and read of at most n bytes into a buffer; more bytes than the buffer has overrun it.
\<close>

definition store :: "int \<Rightarrow> string \<Rightarrow> ans \<Rightarrow> (string \<Rightarrow> prog) \<Rightarrow> prog" where
  "store n b a k = (let d = got n a in if length b < length d then Undef else k (overwrite b d))"

definition recv_into :: "int \<Rightarrow> string \<Rightarrow> int \<Rightarrow> (string \<Rightarrow> int \<Rightarrow> prog) \<Rightarrow> prog" where
  "recv_into fd b n k = Call (Recv fd n) (\<lambda>a. store n b a (\<lambda>b. k b (ret a)))"

definition read_into :: "int \<Rightarrow> string \<Rightarrow> int \<Rightarrow> (string \<Rightarrow> int \<Rightarrow> prog) \<Rightarrow> prog" where
  "read_into fd b n k = Call (Read fd n) (\<lambda>a. store n b a (\<lambda>b. k b (ret a)))"

lemma store_fits [simp]: "nat n \<le> length b \<Longrightarrow> store n b a k = k (overwrite b (got n a))"
  using length_got [of n a] by (simp add: store_def Let_def)

definition send_str :: "int \<Rightarrow> string \<Rightarrow> int \<Rightarrow> prog \<Rightarrow> prog" where
  "send_str fd obj n k = Call (Send fd obj n) (\<lambda>_. k)"

definition write_str :: "int \<Rightarrow> string \<Rightarrow> int \<Rightarrow> prog \<Rightarrow> prog" where
  "write_str fd obj n k = Call (Write fd obj n) (\<lambda>_. k)"

lemma trace_send [simp]:
  "trace (send_str fd obj n k) (a # as) = Did (Send fd obj n) a # trace k as"
  "trace (write_str fd obj n k) (a # as) = Did (Write fd obj n) a # trace k as"
  "final_of (send_str fd obj n k) (a # as) = final_of k as"
  "final_of (write_str fd obj n k) (a # as) = final_of k as"
  by (simp_all add: send_str_def write_str_def)

lemma always_send [simp]:
  "always P (send_str fd obj n k) = (P (Send fd obj n) \<and> always P k)"
  "always P (write_str fd obj n k) = (P (Write fd obj n) \<and> always P k)"
  by (simp_all add: send_str_def write_str_def)

lemma obeys_send [simp]:
  "obeys ok upd m (send_str fd obj n k) =
     (ok m (Send fd obj n) \<and> (\<forall>a. obeys ok upd (upd m (Send fd obj n) a) k))"
  "obeys ok upd m (write_str fd obj n k) =
     (ok m (Write fd obj n) \<and> (\<forall>a. obeys ok upd (upd m (Write fd obj n) a) k))"
  by (simp_all add: send_str_def write_str_def)

text \<open>sprintf(buf, "%d", i) followed by a send of n bytes of buf.\<close>

definition send_int :: "int \<Rightarrow> string \<Rightarrow> int \<Rightarrow> int \<Rightarrow> (string \<Rightarrow> prog) \<Rightarrow> prog" where
  "send_int fd b i n k = put_str b (dec i) (\<lambda>b. send_str fd b n (k b))"

text \<open>The bytes that a run sent to a descriptor, message by message.\<close>

fun sent :: "int \<Rightarrow> call list \<Rightarrow> string list" where
  "sent fd [] = []"
| "sent fd (c # cs) =
     (case c of Send f obj n \<Rightarrow> (if f = fd then take (nat n) obj # sent fd cs else sent fd cs)
      | Write f obj n \<Rightarrow> (if f = fd then take (nat n) obj # sent fd cs else sent fd cs)
      | _ \<Rightarrow> sent fd cs)"

lemma sent_append [simp]: "sent fd (xs @ ys) = sent fd xs @ sent fd ys"
  by (induction xs) (auto split: call.splits)

lemma atoi_sent_int:
  "int32 i \<Longrightarrow> 12 \<le> length b \<Longrightarrow> 12 \<le> n \<Longrightarrow> atoi (take n (overwrite b (lit (dec i)))) = i"
  unfolding overwrite_def by (rule dec_buf.sent_prefix)

lemma length_dec_port: "0 \<le> p \<Longrightarrow> p < 65536 \<Longrightarrow> length (dec p) \<le> 5"
  using length_dec_nat [of "nat p" 5] by (simp add: dec_def)

text \<open>A port number in a buffer of at least six bytes.\<close>

lemma atoi_sent_port:
  assumes "0 \<le> p" "p < 65536" "6 \<le> n"
  shows "atoi (take n (overwrite b (lit (dec p)))) = p"
proof -
  have "length (lit (dec p)) \<le> n"
    using length_dec_port [OF assms(1,2)] assms(3) by (simp add: length_lit)
  then have "take n (overwrite b (lit (dec p))) =
      lit (dec p) @ take (n - length (lit (dec p))) (drop (length (lit (dec p))) b)"
    by (simp add: overwrite_def)
  then show ?thesis by (simp only: atoi_dec)
qed

lemma length_dec_int32: "int32 i \<Longrightarrow> length (dec i) < 12"
  using length_dec [of i] by (simp add: int32_def lit_def)

section \<open>Checked calls\<close>

text \<open>error_func(f(...), message), where error_func prints the message and exits.\<close>

definition checked :: "call \<Rightarrow> string \<Rightarrow> (int \<Rightarrow> prog) \<Rightarrow> prog" where
  "checked c message k = Call c (\<lambda>a. error_perror_exit (ret a) message (k (ret a)))"

text \<open>The same where error_func only prints.\<close>

definition noted :: "call \<Rightarrow> string \<Rightarrow> (int \<Rightarrow> prog) \<Rightarrow> prog" where
  "noted c message k = Call c (\<lambda>a. error_perror (ret a) message (k (ret a)))"

text \<open>The same where error_func prints the message to the standard output.\<close>

definition must :: "call \<Rightarrow> string \<Rightarrow> (int \<Rightarrow> prog) \<Rightarrow> prog" where
  "must c message k = Call c (\<lambda>a. error_exit (ret a) message (k (ret a)))"

definition tried :: "call \<Rightarrow> string \<Rightarrow> (int \<Rightarrow> prog) \<Rightarrow> prog" where
  "tried c message k = Call c (\<lambda>a. error_print (ret a) message (k (ret a)))"

lemma must_simps [simp]:
  "0 \<le> ret a \<Longrightarrow> trace (must c m k) (a # as) = Did c a # trace (k (ret a)) as"
  "0 \<le> ret a \<Longrightarrow> final_of (must c m k) (a # as) = final_of (k (ret a)) as"
  "0 \<le> ret a \<Longrightarrow> trace (tried c m k) (a # as) = Did c a # trace (k (ret a)) as"
  "0 \<le> ret a \<Longrightarrow> final_of (tried c m k) (a # as) = final_of (k (ret a)) as"
  by (simp_all add: must_def tried_def)

lemma always_must [simp]:
  "always P (must c m k) = (P c \<and> (\<forall>r \<ge> 0. always P (k r)))"
  "always P (tried c m k) = (P c \<and> (\<forall>r. always P (k r)))"
  by (auto simp: must_def tried_def) (metis ans_sel(1))+

lemma checked_simps [simp]:
  "0 \<le> ret a \<Longrightarrow> trace (checked c m k) (a # as) = Did c a # trace (k (ret a)) as"
  "0 \<le> ret a \<Longrightarrow> final_of (checked c m k) (a # as) = final_of (k (ret a)) as"
  "trace (noted c m k) (a # as) = Did c a # trace (k (ret a)) as"
  "final_of (noted c m k) (a # as) = final_of (k (ret a)) as"
  by (simp_all add: checked_def noted_def error_perror_def)

lemma always_checked [simp]:
  "always P (checked c m k) = (P c \<and> (\<forall>r \<ge> 0. always P (k r)))"
  "always P (noted c m k) = (P c \<and> (\<forall>r. always P (k r)))"
  by (auto simp: checked_def noted_def) (metis ans_sel(1))+

lemma obeys_checked:
  assumes "ok m c" and "\<And>a. 0 \<le> ret a \<Longrightarrow> obeys ok upd (upd m c a) (k (ret a))"
  shows "obeys ok upd m (checked c s k)"
  using assms by (simp add: checked_def)

text \<open>INADDR_ANY with a port.\<close>

definition any_addr :: "int \<Rightarrow> addr" where
  "any_addr port = Inet (htons_int port) 0"

text \<open>A TCP server socket: socket, SO_REUSEADDR, bind, listen, each checked.\<close>

definition tcp_server :: "int \<Rightarrow> string \<Rightarrow> int \<Rightarrow> (int \<Rightarrow> prog) \<Rightarrow> prog" where
  "tcp_server port bind_message backlog k =
     checked (Socket AF_INET SOCK_STREAM 0) ''socket'' (\<lambda>sfd.
     checked (Setsockopt sfd SO_REUSEADDR) ''calling sockpot'' (\<lambda>_.
     checked (Bind sfd (any_addr port)) bind_message (\<lambda>_.
     checked (Listen sfd backlog) ''listen'' (\<lambda>_. k sfd))))"

section \<open>Waiting for several descriptors\<close>

definition POLLRDNORM :: int where "POLLRDNORM = 64"

text \<open>The revents of the i-th entry of a poll, and the test of it against its events.\<close>

definition revent :: "nat \<Rightarrow> ans \<Rightarrow> int" where
  "revent i a = (if i < length (ints a) then ints a ! i else 0)"

definition polled :: "int \<Rightarrow> nat \<Rightarrow> ans \<Rightarrow> bool" where
  "polled events i a = (events AND revent i a \<noteq> 0)"

text \<open>A select leaves in the set those of its members that are ready; an error leaves it alone.\<close>

definition selected :: "int list \<Rightarrow> ans \<Rightarrow> int list" where
  "selected fdset a = (if ret a < 0 then fdset else filter (\<lambda>fd. fd \<in> set (ints a)) fdset)"

section \<open>Passing descriptors\<close>

text \<open>sendmsg with one blank of data and the descriptor as control message.\<close>

definition send_file_descriptor :: "int \<Rightarrow> int \<Rightarrow> (int \<Rightarrow> prog) \<Rightarrow> prog" where
  "send_file_descriptor socket fd_to_send k = Call (Sendmsg socket '' '' fd_to_send) (\<lambda>a. k (ret a))"

text \<open>recvmsg; the integers of the answer are the descriptors of the SCM_RIGHTS messages.\<close>

definition recv_file_descriptor :: "int \<Rightarrow> (int \<Rightarrow> prog) \<Rightarrow> prog" where
  "recv_file_descriptor socket k =
     Call (Recvmsg socket) (\<lambda>a.
     if ret a \<le> 0 then k (ret a) else case ints a of fd # _ \<Rightarrow> k fd | [] \<Rightarrow> k (- 1))"

text \<open>The answer to a recvmsg that brings a descriptor.\<close>

definition passed :: "int \<Rightarrow> ans" where
  "passed fd = gets_ints 1 [fd]"

lemma trace_fd_passing [simp]:
  "trace (recv_file_descriptor s k) (passed fd # as) = Did (Recvmsg s) (passed fd) # trace (k fd) as"
  "final_of (recv_file_descriptor s k) (passed fd # as) = final_of (k fd) as"
  "trace (send_file_descriptor s fd k) (a # as) = Did (Sendmsg s '' '' fd) a # trace (k (ret a)) as"
  "final_of (send_file_descriptor s fd k) (a # as) = final_of (k (ret a)) as"
  by (simp_all add: recv_file_descriptor_def send_file_descriptor_def passed_def)

text \<open>The descriptors that a run passed on over a socket.\<close>

fun forwarded :: "int \<Rightarrow> call list \<Rightarrow> int list" where
  "forwarded s [] = []"
| "forwarded s (c # cs) =
     (case c of Sendmsg f d fd \<Rightarrow> (if f = s then fd # forwarded s cs else forwarded s cs)
      | _ \<Rightarrow> forwarded s cs)"

lemma forwarded_append [simp]: "forwarded s (xs @ ys) = forwarded s xs @ forwarded s ys"
  by (induction xs) (auto split: call.splits)

section \<open>Runs of loops\<close>

lemma calls_Nil [simp]: "calls (trace p []) = []"
  by (induction p) (auto simp: trace_def split: prod.splits)

lemma trace_recv [simp]:
  "nat n \<le> length b \<Longrightarrow> trace (recv_into fd b n k) (a # as) =
     Did (Recv fd n) a # trace (k (overwrite b (got n a)) (ret a)) as"
  "nat n \<le> length b \<Longrightarrow> trace (read_into fd b n k) (a # as) =
     Did (Read fd n) a # trace (k (overwrite b (got n a)) (ret a)) as"
  by (simp_all add: recv_into_def read_into_def)

lemma final_recv [simp]:
  "nat n \<le> length b \<Longrightarrow> final_of (recv_into fd b n k) (a # as) =
     final_of (k (overwrite b (got n a)) (ret a)) as"
  "nat n \<le> length b \<Longrightarrow> final_of (read_into fd b n k) (a # as) =
     final_of (k (overwrite b (got n a)) (ret a)) as"
  by (simp_all add: recv_into_def read_into_def)

lemma trace_send_int [simp]:
  "length (dec i) < length b \<Longrightarrow> trace (send_int fd b i n k) (a # as) =
     Did (Send fd (overwrite b (lit (dec i))) n) a # trace (k (overwrite b (lit (dec i)))) as"
  by (simp add: send_int_def)

lemma always_recv:
  assumes "nat n \<le> length b" "\<And>b' r. length b' = length b \<Longrightarrow> always P (k b' r)"
  shows "P (Recv fd n) \<Longrightarrow> always P (recv_into fd b n k)" "P (Read fd n) \<Longrightarrow> always P (read_into fd b n k)"
proof -
  have "length (got n a) \<le> length b" for a using length_got [of n a] assms(1) by linarith
  then have "length (overwrite b (got n a)) = length b" for a by (simp add: length_overwrite)
  then show "P (Recv fd n) \<Longrightarrow> always P (recv_into fd b n k)" "P (Read fd n) \<Longrightarrow> always P (read_into fd b n k)"
    using assms by (simp_all add: recv_into_def read_into_def)
qed

text \<open>A loop whose turns make one call each, and one whose turns print a line before it.\<close>

lemma trace_each_call:
  assumes "\<And>x s k. body x s k = Call (c x) (\<lambda>_. k s)"
  shows "length as = length xs \<Longrightarrow>
    trace (for_each xs body s k) (as @ bs) = map2 Did (map c xs) as @ trace (k s) bs"
proof (induction xs arbitrary: as)
  case (Cons x xs)
  then show ?case by (cases as) (simp_all add: assms)
qed simp

lemma trace_each_line:
  assumes "\<And>x s k. body x s k = Out (out x) (Call (c x) (\<lambda>_. k s))"
  shows "length as = length xs \<Longrightarrow>
    calls (trace (for_each xs body s k) (as @ bs)) = map c xs @ calls (trace (k s) bs)"
proof (induction xs arbitrary: as)
  case (Cons x xs)
  then show ?case by (cases as) (simp_all add: assms)
qed simp

lemma calls_map2 [simp]: "length as = length cs \<Longrightarrow> calls (map2 Did cs as) = cs"
proof (induction cs arbitrary: as)
  case (Cons c cs)
  then show ?case by (cases as) auto
qed simp

lemma printed_map2 [simp]: "printed (map2 Did cs as) = []"
  by (induction cs as rule: list_induct2') auto

text \<open>A loop that has made n turns.\<close>

lemma forever_turns:
  "forever (length xs + m) body = (\<lambda>s. for_each xs (\<lambda>_. body) s (forever m body))"
proof (induction xs)
  case (Cons x xs)
  show ?case by (rule ext) (simp add: Cons.IH)
qed simp

lemma forever_add: "forever (n + m) body s = for_each [0..<n] (\<lambda>_. body) s (forever m body)"
  using forever_turns [of "[0..<n]" m body] by simp

text \<open>The loop over the first count elements of an array.\<close>

definition over_array :: "int \<Rightarrow> 'a list \<Rightarrow> ('a \<Rightarrow> 's \<Rightarrow> ('s \<Rightarrow> prog) \<Rightarrow> prog) \<Rightarrow> 's \<Rightarrow> ('s \<Rightarrow> prog) \<Rightarrow> prog" where
  "over_array count arr body s k =
     for_each [0..<nat count] (\<lambda>i s k. arr_get arr (int i) (\<lambda>x. body x s k)) s k"

lemma over_from:
  "i + n \<le> length arr \<Longrightarrow> for_each [i..<i + n] (\<lambda>i s k. arr_get arr (int i) (\<lambda>x. body x s k)) s k =
    for_each (take n (drop i arr)) body s k"
proof (induction n arbitrary: i s)
  case (Suc n)
  have upt: "[i..<i + Suc n] = i # [Suc i..<Suc i + n]" by (subst upt_Suc_Cons) simp_all
  have "take (Suc n) (drop i arr) = arr ! i # take n (drop (Suc i) arr)"
    using Suc.prems by (simp add: Cons_nth_drop_Suc [symmetric])
  with Suc.IH [of "Suc i"] Suc.prems show ?case unfolding upt by (simp del: upt_Suc)
qed simp

lemma over_array_take:
  "count \<le> int (length arr) \<Longrightarrow> over_array count arr body s k = for_each (take (nat count) arr) body s k"
  using over_from [of 0 "nat count" arr body s k] by (simp add: over_array_def)

end
