(* ===== verification/CN_Sniffer.thy ===== *)
theory CN_Sniffer imports CN_Checksum CN_Sockets begin

text \<open>
  The raw socket programs that receive: rawsockets/basic/newclient.c logs every UDP packet with
  its headers and a hexadecimal dump, raw1 and raw2 exchange messages under protocols of their
  own, train sends announcements, and socket_bind.c and print_header.c send what is typed. A
  packet is the list of its bytes; the IP header is read where struct iphdr has its fields.
\<close>

section \<open>Reading an IP header\<close>

definition net_word :: "string \<Rightarrow> nat \<Rightarrow> nat" where
  "net_word b i = 256 * val8 (b ! i) + val8 (b ! (i + 1))"

definition iph_version :: "string \<Rightarrow> nat" where
  "iph_version b = val8 (b ! 0) div 16"

definition iph_ihl :: "string \<Rightarrow> nat" where
  "iph_ihl b = val8 (b ! 0) mod 16"

definition inet_ntoa :: "string \<Rightarrow> string" where
  "inet_ntoa a = dec (int (val8 (a ! 0))) @ ''.'' @ dec (int (val8 (a ! 1))) @ ''.'' @
     dec (int (val8 (a ! 2))) @ ''.'' @ dec (int (val8 (a ! 3)))"

definition decn :: "nat \<Rightarrow> string" where
  "decn n = dec (int n)"

section \<open>The sniffer: newclient.c\<close>

text \<open>A line of the log; the stream is null when the file could not be opened.\<close>

definition flog :: "int \<Rightarrow> string \<Rightarrow> prog \<Rightarrow> prog" where
  "flog f s k = (if f = 0 then Undef else Call (Fprintf f s) (\<lambda>_. k))"

definition flogs :: "int \<Rightarrow> string list \<Rightarrow> prog \<Rightarrow> prog" where
  "flogs f ss k = for_each ss (\<lambda>s _ k. flog f s (k ())) () (\<lambda>_. k)"

definition ip_header_lines :: "string \<Rightarrow> string list" where
  "ip_header_lines b =
     [[newline], line ''IP Header'',
      line (''   |-IP Version        : '' @ decn (iph_version b)),
      line (''   |-IP Header Length  : '' @ decn (iph_ihl b) @ '' DWORDS or '' @ decn (iph_ihl b * 4) @ '' Bytes''),
      line (''   |-Type Of Service   : '' @ decn (val8 (b ! 1))),
      line (''   |-IP Total Length   : '' @ decn (net_word b 2) @ ''  Bytes(Size of Packet)''),
      line (''   |-Identification    : '' @ decn (net_word b 4)),
      line (''   |-TTL      : '' @ decn (val8 (b ! 8))),
      line (''   |-Protocol : '' @ decn (val8 (b ! 9))),
      line (''   |-Checksum : '' @ decn (net_word b 10)),
      line (''   |-Source IP        : '' @ inet_ntoa (take 4 (drop 12 b))),
      line (''   |-Destination IP   : '' @ inet_ntoa (take 4 (drop 16 b)))]"

definition print_ip_header :: "int \<Rightarrow> string \<Rightarrow> prog \<Rightarrow> prog" where
  "print_ip_header f b k = flogs f (ip_header_lines b) k"

text \<open>%02X, and the character or a dot.\<close>

definition hex_digit :: "nat \<Rightarrow> char" where
  "hex_digit n = (if n < 10 then digit_char n else char_of (55 + n))"

definition hex2 :: "char \<Rightarrow> string" where
  "hex2 c = [hex_digit (val8 c div 16), hex_digit (val8 c mod 16)]"

definition shown :: "char \<Rightarrow> char" where
  "shown c = (if 32 \<le> val8 c \<and> val8 c \<le> 128 then c else CHR ''.'')"

definition blanks :: "nat \<Rightarrow> string" where
  "blanks n = replicate n CHR '' ''"

definition print_chars :: "int \<Rightarrow> string \<Rightarrow> nat \<Rightarrow> nat \<Rightarrow> prog \<Rightarrow> prog" where
  "print_chars f data a b k =
     for_each [a..<b] (\<lambda>j _ k. arr_get data (int j) (\<lambda>c. flog f [shown c] (k ()))) () (\<lambda>_. k)"

definition dump_end :: "int \<Rightarrow> string \<Rightarrow> nat \<Rightarrow> prog \<Rightarrow> prog" where
  "dump_end f data i k =
     flogs f (replicate (15 - i mod 16) (blanks 3)) (
     flog f (blanks 9) (print_chars f data (i - i mod 16) (i + 1) (flog f [newline] k)))"

definition dump_byte :: "int \<Rightarrow> string \<Rightarrow> int \<Rightarrow> nat \<Rightarrow> prog \<Rightarrow> prog" where
  "dump_byte f data sz i k =
     (let hex = arr_get data (int i) (\<lambda>c. flog f (CHR '' '' # hex2 c)
        (if int i = sz - 1 then dump_end f data i k else k))
      in if i mod 16 = 0 then flog f (blanks 3) hex else hex)"

definition dump_turn :: "int \<Rightarrow> string \<Rightarrow> int \<Rightarrow> nat \<Rightarrow> unit \<Rightarrow> (unit \<Rightarrow> prog) \<Rightarrow> prog" where
  "dump_turn f data sz i u k =
     (if i \<noteq> 0 \<and> i mod 16 = 0
      then flog f (blanks 9) (print_chars f data (i - 16) i (flog f [newline] (dump_byte f data sz i (k ()))))
      else dump_byte f data sz i (k ()))"

definition PrintData :: "int \<Rightarrow> string \<Rightarrow> int \<Rightarrow> prog \<Rightarrow> prog" where
  "PrintData f data sz k = for_each [0..<nat sz] (dump_turn f data sz) () (\<lambda>_. k)"

text \<open>sizeof udph is the size of a pointer, 8, which is also that of the header.\<close>

definition print_udp_packet :: "int \<Rightarrow> string \<Rightarrow> int \<Rightarrow> prog \<Rightarrow> prog" where
  "print_udp_packet f b sz k =
     (let iphdrlen = 4 * iph_ihl b; u = drop iphdrlen b in
     flog f ([newline, newline] @ line ''***********************UDP Packet*************************'') (
     print_ip_header f b (
     flogs f
       [newline # line ''UDP Header'',
        line (''   |-Source Port      : '' @ decn (net_word u 0)),
        line (''   |-Destination Port : '' @ decn (net_word u 2)),
        line (''   |-UDP Length       : '' @ decn (net_word u 4)),
        line (''   |-UDP Checksum     : '' @ decn (net_word u 6)),
        [newline], line ''IP Header''] (
     PrintData f b (int iphdrlen) (
     flog f (line ''UDP Header'') (
     PrintData f u 8 (
     flog f (line ''Data Payload'') (
     PrintData f (drop 8 u) (sz - 8 - int iphdrlen) (
     flog f (newline # ''###########################################################'') k)))))))))"

definition ProcessPacket :: "int \<Rightarrow> string \<Rightarrow> int \<Rightarrow> prog \<Rightarrow> prog" where
  "ProcessPacket f b sz k =
     (if val8 (b ! 9) = 17 then print_udp_packet f b sz k else print_ip_header f b k)"

definition sniffer_turn :: "int \<Rightarrow> int \<Rightarrow> string \<Rightarrow> (string \<Rightarrow> prog) \<Rightarrow> prog" where
  "sniffer_turn f sock buffer again =
     Call (Recvfrom sock 65536) (\<lambda>a.
     store 65536 buffer a (\<lambda>buffer.
     if ret a < 0 then Out (line ''Recvfrom error , failed to get packets'') (Exit 1)
     else ProcessPacket f buffer (ret a) (again buffer)))"

definition sniffer_main :: "nat \<Rightarrow> string \<Rightarrow> prog" where
  "sniffer_main n buffer =
     Call (Fopen ''log.txt'') (\<lambda>l. let f = ret l;
       start = Out (line ''Starting...'') (
         Call (Socket AF_INET SOCK_RAW 17) (\<lambda>s.
         if ret s < 0 then Perror ''socket:'' (Out (line ''Socket Error'') (Exit 1))
         else forever n (sniffer_turn f (ret s)) buffer))
     in if f = 0 then Out ''Unable to create file.'' start else start)"

section \<open>Programs that send raw datagrams\<close>

text \<open>The fields of struct iphdr with version 4 and five words, as the senders fill them in.\<close>

definition make_iphdr :: "nat \<Rightarrow> nat \<Rightarrow> string \<Rightarrow> string \<Rightarrow> nat \<Rightarrow> nat \<Rightarrow> string \<Rightarrow> string \<Rightarrow> string \<Rightarrow> string" where
  "make_iphdr tos tot_len id_field frag ttl protocol check src dst =
     [byte 69, byte tos] @ net16 tot_len @ id_field @ frag @ [byte ttl, byte protocol] @ check @ src @ dst"

text \<open>error_func, which exits with the value that was the error.\<close>

definition exit_val :: "int \<Rightarrow> string \<Rightarrow> prog \<Rightarrow> prog" where
  "exit_val v message k = (if v < 0 then Perror message (Exit v) else k)"

definition or_exit_val :: "call \<Rightarrow> string \<Rightarrow> (int \<Rightarrow> prog) \<Rightarrow> prog" where
  "or_exit_val c message k = Call c (\<lambda>a. exit_val (ret a) message (k (ret a)))"

text \<open>
  raw1/server.c: strcpy into 100 bytes of malloc, of which sizeof(msg), the size of the pointer,
  are sent.
\<close>

definition raw1_server_turn :: "string \<Rightarrow> int \<Rightarrow> int \<Rightarrow> (int \<Rightarrow> prog) \<Rightarrow> prog" where
  "raw1_server_turn junk sfd tmp again =
     Out (line ''Enter'') (scan_int tmp (\<lambda>tmp.
     put_str junk ''Hello'' (\<lambda>msg.
     or_exit_val (Sendto sfd msg 8 (any_addr 8000)) ''Failed to send message'' (\<lambda>_. again tmp))))"

definition raw1_server_main :: "nat \<Rightarrow> string \<Rightarrow> int \<Rightarrow> prog" where
  "raw1_server_main n junk tmp =
     or_exit_val (Socket AF_INET SOCK_RAW 100) ''Failed to create raw socket'' (\<lambda>sfd.
     or_exit_val (Bind sfd (any_addr 8000)) ''Failed to bind.'' (\<lambda>_.
     forever n (raw1_server_turn junk sfd) tmp))"

text \<open>raw1/client.c prints what follows the IP header, first as a string, then as an IP header.\<close>

definition raw1_header_lines :: "string \<Rightarrow> string list" where
  "raw1_header_lines b =
     [[newline], line ''IP Header'',
      line (''   |-IP Version        : '' @ decn (iph_version b)),
      line (''   |-IP Header Length  : '' @ decn (iph_ihl b) @ '' DWORDS or '' @ decn (iph_ihl b * 4) @ '' Bytes''),
      line (''   |-Type Of Service   : '' @ decn (val8 (b ! 1))),
      line (''   |-IP Total Length   : '' @ decn (net_word b 2) @ ''  Bytes(Size of Packet)''),
      line (''   |-Identification    : '' @ decn (net_word b 4)),
      line (''   |-Fragment Offset  : '' @ decn (word_le (b ! 6) (b ! 7))),
      line (''   |-TTL      : '' @ decn (val8 (b ! 8))),
      line (''   |-Protocol : '' @ decn (val8 (b ! 9))),
      line (''   |-Checksum : '' @ decn (net_word b 10)),
      ''   |-Source IP        :'', line (inet_ntoa (take 4 (drop 12 b))),
      ''   |-Destination IP   :'', line (inet_ntoa (take 4 (drop 16 b)))]"

definition outs :: "string list \<Rightarrow> prog \<Rightarrow> prog" where
  "outs ss k = for_each ss (\<lambda>s _ k. Out s (k ())) () (\<lambda>_. k)"

definition raw1_client_turn :: "int \<Rightarrow> string \<Rightarrow> (string \<Rightarrow> prog) \<Rightarrow> prog" where
  "raw1_client_turn sfd msg again =
     Out (line ''Waiting to receive message'') (
     Call (Recvfrom sfd 100) (\<lambda>a. store 100 msg a (\<lambda>msg.
     exit_val (ret a) ''Failed to receive'' (
     let msg = overwrite msg (take 80 (drop 20 msg)) in
     Out (line (c_str msg)) (outs (raw1_header_lines msg) (again (zeros 100)))))))"

definition raw1_client_main :: "nat \<Rightarrow> string \<Rightarrow> prog" where
  "raw1_client_main n msg =
     or_exit_val (Socket AF_INET SOCK_RAW 100) ''Failed to create raw socket'' (\<lambda>sfd.
     forever n (raw1_client_turn sfd) msg)"

text \<open>raw2: a header and the message; the whole buffer is sent.\<close>

definition raw2_packet :: "string \<Rightarrow> string" where
  "raw2_packet buf =
     overwrite (zeros 1024)
       (make_iphdr 0 (20 + length (c_str buf)) (zeros 2) (zeros 2) 8 101 (zeros 2)
          (inet_addr ''127.0.1.1'') (inet_addr ''127.0.0.1'') @ lit (c_str buf))"

definition raw2_client_main :: prog where
  "raw2_client_main =
     Call (Socket AF_INET SOCK_RAW 101) (\<lambda>s. let sfd = ret s in
     if sfd < 0 then Perror ''socket'' (Exit 0) else (
     Call (Setsockopt sfd IP_HDRINCL) (\<lambda>_.
     Out ''Enter Message:'' (
     Call Scanf_str (\<lambda>a. put_str (zeros 128) (dat a) (\<lambda>buf.
     Call (Sendto sfd (raw2_packet buf) 1024 (any_addr 0)) (\<lambda>r.
     if ret r < 0 then Perror ''sendto() '' (Exit 0) else Exit 0)))))))"

definition raw2_server_turn :: "int \<Rightarrow> string \<Rightarrow> (string \<Rightarrow> prog) \<Rightarrow> prog" where
  "raw2_server_turn sfd buffer again =
     Call (Recvfrom sfd 1024) (\<lambda>a. store 1024 buffer a (\<lambda>buffer.
     Out (CHR 0x09 # line ''Message'' @ '' '' @ line (c_str (drop (4 * iph_ihl buffer) buffer))) (again buffer)))"

definition raw2_server_main :: "nat \<Rightarrow> string \<Rightarrow> prog" where
  "raw2_server_main n buffer =
     Call (Socket AF_INET SOCK_RAW 101) (\<lambda>s.
     Call (Setsockopt (ret s) IP_HDRINCL) (\<lambda>_. forever n (raw2_server_turn (ret s)) buffer))"

text \<open>train/server.c: up to three announcements, each over a socket and a protocol of its own.\<close>

definition train_turn :: "string \<Rightarrow> nat \<Rightarrow> int \<Rightarrow> (int \<Rightarrow> prog) \<Rightarrow> prog" where
  "train_turn junk i to_send k =
     Out (line ''Enter 1 to send. 0 to stop'') (scan_int to_send (\<lambda>to_send.
     if to_send = 0 then Exit 0 else
     or_exit_val (Socket AF_INET SOCK_RAW (100 + int i)) ''Failed to create raw socket'' (\<lambda>sfd.
     or_exit_val (Bind sfd (any_addr (8000 + int i))) ''Failed to bind.'' (\<lambda>_.
     put_str junk ''Hello world.'' (\<lambda>msg.
     or_exit_val (Sendto sfd msg 8 (any_addr (8000 + int i))) ''Failed to send message'' (\<lambda>_. k to_send))))))"

definition train_server_main :: "string \<Rightarrow> prog" where
  "train_server_main junk = for_each [0..<3] (train_turn junk) 0 (\<lambda>_. Exit 0)"

text \<open>train/client.c: after each message the first sizeof(msg) bytes are cleared, eight of them.\<close>

definition train_client_turn :: "int \<Rightarrow> string \<Rightarrow> (string \<Rightarrow> prog) \<Rightarrow> prog" where
  "train_client_turn sfd msg again =
     Out (line ''Waiting to receive message'') (
     Call (Recvfrom sfd 100) (\<lambda>a. store 100 msg a (\<lambda>msg.
     exit_val (ret a) ''Failed to receive'' (
     Out (line (c_str msg)) (again (overwrite msg (zeros 8)))))))"

definition train_client_main :: "nat \<Rightarrow> string \<Rightarrow> prog" where
  "train_client_main n msg =
     or_exit_val (Socket AF_INET SOCK_RAW 100) ''Failed to create raw socket'' (\<lambda>sfd.
     forever n (train_client_turn sfd) msg)"

text \<open>
  socket_bind.c and print_header.c: a packet of fifty bytes filled with the letter A behind a
  header; the option is set on the variable of the socket before it has a value. The parent
  sends what is typed, the child prints what arrives. print_header.c connects the socket too.
\<close>

definition bind_packet :: string where
  "bind_packet = overwrite (replicate 50 CHR ''A'')
     (make_iphdr 0 40 ''AA'' (zeros 2) 64 255 (zeros 2) (zeros 4) (zeros 4))"

definition bind_parent_turn :: "int \<Rightarrow> string \<Rightarrow> (string \<Rightarrow> prog) \<Rightarrow> prog" where
  "bind_parent_turn s packet again =
     Call (Sleep 1) (\<lambda>_. Call Scanf_str (\<lambda>a.
     put_str (drop 20 packet) (dat a) (\<lambda>payload.
     let packet = take 20 packet @ payload in
     Call (Sendto s packet 50 (any_addr 0)) (\<lambda>r.
     error_perror_exit (ret r) ''packet send error:'' (again packet)))))"

definition bind_child_turn :: "int \<Rightarrow> string \<Rightarrow> (string \<Rightarrow> prog) \<Rightarrow> prog" where
  "bind_child_turn s packet again =
     Call (Sleep 1) (\<lambda>_. Call (Recvfrom s 50) (\<lambda>r. store 50 packet r (\<lambda>packet.
     error_perror_exit (ret r) ''packet send error:'' (
     for_each [20..<50] (\<lambda>i _ k. arr_get packet (int i) (\<lambda>c. Call (Fprintf 2 [c]) (\<lambda>_. k ()))) () (\<lambda>_.
     Out [newline] (again packet))))))"

definition bind_main :: "bool \<Rightarrow> nat \<Rightarrow> int \<Rightarrow> prog" where
  "bind_main connects n s0 =
     Call (Setsockopt s0 IP_HDRINCL) (\<lambda>_.
     Call (Socket AF_INET SOCK_RAW 255) (\<lambda>s. let s = ret s in
     if s < 0 then Perror ''error:'' (Exit 1) else
     checked (Bind s (any_addr 0)) ''ERROR on binding'' (\<lambda>_.
     let start = Call Fork (\<lambda>c.
       if 0 < ret c then forever n (bind_parent_turn s) bind_packet
       else forever n (bind_child_turn s) bind_packet)
     in if connects then checked (Connect s (any_addr 0)) ''ERROR on Connect'' (\<lambda>_. start) else start)))"

definition socket_bind_main :: "nat \<Rightarrow> int \<Rightarrow> prog" where
  "socket_bind_main n s0 = bind_main False n s0"

definition print_header_main :: "nat \<Rightarrow> int \<Rightarrow> prog" where
  "print_header_main n s0 = bind_main True n s0"

section \<open>The dump and its specification\<close>

text \<open>What a run has written to a stream.\<close>

fun logged :: "int \<Rightarrow> call list \<Rightarrow> string" where
  "logged f [] = []"
| "logged f (c # cs) = (case c of Fprintf g s \<Rightarrow> (if g = f then s @ logged f cs else logged f cs)
    | _ \<Rightarrow> logged f cs)"

text \<open>
  The specification: rows of sixteen bytes, each with an indentation, the bytes in hexadecimal,
  blanks in the place of the bytes that are missing in the last row, and the characters.
\<close>

definition dump_row :: "string \<Rightarrow> string" where
  "dump_row r = blanks 3 @ concat (map (\<lambda>c. CHR '' '' # hex2 c) r) @ blanks (3 * (16 - length r)) @
     blanks 9 @ map shown r @ [newline]"

fun hexdump :: "string \<Rightarrow> string" where
  "hexdump d = (if d = [] then [] else dump_row (take 16 d) @ hexdump (drop 16 d))"

declare hexdump.simps [simp del]

text \<open>A program that writes a text to a stream, whatever the pieces, and goes on.\<close>

definition writes :: "int \<Rightarrow> prog \<Rightarrow> string \<Rightarrow> prog \<Rightarrow> bool" where
  "writes f p s q = (\<exists>ss. p = flogs f ss q \<and> concat ss = s)"

lemma flogs_simps [simp]: "flogs f [] k = k" "flogs f (s # ss) k = flog f s (flogs f ss k)"
  by (simp_all add: flogs_def)

lemma flogs_append: "flogs f (ss @ ts) k = flogs f ss (flogs f ts k)"
  by (induction ss) simp_all

lemma writes_flogs: "writes f (flogs f ss q) (concat ss) q"
  by (auto simp: writes_def)

lemma writes_Nil [simp]: "writes f q [] q"
  using writes_flogs [of f "[]" q] by simp

lemma writes_flog: "writes f p s q \<Longrightarrow> writes f (flog f x p) (x @ s) q"
  unfolding writes_def by (metis flogs_simps(2) concat.simps(2))

lemma writes_trans: "writes f p s q \<Longrightarrow> writes f q t r \<Longrightarrow> writes f p (s @ t) r"
  unfolding writes_def by (metis flogs_append concat_append)

lemma for_each_append: "for_each (xs @ ys) body s k = for_each xs body s (\<lambda>s. for_each ys body s k)"
  by (induction xs arbitrary: s) simp_all

lemma print_chars_writes:
  "a \<le> b \<Longrightarrow> b \<le> length d \<Longrightarrow> writes f (print_chars f d a b k) (map shown (drop a (take b d))) k"
proof (induction "b - a" arbitrary: a)
  case 0
  then show ?case by (simp add: print_chars_def)
next
  case (Suc m)
  then have a: "a < b" "[a..<b] = a # [Suc a..<b]" by (auto simp: upt_rec)
  then have "drop a (take b d) = d ! a # drop (Suc a) (take b d)"
    using Suc.prems by (simp add: Cons_nth_drop_Suc [symmetric])
  moreover have "writes f (print_chars f d (Suc a) b k) (map shown (drop (Suc a) (take b d))) k"
    using Suc.hyps(1) [of "Suc a"] Suc.hyps(2) Suc.prems a by simp
  ultimately show ?case
    using writes_flog [of f "print_chars f d (Suc a) b k" _ k "[shown (d ! a)]"] a Suc.prems
    by (simp add: print_chars_def)
qed

lemma hexdump_rows:
  "length xs = 16 * m \<Longrightarrow> r \<noteq> [] \<Longrightarrow> length r \<le> 16 \<Longrightarrow> hexdump (xs @ r) = hexdump xs @ dump_row r"
proof (induction m arbitrary: xs)
  case 0
  then show ?case by (simp add: hexdump.simps)
next
  case (Suc m)
  then have "length (drop 16 xs) = 16 * m" "xs \<noteq> []" by auto
  with Suc show ?case by (subst (1 2) hexdump.simps) simp
qed

text \<open>What has been written before byte i, which is not the first.\<close>

definition before :: "string \<Rightarrow> nat \<Rightarrow> string" where
  "before d i = (let b = 16 * ((i - 1) div 16) in
     hexdump (take b d) @ blanks 3 @ concat (map (\<lambda>c. CHR '' '' # hex2 c) (drop b (take i d))))"

lemma before_step:
  assumes "0 < i" "i < length d"
  shows "before d (Suc i) = before d i @
    (if i mod 16 = 0 then blanks 9 @ map shown (drop (i - 16) (take i d)) @ [newline] @ blanks 3 else []) @
    CHR '' '' # hex2 (d ! i)"
proof (cases "i mod 16 = 0")
  case True
  define b where "b = i - 16"
  from True obtain m where "i = 16 * m" by auto
  with assms(1) obtain m' where m': "i = 16 * m' + 16" by (cases m) auto
  then have b: "i = b + 16" "16 * ((i - 1) div 16) = b" "16 * ((Suc i - 1) div 16) = i"
    by (simp_all add: b_def)
  let ?r = "drop b (take i d)"
  have r: "length ?r = 16" using assms b(1) by simp
  have "length (take b d) = 16 * m'" using assms(2) m' by (simp add: b_def)
  from hexdump_rows [OF this, of ?r] r have "hexdump (take b d @ ?r) = hexdump (take b d) @ dump_row ?r"
    by fastforce
  moreover have "take b (take i d) = take b d" using b(1) by (simp add: min_def)
  then have "take b d @ ?r = take i d" by (metis append_take_drop_id)
  moreover have "drop i (take (Suc i) d) = [d ! i]" using assms by (simp add: take_Suc_conv_app_nth)
  ultimately show ?thesis
    using True assms r unfolding before_def b(2,3) Let_def b_def [symmetric] by (simp add: dump_row_def blanks_def)
next
  case False
  then have "(i - 1) div 16 = i div 16" by (cases i) (simp_all add: div_Suc)
  moreover have "drop (16 * (i div 16)) (take (Suc i) d) = drop (16 * (i div 16)) (take i d) @ [d ! i]"
    using assms by (simp add: take_Suc_conv_app_nth)
  ultimately show ?thesis using False by (simp add: before_def Let_def)
qed

lemma before_first: "d \<noteq> [] \<Longrightarrow> before d 1 = blanks 3 @ CHR '' '' # hex2 (d ! 0)"
  by (cases d) (simp_all add: before_def hexdump.simps)

lemma hexdump_before:
  assumes "0 < length d"
  shows "hexdump d = before d (length d) @ blanks (3 * (15 - (length d - 1) mod 16)) @ blanks 9 @
    map shown (drop ((length d - 1) - (length d - 1) mod 16) d) @ [newline]"
proof -
  let ?b = "16 * ((length d - 1) div 16)"
  have b: "length d - 1 - (length d - 1) mod 16 = ?b" by (simp add: minus_mod_eq_mult_div)
  obtain n where n: "length d = Suc n" using assms by (cases "length d") auto
  have m: "length d - ?b = Suc ((length d - 1) mod 16)"
    by (simp add: n Suc_diff_le minus_mult_div_eq_mod)
  have "hexdump d = hexdump (take ?b d) @ dump_row (drop ?b d)"
    using hexdump_rows [of "take ?b d" "(length d - 1) div 16" "drop ?b d"] m
    by simp
  with b m show ?thesis by (simp add: before_def dump_row_def Let_def)
qed

definition row_end :: "string \<Rightarrow> nat \<Rightarrow> string" where
  "row_end d i = blanks (3 * (15 - i mod 16)) @ blanks 9 @ map shown (drop (i - i mod 16) d) @ [newline]"

lemma concat_blanks: "concat (replicate m (blanks 3)) = blanks (3 * m)"
  by (induction m) (simp_all add: blanks_def replicate_add [symmetric])

lemma turn_writes:
  assumes "i < n" "n \<le> length d"
  shows "writes f (dump_turn f d (int n) i u k)
    ((if i \<noteq> 0 \<and> i mod 16 = 0 then blanks 9 @ map shown (drop (i - 16) (take i d)) @ [newline] else []) @
     (if i mod 16 = 0 then blanks 3 else []) @ (CHR '' '' # hex2 (d ! i)) @
     (if Suc i = n then row_end (take n d) i else [])) (k ())"
proof -
  have nl: "writes f (flog f [newline] p) [newline] p" for p
    using writes_flog [of f p "[]" p] by simp
  have "writes f (dump_end f d i (k ())) (row_end (take n d) i) (k ())" if "Suc i = n"
    unfolding row_end_def dump_end_def concat_blanks [symmetric]
    by (rule writes_trans [OF writes_flogs writes_flog [OF writes_trans [OF _ nl]]])
      (use print_chars_writes [of "i - i mod 16" "i + 1" d f] assms that in simp)
  then have "writes f (if int i = int n - 1 then dump_end f d i (k ()) else k ())
      (if Suc i = n then row_end (take n d) i else []) (k ())" by auto
  from writes_flog [OF this, of "CHR '' '' # hex2 (d ! i)"]
  have byte: "writes f (dump_byte f d (int n) i (k ()))
      ((if i mod 16 = 0 then blanks 3 else []) @ (CHR '' '' # hex2 (d ! i)) @
       (if Suc i = n then row_end (take n d) i else [])) (k ())"
    using assms writes_flog [of f _ _ "k ()" "blanks 3"] by (simp add: dump_byte_def Let_def)
  have chars: "writes f (flog f (blanks 9) (print_chars f d (i - 16) i (flog f [newline] p)))
      (blanks 9 @ map shown (drop (i - 16) (take i d)) @ [newline]) p" for p
    by (rule writes_flog [OF writes_trans [OF print_chars_writes nl]]) (use assms in simp_all)
  show ?thesis
  proof (cases "i \<noteq> 0 \<and> i mod 16 = 0")
    case True
    with writes_trans [OF chars byte] show ?thesis by (simp add: dump_turn_def)
  next
    case False
    with byte show ?thesis by (auto simp: dump_turn_def)
  qed
qed

lemma before_turn:
  assumes "i < n" "n \<le> length d"
  shows "(if i = 0 then [] else before (take n d) i) @
    (if i \<noteq> 0 \<and> i mod 16 = 0 then blanks 9 @ map shown (drop (i - 16) (take i d)) @ [newline] else []) @
     (if i mod 16 = 0 then blanks 3 else []) @ (CHR '' '' # hex2 (d ! i)) = before (take n d) (Suc i)"
proof -
  have "take i (take n d) = take i d" using assms by (simp add: min_def)
  then show ?thesis
    using before_step [of i "take n d"] before_first [of "take n d"] assms by (cases "i = 0"; cases d) auto
qed

lemma dump_writes:
  "i < n \<Longrightarrow> n \<le> length d \<Longrightarrow> writes f (for_each [0..<i] (dump_turn f d (int n)) () (\<lambda>_. q))
    (if i = 0 then [] else before (take n d) i) q"
proof (induction i arbitrary: q)
  case (Suc i)
  from writes_trans [OF Suc.IH turn_writes [of i n d f "()" "\<lambda>_. q"]] Suc.prems
  show ?case using before_turn [of i n d] by (simp add: for_each_append)
qed simp

section \<open>What the sniffer logs\<close>

text \<open>
  C24. PrintData writes the hexadecimal dump of the first n bytes of its data, as
  the specification has it row by row, and goes on: it is the sequence of fprintf calls of some
  strings whose concatenation is the dump.
\<close>

theorem dump_is_hexdump:
  assumes "n \<le> length data"
  shows "\<exists>ss. PrintData f data (int n) k = flogs f ss k \<and> concat ss = hexdump (take n data)"
proof (cases n)
  case 0
  then show ?thesis by (intro exI [of _ "[]"]) (simp add: PrintData_def hexdump.simps)
next
  case (Suc m)
  let ?d = "take n data" and ?turn = "dump_turn f data (int n)"
  have n: "[0..<n] = [0..<m] @ [m]" using Suc by simp
  have "writes f (for_each [0..<m] ?turn () (\<lambda>_. ?turn m () (\<lambda>_. k)))
     ((if m = 0 then [] else before ?d m) @
      (if m \<noteq> 0 \<and> m mod 16 = 0 then blanks 9 @ map shown (drop (m - 16) (take m data)) @ [newline] else []) @
      (if m mod 16 = 0 then blanks 3 else []) @ (CHR '' '' # hex2 (data ! m)) @
      (if Suc m = n then row_end ?d m else [])) k"
    by (rule writes_trans [OF dump_writes turn_writes]) (use assms Suc in simp_all)
  also have "(if m = 0 then [] else before ?d m) @
      (if m \<noteq> 0 \<and> m mod 16 = 0 then blanks 9 @ map shown (drop (m - 16) (take m data)) @ [newline] else []) @
      (if m mod 16 = 0 then blanks 3 else []) @ (CHR '' '' # hex2 (data ! m)) @
      (if Suc m = n then row_end ?d m else []) = before ?d n @ row_end ?d m"
    using before_turn [of m n data] assms Suc by simp
  also have "before ?d n @ row_end ?d m = hexdump ?d"
    using hexdump_before [of ?d] assms Suc by (simp add: row_end_def)
  finally have "writes f (PrintData f data (int n) k) (hexdump ?d) k"
    by (simp add: PrintData_def n for_each_append)
  then show ?thesis by (simp add: writes_def)
qed

theorem dump_is_hexdump_witness:
  "\<exists>ss. PrintData 5 ''AB'' 2 (Exit 0) = flogs 5 ss (Exit 0) \<and>
    concat ss = ''    41 42'' @ replicate 51 CHR '' '' @ ''AB'' @ [newline]"
proof -
  have "hexdump ''AB'' = ''    41 42'' @ replicate 51 CHR '' '' @ ''AB'' @ [newline]" by code_simp
  then show ?thesis using dump_is_hexdump [of 2 "''AB''" 5 "Exit 0"] by simp
qed

text \<open>
  C35. What the sniffer logs of a packet are the values its sender put into
  the header: for every header with version 4 and five words the twelve lines show the fields,
  the shorts in host order and the addresses as dotted quads.
\<close>

theorem sniffer_shows_fields:
  assumes "tos < 256" "ttl < 256" "protocol < 256" "tot_len < 65536" "ident < 65536" "check < 65536"
    and "length frag = 2" "list_all (\<lambda>x. x < 256) src" "length src = 4" "list_all (\<lambda>x. x < 256) dst" "length dst = 4"
  shows "ip_header_lines (make_iphdr tos tot_len (net16 ident) frag ttl protocol (net16 check)
      (map byte src) (map byte dst) @ payload) =
    [[newline], line ''IP Header'', line ''   |-IP Version        : 4'',
     line ''   |-IP Header Length  : 5 DWORDS or 20 Bytes'',
     line (''   |-Type Of Service   : '' @ decn tos),
     line (''   |-IP Total Length   : '' @ decn tot_len @ ''  Bytes(Size of Packet)''),
     line (''   |-Identification    : '' @ decn ident),
     line (''   |-TTL      : '' @ decn ttl), line (''   |-Protocol : '' @ decn protocol),
     line (''   |-Checksum : '' @ decn check),
     line (''   |-Source IP        : '' @ decn (src ! 0) @ ''.'' @ decn (src ! 1) @ ''.'' @ decn (src ! 2) @ ''.'' @ decn (src ! 3)),
     line (''   |-Destination IP   : '' @ decn (dst ! 0) @ ''.'' @ decn (dst ! 1) @ ''.'' @ decn (dst ! 2) @ ''.'' @ decn (dst ! 3))]"
proof -
  obtain f0 f1 where f: "frag = [f0, f1]" using assms(7) by (auto simp: numeral_2_eq_2 length_Suc_conv)
  obtain s0 s1 s2 s3 where s: "src = [s0, s1, s2, s3]" using assms(9) by (auto simp: numeral_eq_Suc length_Suc_conv)
  obtain d0 d1 d2 d3 where d: "dst = [d0, d1, d2, d3]" using assms(11) by (auto simp: numeral_eq_Suc length_Suc_conv)
  have net: "256 * (n div 256 mod 256) + n mod 256 = n" if "n < 65536" for n :: nat
  proof -
    have "n div 256 < 256" using that by simp
    then show ?thesis by simp
  qed
  have lits: "decn 4 = ''4''" "decn 5 = ''5''" "decn 20 = ''20''" by code_simp+
  define b where "b = make_iphdr tos tot_len (net16 ident) frag ttl protocol (net16 check)
      (map byte src) (map byte dst) @ payload"
  have b: "val8 (b ! 0) = 69" "val8 (b ! 1) = tos" "val8 (b ! 8) = ttl" "val8 (b ! 9) = protocol"
    "net_word b 2 = tot_len" "net_word b 4 = ident" "net_word b 10 = check"
    by (simp_all add: b_def make_iphdr_def net16_def f s d net_word_def assms(1-3) net [OF assms(4)]
      net [OF assms(5)] net [OF assms(6)])
  have addrs: "take 4 (drop 12 b) = map byte src" "take 4 (drop 16 b) = map byte dst"
    by (simp_all add: b_def make_iphdr_def net16_def f s d)
  have quad: "inet_ntoa (map byte [a0, a1, a2, a3]) = decn a0 @ ''.'' @ decn a1 @ ''.'' @ decn a2 @ ''.'' @ decn a3"
    if "list_all (\<lambda>x. x < 256) [a0, a1, a2, a3]" for a0 a1 a2 a3
    using that by (simp add: inet_ntoa_def decn_def)
  have "inet_ntoa (map byte src) = decn (src ! 0) @ ''.'' @ decn (src ! 1) @ ''.'' @ decn (src ! 2) @ ''.'' @ decn (src ! 3)"
    "inet_ntoa (map byte dst) = decn (dst ! 0) @ ''.'' @ decn (dst ! 1) @ ''.'' @ decn (dst ! 2) @ ''.'' @ decn (dst ! 3)"
    using quad assms(8,10) by (simp_all add: s d)
  then show ?thesis
    unfolding b_def [symmetric] ip_header_lines_def iph_version_def iph_ihl_def addrs b
    by (simp add: lits)
qed

theorem sniffer_shows_fields_witness:
  "ip_header_lines (make_iphdr 0 140 (net16 111) (zeros 2) 111 6 (net16 258)
      (map byte [192, 168, 0, 10]) (map byte [192, 168, 0, 11]) @ ''data'') ! 10 =
    line ''   |-Source IP        : 192.168.0.10''"
proof -
  have "decn 192 @ ''.'' @ decn 168 @ ''.'' @ decn 0 @ ''.'' @ decn 10 = ''192.168.0.10''" by code_simp
  then show ?thesis
    using sniffer_shows_fields [of 0 111 6 140 111 258 "zeros 2" "[192, 168, 0, 10]" "[192, 168, 0, 11]" "''data''"]
    by (simp add: length_zeros)
qed

text \<open>
  A message of less than 128 characters arrives: what the client sends
  is a datagram from which the server, once it has received it, prints the message and nothing
  behind it, whatever its buffer held before.
\<close>

theorem raw2_message_arrives:
  assumes "no_nul m" "length m < 128" "0 \<le> sfd" "length buffer = 1024"
  defines "packet \<equiv> raw2_packet (overwrite (zeros 128) (lit m))"
  shows "calls (trace raw2_client_main [rets sfd, rets 0, gives m, rets 1024]) =
      [Socket AF_INET SOCK_RAW 101, Setsockopt sfd IP_HDRINCL, Scanf_str, Sendto sfd packet 1024 (any_addr 0)] \<and>
    printed (trace (raw2_server_turn s buffer again) (gives packet # as)) =
      (CHR 0x09 # line ''Message'' @ '' '' @ line m) # printed (trace (again packet) as)"
proof -
  have buf: "c_str (overwrite (zeros 128) (lit m)) = m" using assms(1) by (simp add: c_str_overwrite_lit)
  have a: "inet_addr ''127.0.1.1'' = [byte 127, byte 0, byte 1, byte 1]"
    "inet_addr ''127.0.0.1'' = [byte 127, byte 0, byte 0, byte 1]" by code_simp+
  define h where "h = make_iphdr 0 (20 + length m) (zeros 2) (zeros 2) 8 101 (zeros 2)
    (inet_addr ''127.0.1.1'') (inet_addr ''127.0.0.1'')"
  have h: "length h = 20" "h ! 0 = byte 69"
    by (simp_all add: h_def make_iphdr_def net16_def a length_zeros)
  have packet: "packet = h @ lit m @ drop (21 + length m) (zeros 1024)"
    unfolding packet_def raw2_packet_def buf h_def [symmetric] using h by (simp add: overwrite_def length_lit)
  have len: "length packet = 1024" using assms(2) h by (simp add: packet length_lit length_zeros)
  have msg: "c_str (drop (4 * iph_ihl packet) packet) = m"
    using h assms(1) by (simp add: packet iph_ihl_def nth_append c_str_lit_append)
  have "overwrite buffer packet = packet" using len assms(4) by (simp add: overwrite_def)
  with len msg assms(2-4) show ?thesis
    by (simp add: raw2_client_main_def raw2_server_turn_def packet_def length_zeros)
qed

theorem raw2_message_arrives_witness:
  "printed (trace (raw2_server_turn 3 (zeros 1024) (\<lambda>_. Exit 0))
      [gives (raw2_packet (overwrite (zeros 128) (lit ''hi'')))]) = [CHR 0x09 # line ''Message'' @ '' '' @ line ''hi'']"
  using raw2_message_arrives [of "''hi''" 3 "zeros 1024" 3 "\<lambda>_. Exit 0" "[]"] by (simp add: no_nul_def length_zeros)

end
