(* ===== verification/CN_Nfs.thy ===== *)
theory CN_Nfs imports CN_Sockets begin

text \<open>
  rpc/nfs: the remote file procedures of nfs_server.c and the command loop of nfs_client.c. The
  result of a procedure is a static variable, an argument and a result of its model. The stubs
  that rpcgen generates are the call Clnt_call, with the procedure number, the strings and the
  unsigned numbers of the argument; an answer with a negative return value is the NULL result
  of a failed call. A kernel with regular files answers the file calls in the theorem on writing
  and reading.
\<close>

section \<open>Arguments and results\<close>

record bufnode =
  buffer :: string
  size :: "32 word"

record file_args_r =
  r_filename :: string
  r_offset :: "32 word"
  r_size :: "32 word"

record file_args_w =
  w_filename :: string
  w_offset :: "32 word"
  w_buffer :: string
  w_size :: "32 word"

section \<open>The server\<close>

text \<open>The file type bits of st_mode: regular file, directory, FIFO, socket, and the devices.\<close>

definition is_type :: "int \<Rightarrow> int \<Rightarrow> bool" where
  "is_type ty st = (st \<noteq> 0 \<and> st AND 61440 = ty)"

definition S_ISREG :: "int \<Rightarrow> bool" where "S_ISREG = is_type 32768"

definition S_ISDIR :: "int \<Rightarrow> bool" where "S_ISDIR = is_type 16384"

definition perms_of :: "int \<Rightarrow> string" where
  "perms_of st =
     (if S_ISREG st then CHR ''-'' else if S_ISDIR st then CHR ''d''
      else if is_type 4096 st then CHR ''|'' else if is_type 49152 st then CHR ''s''
      else if is_type 8192 st then CHR ''c'' else if is_type 24576 st then CHR ''b'' else CHR ''l'') #
     map (\<lambda>(m, c). if st AND m \<noteq> 0 then c else CHR ''-'')
       [(256, CHR ''r''), (128, CHR ''w''), (64, CHR ''x''), (32, CHR ''r''), (16, CHR ''w''),
        (8, CHR ''x''), (4, CHR ''r''), (2, CHR ''w''), (1, CHR ''x'')]"

definition print_perms :: "int \<Rightarrow> string \<Rightarrow> (string \<Rightarrow> prog) \<Rightarrow> prog" where
  "print_perms st buf k = put_str buf (perms_of st) k"

text \<open>A field of the stat buffer: mode, links, owner, group, size, time.\<close>

definition st_field :: "nat \<Rightarrow> ans \<Rightarrow> int" where
  "st_field i a = (if i < length (ints a) then ints a ! i else 0)"

text \<open>readdir: the names, one by one, until NULL; at most n entries are unrolled.\<close>

definition ls_entry :: "bufnode \<Rightarrow> (bufnode \<Rightarrow> prog) \<Rightarrow> (bufnode \<Rightarrow> prog) \<Rightarrow> prog" where
  "ls_entry result done again =
     Call Readdir (\<lambda>a.
     if ret a \<le> 0 then done result
     else if take 1 (dat a) = ''.'' then again result
     else strcat (buffer result) (dat a) (\<lambda>b. strcat b [newline] (\<lambda>b.
       again (result\<lparr>buffer := b, size := size result + 1\<rparr>))))"

definition nfs_ls_1_svc :: "nat \<Rightarrow> bufnode \<Rightarrow> bufnode \<Rightarrow> (bufnode \<Rightarrow> prog) \<Rightarrow> prog" where
  "nfs_ls_1_svc n result argp k =
     (let result = result\<lparr>size := 0\<rparr>; path = c_str (buffer argp) in
     Out (line (''Got a ls req '' @ path)) (
     Call (Access path) (\<lambda>a.
     if ret a < 0 then
       put_str (buffer result) ''File not exist or access denied !'' (\<lambda>b.
       k (result\<lparr>buffer := b, size := - 1\<rparr>))
     else
     Call (Stat path) (\<lambda>sb.
     if S_ISDIR (st_field 0 sb) then
       Call (Opendir path) (\<lambda>d.
       put_str (buffer result) [] (\<lambda>b.
       forever n (\<lambda>result. ls_entry result k) (result\<lparr>buffer := b\<rparr>)))
     else
       put_str (buffer result) ''Path is not a directory !'' (\<lambda>b.
       k (result\<lparr>buffer := b, size := - 1\<rparr>))))))"

definition nfs_write_1_svc :: "int \<Rightarrow> file_args_w \<Rightarrow> (int \<Rightarrow> prog) \<Rightarrow> prog" where
  "nfs_write_1_svc result argp k =
     (let path = c_str (w_filename argp) in
     Out (line (''Got a write req '' @ path)) (
     Call (Access path) (\<lambda>a.
     if ret a < 0 then k (- 1)
     else
     Call (Stat path) (\<lambda>sb.
     if S_ISREG (st_field 0 sb) then
       Call (Open path [O_WRONLY]) (\<lambda>o'. let fd = ret o' in
       Call (Lseek fd (uint (w_offset argp))) (\<lambda>l.
       Call (Write fd (w_buffer argp) (uint (w_size argp))) (\<lambda>w.
       Call (Close fd) (\<lambda>_. k (ret w)))))
     else k (- 1)))))"

definition nfs_read_1_svc :: "bufnode \<Rightarrow> file_args_r \<Rightarrow> (bufnode \<Rightarrow> prog) \<Rightarrow> prog" where
  "nfs_read_1_svc result argp k =
     (let path = c_str (r_filename argp) in
     Out (line (''Got a read request '' @ path @ '' '' @ dec (int (length path)))) (
     Call (Access path) (\<lambda>a.
     if ret a < 0 then k (result\<lparr>size := - 1\<rparr>)
     else
     Call (Stat path) (\<lambda>sb.
     if S_ISREG (st_field 0 sb) then
       Call (Open path [O_RDONLY]) (\<lambda>o'. let fd = ret o' in
       Call (Lseek fd (uint (r_offset argp))) (\<lambda>l.
       if ret l < 0 then k (result\<lparr>size := - 1\<rparr>)
       else
       Call (Read fd (uint (r_size argp))) (\<lambda>r.
       let d = got (uint (r_size argp)) r in
       if length (buffer result) < length d then Undef else
       Call (Close fd) (\<lambda>_. k (result\<lparr>buffer := overwrite (buffer result) d, size := word_of_int (ret r)\<rparr>)))))
     else k (result\<lparr>size := - 1\<rparr>)))))"

definition nfs_cd_1_svc :: "bufnode \<Rightarrow> (int \<Rightarrow> prog) \<Rightarrow> prog" where
  "nfs_cd_1_svc argp k =
     Out (line (''Got a cd req '' @ c_str (buffer argp))) (
     Call (Chdir (c_str (buffer argp))) (\<lambda>a. k (ret a)))"

text \<open>
  getattr formats the owner's name, which getpwuid_r stores in buf, into buf itself: sprintf
  with overlapping operands is undefined, and so is the line for the group. When the lookup
  fails, printf is called where sprintf is meant.
\<close>

definition pad5 :: "string \<Rightarrow> string" where
  "pad5 s = replicate (5 - length s) (CHR '' '') @ s"

definition getattr_1_svc :: "bufnode \<Rightarrow> bufnode \<Rightarrow> (bufnode \<Rightarrow> prog) \<Rightarrow> prog" where
  "getattr_1_svc result argp k =
     (let path = c_str (buffer argp) in
     Out (line (''Got a getattr req '' @ path)) (
     Call (Access path) (\<lambda>a.
     if ret a < 0 then
       put_str (buffer result) ''file or dir not exist !'' (\<lambda>b. k \<lparr>buffer = b, size = - 1\<rparr>)
     else
     Call (Stat path) (\<lambda>sb.
     print_perms (st_field 0 sb) (buffer result) (\<lambda>b.
     let links = '' '' @ dec (st_field 1 sb) in
     strcat b links (\<lambda>b.
     Call (Getpwuid (st_field 2 sb)) (\<lambda>p.
     if ret p = 0 then Undef else
     Out links (
     strcat b links (\<lambda>b.
     Call (Getgrgid (st_field 3 sb)) (\<lambda>g.
     if ret g = 0 then Undef else
     strcat b ('' '' @ dec (st_field 3 sb)) (\<lambda>b.
     strcat b ('' '' @ pad5 (dec (st_field 4 sb))) (\<lambda>b.
     Call (Strftime (st_field 5 sb)) (\<lambda>s.
     let date = line ('' '' @ take 255 (dat s) @ '' '' @ path) in
     if 128 \<le> length date then Undef else
     strcat b date (\<lambda>b. k \<lparr>buffer = b, size = 1\<rparr>))))))))))))))"

definition setattr_1_svc :: "bufnode \<Rightarrow> (int \<Rightarrow> prog) \<Rightarrow> prog" where
  "setattr_1_svc argp k =
     (let path = c_str (buffer argp) in
     Out (line (''Got a setattr req '' @ path)) (
     Call (Access path) (\<lambda>a.
     if ret a < 0 then k (- 1)
     else Call (Chmod path (uint (size argp))) (\<lambda>c. k (ret c)))))"

definition nfs_remove_1_svc :: "bufnode \<Rightarrow> (int \<Rightarrow> prog) \<Rightarrow> prog" where
  "nfs_remove_1_svc argp k =
     Out (line (''Got a remove req '' @ c_str (buffer argp))) (
     Call (Remove (c_str (buffer argp))) (\<lambda>a. k (ret a)))"

definition nfs_mkdir_1_svc :: "bufnode \<Rightarrow> (int \<Rightarrow> prog) \<Rightarrow> prog" where
  "nfs_mkdir_1_svc argp k =
     Out (line (''Got a mkdir req '' @ c_str (buffer argp))) (
     Call (Mkdir (c_str (buffer argp)) (uint (size argp))) (\<lambda>a. k (ret a)))"

definition nfs_touch_1_svc :: "bufnode \<Rightarrow> (int \<Rightarrow> prog) \<Rightarrow> prog" where
  "nfs_touch_1_svc argp k =
     Out (line (''Got a touch req '' @ c_str (buffer argp))) (
     Call (Creat (c_str (buffer argp)) (uint (size argp))) (\<lambda>a. k (ret a)))"

section \<open>The client's commands\<close>

definition getCommandType :: "string \<Rightarrow> int" where
  "getCommandType str =
     (if str = ''ls'' then 1 else if str = ''read'' then 2 else if str = ''write'' then 3
      else if str = ''exit'' then 0 else if str = ''cd'' then 4 else if str = ''getattr'' then 5
      else if str = ''setattr'' then 6 else if str = ''remove'' then 7
      else if str = ''mkdir'' then 8 else if str = ''touch'' then 9 else - 1)"

text \<open>perm_bit, from the last digit to the first; signed overflow is undefined, here None.\<close>

fun perm_bit_from :: "int \<Rightarrow> int \<Rightarrow> string \<Rightarrow> int option" where
  "perm_bit_from coff perm [] = Some perm"
| "perm_bit_from coff perm (c # cs) =
     (let p = perm + (of_char c - 48) * coff in
      if int32 ((of_char c - 48) * coff) \<and> int32 p \<and> int32 (coff * 8)
      then perm_bit_from (coff * 8) p cs else None)"

definition perm_bit :: "string \<Rightarrow> int option" where
  "perm_bit args = perm_bit_from 1 0 (rev args)"

text \<open>
  The tokens of a command line: the command ends at a blank or a newline, the arguments at
  blanks; at most four are taken. strtok(arg, newline) cuts an argument at the first newline
  after its first other character.
\<close>

fun tok_args :: "nat \<Rightarrow> string \<Rightarrow> string list" where
  "tok_args 0 s = []"
| "tok_args (Suc n) s =
     (case strtok '' '' s of None \<Rightarrow> [] | Some (t, r) \<Rightarrow> t # tok_args n r)"

definition cut_newline :: "string \<Rightarrow> string" where
  "cut_newline s =
     takeWhile (\<lambda>c. c = newline) s @ takeWhile (\<lambda>c. c \<noteq> newline) (dropWhile (\<lambda>c. c = newline) s)"

text \<open>The argument structs live across the turns of the loop.\<close>

record nfs_args =
  ls_arg :: bufnode
  write_arg :: file_args_w
  read_arg :: file_args_r
  cd_arg :: bufnode
  getattr_arg :: bufnode
  setattr_arg :: bufnode
  remove_arg :: bufnode
  mkdir_arg :: bufnode
  touch_arg :: bufnode

definition call_buf :: "int \<Rightarrow> bufnode \<Rightarrow> (ans \<Rightarrow> prog) \<Rightarrow> prog" where
  "call_buf proc arg k = Call (Clnt_call proc [buffer arg] [uint (size arg)]) k"

definition strcpy_arg :: "string \<Rightarrow> string \<Rightarrow> (string \<Rightarrow> prog) \<Rightarrow> prog" where
  "strcpy_arg dst s k = put_str dst s k"

definition report :: "ans \<Rightarrow> string \<Rightarrow> string \<Rightarrow> prog \<Rightarrow> prog" where
  "report a bad good k =
     (if ret a < 0 then Perror ''call failed'' k
      else if (case ints a of [] \<Rightarrow> 0 | r # _ \<Rightarrow> r) < 0 then Out (line bad) k else Out (line good) k)"

definition print_result :: "ans \<Rightarrow> prog \<Rightarrow> prog" where
  "print_result a k = (if NUL \<in> set (dat a) then Out (line (c_str (dat a))) k else Undef)"

text \<open>The size of a bufnode result is unsigned: the test for a negative size never holds.\<close>

definition res_size :: "ans \<Rightarrow> 32 word" where
  "res_size a = word_of_int (case ints a of [] \<Rightarrow> 0 | r # _ \<Rightarrow> r)"

definition client_ls :: "string list \<Rightarrow> nfs_args \<Rightarrow> (nfs_args \<Rightarrow> prog) \<Rightarrow> prog" where
  "client_ls args st k =
     (if length args \<noteq> 1 then Out (line ''usage: ls <dir_name>'') (k st) else
     strcpy_arg (buffer (ls_arg st)) (cut_newline (args ! 0)) (\<lambda>b.
     let st = st\<lparr>ls_arg := \<lparr>buffer = b, size = 0\<rparr>\<rparr> in
     call_buf 1 (ls_arg st) (\<lambda>a.
     if ret a < 0 then Perror ''call failed'' (k st)
     else Out (line (''Read '' @ dec (sint (res_size a)) @ '' files and dirs'')) (print_result a (k st)))))"

definition client_read :: "string list \<Rightarrow> nfs_args \<Rightarrow> (nfs_args \<Rightarrow> prog) \<Rightarrow> prog" where
  "client_read args st k =
     (if length args \<noteq> 3 then Out (line ''usage: read <filename> <offset> <size>'') (k st) else
     strcpy_arg (r_filename (read_arg st)) (cut_newline (args ! 0)) (\<lambda>b.
     let r = \<lparr>r_filename = b, r_offset = word_of_int (atoi (lit (args ! 1))),
              r_size = word_of_int (atoi (lit (args ! 2)))\<rparr>;
         st = st\<lparr>read_arg := r\<rparr> in
     Call (Clnt_call 3 [r_filename r] [uint (r_offset r), uint (r_size r)]) (\<lambda>a.
     if ret a < 0 then Perror ''call failed'' (k st)
     else if res_size a < 0 then Out (line ''File Reading error Occured !'') (k st)
     else Out (line (''Read '' @ dec (sint (res_size a)) @ '' bytes'')) (print_result a (k st)))))"

definition client_write :: "string list \<Rightarrow> nfs_args \<Rightarrow> (nfs_args \<Rightarrow> prog) \<Rightarrow> prog" where
  "client_write args st k =
     (if length args \<noteq> 4
      then Out (line ''usage: write <filename> <msg_without_blanks> <offset> <size>'') (k st) else
     strcpy_arg (w_filename (write_arg st)) (cut_newline (args ! 0)) (\<lambda>f.
     strcpy_arg (w_buffer (write_arg st)) (cut_newline (args ! 1)) (\<lambda>b.
     let w = \<lparr>w_filename = f, w_offset = word_of_int (atoi (lit (args ! 2))), w_buffer = b,
              w_size = word_of_int (atoi (lit (args ! 3)))\<rparr>;
         st = st\<lparr>write_arg := w\<rparr> in
     Call (Clnt_call 2 [w_filename w, w_buffer w] [uint (w_offset w), uint (w_size w)]) (\<lambda>a.
     if ret a < 0 then Perror ''call failed'' (k st)
     else let n = (case ints a of [] \<Rightarrow> 0 | r # _ \<Rightarrow> r) in
       if n < 0 then Out (line ''Wrting Error occured, File not exist or access denied.'') (k st)
       else Out (line (dec n @ '' byte written !'')) (k st)))))"

definition client_cd :: "string list \<Rightarrow> nfs_args \<Rightarrow> (nfs_args \<Rightarrow> prog) \<Rightarrow> prog" where
  "client_cd args st k =
     (if length args \<noteq> 1 then Out (line ''usage: cd <dir>'') (k st) else
     strcpy_arg (buffer (cd_arg st)) (cut_newline (args ! 0)) (\<lambda>b.
     let st = st\<lparr>cd_arg := (cd_arg st)\<lparr>buffer := b\<rparr>\<rparr> in
     call_buf 4 (cd_arg st) (\<lambda>a. report a ''Wrong path !'' ''Curr directory changed'' (k st))))"

definition client_getattr :: "string list \<Rightarrow> nfs_args \<Rightarrow> (nfs_args \<Rightarrow> prog) \<Rightarrow> prog" where
  "client_getattr args st k =
     (if length args \<noteq> 1 then Out (line ''usage: getattr <file_or_dir>'') (k st) else
     strcpy_arg (buffer (getattr_arg st)) (cut_newline (args ! 0)) (\<lambda>b.
     let st = st\<lparr>getattr_arg := (getattr_arg st)\<lparr>buffer := b\<rparr>\<rparr> in
     call_buf 5 (getattr_arg st) (\<lambda>a.
     if ret a < 0 then Perror ''call failed'' (k st) else print_result a (k st))))"

definition with_perm :: "string \<Rightarrow> (32 word \<Rightarrow> prog) \<Rightarrow> prog" where
  "with_perm s k = (case perm_bit s of None \<Rightarrow> Undef | Some p \<Rightarrow> k (word_of_int p))"

definition client_setattr :: "string list \<Rightarrow> nfs_args \<Rightarrow> (nfs_args \<Rightarrow> prog) \<Rightarrow> prog" where
  "client_setattr args st k =
     (if length args \<noteq> 2 then Out (line ''usage: setattr <file_or_dir> <perm_in_octal>'') (k st) else
     strcpy_arg (buffer (setattr_arg st)) (cut_newline (args ! 0)) (\<lambda>b.
     with_perm (cut_newline (args ! 1)) (\<lambda>p.
     let st = st\<lparr>setattr_arg := \<lparr>buffer = b, size = p\<rparr>\<rparr> in
     call_buf 6 (setattr_arg st) (\<lambda>a. report a ''Error in setting attr'' ''Attr set.'' (k st)))))"

definition client_remove :: "string list \<Rightarrow> nfs_args \<Rightarrow> (nfs_args \<Rightarrow> prog) \<Rightarrow> prog" where
  "client_remove args st k =
     (if length args \<noteq> 1 then Out (line ''usage: remove <file_or_dir>'') (k st) else
     strcpy_arg (buffer (remove_arg st)) (cut_newline (args ! 0)) (\<lambda>b.
     let st = st\<lparr>remove_arg := (remove_arg st)\<lparr>buffer := b\<rparr>\<rparr> in
     call_buf 7 (remove_arg st) (\<lambda>a. report a ''Error in remove'' ''Removed !'' (k st))))"

definition client_mkdir :: "string list \<Rightarrow> nfs_args \<Rightarrow> (nfs_args \<Rightarrow> prog) \<Rightarrow> prog" where
  "client_mkdir args st k =
     (if length args \<noteq> 2 then Out (line ''usage: mkdir <dir> <perm_in_octal>'') (k st) else
     strcpy_arg (buffer (mkdir_arg st)) (cut_newline (args ! 0)) (\<lambda>b.
     with_perm (cut_newline (args ! 1)) (\<lambda>p.
     let st = st\<lparr>mkdir_arg := \<lparr>buffer = b, size = p\<rparr>\<rparr> in
     call_buf 8 (mkdir_arg st) (\<lambda>a. report a ''Error in creating dirs'' ''Created !'' (k st)))))"

definition client_touch :: "string list \<Rightarrow> nfs_args \<Rightarrow> (nfs_args \<Rightarrow> prog) \<Rightarrow> prog" where
  "client_touch args st k =
     (if length args \<noteq> 2 then Out (line ''usage: touch <filename> <perm_in_octal>'') (k st) else
     strcpy_arg (buffer (touch_arg st)) (cut_newline (args ! 0)) (\<lambda>b.
     with_perm (cut_newline (args ! 1)) (\<lambda>p.
     let st = st\<lparr>touch_arg := \<lparr>buffer = b, size = p\<rparr>\<rparr> in
     call_buf 9 (touch_arg st) (\<lambda>a. report a ''Error in creating dirs'' ''Created !'' (k st)))))"

text \<open>One turn of the command loop; a blank line passes a null pointer to strcmp.\<close>

definition nfs_command :: "nfs_args \<times> string \<Rightarrow> (nfs_args \<times> string \<Rightarrow> prog) \<Rightarrow> prog" where
  "nfs_command = (\<lambda>(st, buf) k.
     Out ''terminal@$ '' (
     Call (Fgets 1024) (\<lambda>l.
     let buf = (if ret l \<le> 0 then buf else overwrite buf (lit (take 1023 (dat l)))) in
     case strtok [CHR '' '', newline] (c_str buf) of None \<Rightarrow> Undef
     | Some (cmd, rest) \<Rightarrow>
       let args = tok_args 4 rest; c = getCommandType cmd;
           e = length (takeWhile (\<lambda>c. c = CHR '' '' \<or> c = newline) (c_str buf)) + length cmd;
           k' = (\<lambda>st. k (st, buf[e := NUL])) in
       if c = 0 then Out (line ''Byee !'') (Exit 1)
       else if c = 1 then client_ls args st k'
       else if c = 2 then client_read args st k'
       else if c = 3 then client_write args st k'
       else if c = 4 then client_cd args st k'
       else if c = 5 then client_getattr args st k'
       else if c = 6 then client_setattr args st k'
       else if c = 7 then client_remove args st k'
       else if c = 8 then client_mkdir args st k'
       else if c = 9 then client_touch args st k'
       else Out (line ''Invalid Command'') (k' st))))"

definition nfs_remote_1 :: "nat \<Rightarrow> nfs_args \<Rightarrow> string \<Rightarrow> string \<Rightarrow> prog" where
  "nfs_remote_1 n st buf host =
     Call (Clnt_create host 805306367 1) (\<lambda>c.
     if ret c \<le> 0 then Perror host (Exit 1) else forever n nfs_command (st, buf))"

definition nfs_client_main :: "nat \<Rightarrow> nfs_args \<Rightarrow> string \<Rightarrow> string list \<Rightarrow> prog" where
  "nfs_client_main n st buf argv =
     (if length argv < 2 then
        Out (line (''usage: '' @ (case argv of [] \<Rightarrow> [] | p # _ \<Rightarrow> p) @ '' server_host'')) (Exit 1)
      else nfs_remote_1 n st buf (argv ! 1))"

section \<open>A kernel with regular files\<close>

text \<open>
  Files by name, open descriptors with their position. The kernel serves the calls of the write
  and read procedures; a write beyond the end fills the gap with zeros.
\<close>

record kfs =
  kfiles :: "string \<Rightarrow> string option"
  kopen :: "int \<Rightarrow> (string \<times> nat) option"
  knext :: int

definition patch :: "nat \<Rightarrow> string \<Rightarrow> string \<Rightarrow> string" where
  "patch off d content =
     take off content @ zeros (off - length content) @ d @ drop (off + length d) content"

definition fs_kernel :: "call \<Rightarrow> kfs \<Rightarrow> ans \<times> kfs" where
  "fs_kernel c s = (case c of
     Access p \<Rightarrow> (rets (if kfiles s p = None then - 1 else 0), s)
   | Stat p \<Rightarrow>
       (case kfiles s p of None \<Rightarrow> (rets (- 1), s)
        | Some content \<Rightarrow> (gets_ints 0 [33188, 1, 0, 0, int (length content), 0], s))
   | Open p fl \<Rightarrow>
       (if kfiles s p = None then (rets (- 1), s)
        else (rets (knext s), s\<lparr>kopen := (kopen s)(knext s \<mapsto> (p, 0)), knext := knext s + 1\<rparr>))
   | Lseek fd off \<Rightarrow>
       (case kopen s fd of None \<Rightarrow> (rets (- 1), s)
        | Some (p, _) \<Rightarrow> (rets off, s\<lparr>kopen := (kopen s)(fd \<mapsto> (p, nat off))\<rparr>))
   | Write fd obj n \<Rightarrow>
       (case kopen s fd of None \<Rightarrow> (rets (- 1), s)
        | Some (p, off) \<Rightarrow>
            (case kfiles s p of None \<Rightarrow> (rets (- 1), s)
             | Some content \<Rightarrow>
                 let d = take (nat n) obj in
                 (rets (int (length d)),
                  s\<lparr>kfiles := (kfiles s)(p \<mapsto> patch off d content),
                    kopen := (kopen s)(fd \<mapsto> (p, off + length d))\<rparr>)))
   | Read fd n \<Rightarrow>
       (case kopen s fd of None \<Rightarrow> (rets (- 1), s)
        | Some (p, off) \<Rightarrow>
            (case kfiles s p of None \<Rightarrow> (rets (- 1), s)
             | Some content \<Rightarrow>
                 let d = take (nat n) (drop off content) in
                 (gives d, s\<lparr>kopen := (kopen s)(fd \<mapsto> (p, off + length d))\<rparr>)))
   | Close fd \<Rightarrow> (rets 0, s\<lparr>kopen := (kopen s)(fd := None)\<rparr>)
   | _ \<Rightarrow> (rets (- 1), s))"

lemma fs_kernel_simps [simp, prog_simps]:
  "kfiles s p = Some x \<Longrightarrow> fs_kernel (Access p) s = (rets 0, s)"
  "kfiles s p = Some x \<Longrightarrow> fs_kernel (Stat p) s = (gets_ints 0 [33188, 1, 0, 0, int (length x), 0], s)"
  "kfiles s p = Some x \<Longrightarrow> fs_kernel (Open p fl) s =
     (rets (knext s), s\<lparr>kopen := (kopen s)(knext s \<mapsto> (p, 0)), knext := knext s + 1\<rparr>)"
  "kopen s fd = Some (p, i) \<Longrightarrow> fs_kernel (Lseek fd off) s =
     (rets off, s\<lparr>kopen := (kopen s)(fd \<mapsto> (p, nat off))\<rparr>)"
  "fs_kernel (Close fd) s = (rets 0, s\<lparr>kopen := (kopen s)(fd := None)\<rparr>)"
  "kopen s fd = Some (p, i) \<Longrightarrow> kfiles s p = Some x \<Longrightarrow> fs_kernel (Write fd obj n) s =
     (rets (int (length (take (nat n) obj))),
      s\<lparr>kfiles := (kfiles s)(p \<mapsto> patch i (take (nat n) obj) x),
        kopen := (kopen s)(fd \<mapsto> (p, i + length (take (nat n) obj)))\<rparr>)"
  "kopen s fd = Some (p, i) \<Longrightarrow> kfiles s p = Some x \<Longrightarrow> fs_kernel (Read fd n) s =
     (gives (take (nat n) (drop i x)), s\<lparr>kopen := (kopen s)(fd \<mapsto> (p, i + length (take (nat n) (drop i x))))\<rparr>)"
  by (simp_all add: fs_kernel_def Let_def)

lemma read_patch: "take (length d) (drop off (patch off d content)) = d"
  by (cases "off \<le> length content") (simp_all add: patch_def length_zeros, simp_all add: zeros_def)

lemma regular_mode [simp]: "S_ISREG 33188"
  by code_simp

lemma st_field_first [simp]: "st_field 0 (gets_ints r (x # xs)) = x"
  by (simp add: st_field_def)

section \<open>Octal permissions\<close>

definition octal :: "string \<Rightarrow> int" where
  "octal s = foldl (\<lambda>v c. 8 * v + (of_char c - 48)) 0 s"

definition octal_digit :: "char \<Rightarrow> bool" where
  "octal_digit c = (48 \<le> (of_char c :: int) \<and> (of_char c :: int) \<le> 55)"

lemma octal_Nil [simp]: "octal [] = 0"
  by (simp add: octal_def)

lemma octal_snoc: "octal (s @ [c]) = 8 * octal s + (of_char c - 48)"
  by (simp add: octal_def)

lemma octal_bounds: "list_all octal_digit s \<Longrightarrow> 0 \<le> octal s \<and> octal s < 8 ^ length s"
  by (induction s rule: rev_induct) (auto simp: octal_snoc octal_digit_def)

lemma perm_bit_from_octal:
  assumes "list_all octal_digit s" "0 \<le> p" "p < 8 ^ j" "j + length s \<le> 10"
  shows "perm_bit_from (8 ^ j) p (rev s) = Some (p + 8 ^ j * octal s)"
  using assms
proof (induction s arbitrary: j p rule: rev_induct)
  case Nil
  then show ?case by (simp add: octal_def)
next
  case (snoc c s)
  let ?d = "(of_char c :: int) - 48" and ?w = "(8 :: int) ^ j"
  have d: "0 \<le> ?d" "?d \<le> 7" using snoc.prems(1) by (auto simp: octal_digit_def)
  have "8 ^ Suc j \<le> (8 :: int) ^ 10" using snoc.prems(4) by (intro power_increasing) auto
  then have w: "8 * ?w \<le> 8 ^ 10" "0 < ?w" by simp_all
  have dw: "0 \<le> ?d * ?w" "?d * ?w \<le> 7 * ?w" using d w(2) by (auto intro: mult_right_mono)
  have p: "0 \<le> p + ?d * ?w" "p + ?d * ?w < 8 ^ Suc j"
    unfolding power_Suc using dw snoc.prems(2,3) by linarith+
  have "8 * ?w < 2 ^ 31" using w(1) by simp
  then have "int32 (?d * ?w)" "int32 (p + ?d * ?w)" "int32 (8 ^ Suc j)"
    using dw p w(2) unfolding int32_def power_Suc by (intro conjI; linarith)+
  then have "perm_bit_from ?w p (rev (s @ [c])) = perm_bit_from (8 ^ Suc j) (p + ?d * ?w) (rev s)"
    by (simp add: mult.commute Let_def)
  also have "\<dots> = Some (p + ?d * ?w + 8 ^ Suc j * octal s)"
    using snoc.IH [of "p + ?d * ?w" "Suc j"] p snoc.prems(1,4) by simp
  finally show ?case by (simp add: octal_snoc algebra_simps)
qed

section \<open>What the remote file programs do\<close>

text \<open>
  C4. Reading after writing: on a server with an existing regular file, a
  write request of at most 1024 bytes at any offset, followed by a read request with the same
  name, offset and size, answers the number of bytes written, and a result whose buffer starts
  with the bytes written and whose size is their number; the file has the bytes at the offset.
\<close>

theorem nfs_read_after_write:
  assumes "kfiles s f = Some content" and "c_str (w_filename w) = f" and "c_str (r_filename r) = f"
    and "r_offset r = w_offset w" and "r_size r = w_size w"
    and "length (w_buffer w) = 1024" and "length (buffer res) = 1024" and "w_size w \<le> 1024"
  shows "\<exists>s'. run fs_kernel (nfs_write_1_svc old w (\<lambda>n. nfs_read_1_svc res r (k n))) s =
      (case run fs_kernel (k (uint (w_size w))
          (res\<lparr>buffer := overwrite (buffer res) (take (unat (w_size w)) (w_buffer w)), size := w_size w\<rparr>)) s' of
        (t, e) \<Rightarrow> (line (''Got a write req '' @ f) #
          line (''Got a read request '' @ f @ '' '' @ dec (int (length f))) # t, e)) \<and>
    kfiles s' = (kfiles s)(f \<mapsto> patch (unat (w_offset w)) (take (unat (w_size w)) (w_buffer w)) content)"
proof -
  let ?d = "take (unat (w_size w)) (w_buffer w)" and ?o = "unat (w_offset w)"
  let ?n = "knext s"
  have n: "unat (w_size w) \<le> 1024" using assms(8) by (simp add: word_le_nat_alt)
  have nats: "nat (uint (w_size w)) = unat (w_size w)" "nat (uint (w_offset w)) = ?o"
    by (simp_all add: nat_uint_eq)
  have len: "length ?d = unat (w_size w)" using n assms(6) by simp
  have again: "take (unat (w_size w)) (drop ?o (patch ?o ?d content)) = ?d"
    using read_patch [of ?d ?o content] by (simp only: len)
  have sz: "int (unat (w_size w)) = uint (w_size w)" by (simp only: uint_nat)
  have fits: "got (uint (w_size w)) (gives ?d) = ?d" using len sz by (intro got_gives) simp
  define s1 where "s1 = s\<lparr>kopen := (kopen s)(?n \<mapsto> (f, 0)), knext := ?n + 1\<rparr>"
  define s2 where "s2 = s1\<lparr>kfiles := (kfiles s)(f \<mapsto> patch ?o ?d content),
    kopen := ((kopen s1)(?n \<mapsto> (f, ?o + length ?d)))(?n := None)\<rparr>"
  define s3 where "s3 = s2\<lparr>knext := 2 + ?n, kopen := (kopen s2)(?n + 1 := None)\<rparr>"
  have wr: "run fs_kernel (nfs_write_1_svc old w k') s =
      (case run fs_kernel (k' (uint (w_size w))) s2 of (t, e) \<Rightarrow> (line (''Got a write req '' @ f) # t, e))" for k'
    using assms(1,2,6) n
    by (simp add: nfs_write_1_svc_def Let_def s1_def s2_def nats sz min_def split: prod.splits)
  have rd: "run fs_kernel (nfs_read_1_svc res r k') s2 =
      (case run fs_kernel (k' (res\<lparr>buffer := overwrite (buffer res) ?d, size := w_size w\<rparr>)) s3 of
        (t, e) \<Rightarrow> (line (''Got a read request '' @ f @ '' '' @ dec (int (length f))) # t, e))" for k'
    using assms(3-7) n again fits len sz
    by (simp add: nfs_read_1_svc_def Let_def s1_def s2_def s3_def nats split: prod.splits)
  have "kfiles s3 = (kfiles s)(f \<mapsto> patch ?o ?d content)" by (simp add: s3_def s2_def)
  then show ?thesis by (intro exI [of _ s3]) (simp add: wr rd split: prod.splits)
qed


theorem nfs_read_after_write_witness:
  "\<exists>s'. run fs_kernel
      (nfs_write_1_svc 0 \<lparr>w_filename = lit ''notes'', w_offset = 3, w_buffer = ''xyz'' @ zeros 1021, w_size = 2\<rparr>
        (\<lambda>n. nfs_read_1_svc \<lparr>buffer = zeros 1024, size = 0\<rparr>
          \<lparr>r_filename = lit ''notes'', r_offset = 3, r_size = 2\<rparr> (\<lambda>res. Exit n)))
      \<lparr>kfiles = [''notes'' \<mapsto> ''abcdefg''], kopen = Map.empty, knext = 3\<rparr> =
    ([line (''Got a write req '' @ ''notes''),
      line (''Got a read request '' @ ''notes'' @ '' '' @ dec (int (length ''notes'')))], Exited 2, s') \<and>
   kfiles s' = [''notes'' \<mapsto> ''abcxyfg'']"
proof -
  have c: "c_str (lit ''notes'') = ''notes''" by (simp add: c_str_lit no_nul_def)
  let ?w = "\<lparr>w_filename = lit ''notes'', w_offset = 3, w_buffer = ''xyz'' @ zeros 1021, w_size = 2\<rparr>"
    and ?r = "\<lparr>r_filename = lit ''notes'', r_offset = 3, r_size = 2\<rparr>"
    and ?res = "\<lparr>buffer = zeros 1024, size = 0\<rparr>"
    and ?s = "\<lparr>kfiles = [''notes'' \<mapsto> ''abcdefg''], kopen = Map.empty, knext = 3\<rparr>"
  have p: "patch 3 ''xy'' ''abcdefg'' = ''abcxyfg''" by (simp add: patch_def zeros_def)
  have "\<exists>s'. run fs_kernel (nfs_write_1_svc 0 ?w (\<lambda>n. nfs_read_1_svc ?res ?r ((\<lambda>n res. Exit n) n))) ?s =
      (case run fs_kernel ((\<lambda>n res. Exit n) (uint (w_size ?w))
          (?res\<lparr>buffer := overwrite (buffer ?res) (take (unat (w_size ?w)) (w_buffer ?w)), size := w_size ?w\<rparr>)) s' of
        (t, e) \<Rightarrow> (line (''Got a write req '' @ ''notes'') #
          line (''Got a read request '' @ ''notes'' @ '' '' @ dec (int (length ''notes''))) # t, e)) \<and>
    kfiles s' = (kfiles ?s)(''notes'' \<mapsto>
      patch (unat (w_offset ?w)) (take (unat (w_size ?w)) (w_buffer ?w)) ''abcdefg'')"
    by (rule nfs_read_after_write) (simp_all add: c length_zeros)
  then show ?thesis by (simp add: p)
qed

text \<open>
  The read procedure closes the file it opened exactly when the seek
  succeeded: for an accessible regular file that opens as fd, its calls end in Close fd, except
  when lseek fails, where it returns with the descriptor open.
\<close>

theorem nfs_read_closes:
  assumes "0 \<le> ret a" and "S_ISREG (st_field 0 sb)" and "ret l < 0 \<or> ret r \<le> int (length (buffer result))"
  shows "calls (trace (nfs_read_1_svc result argp (\<lambda>_. Exit 0)) [a, sb, rets fd, l, r, rets 0]) =
    [Access (c_str (r_filename argp)), Stat (c_str (r_filename argp)),
     Open (c_str (r_filename argp)) [O_RDONLY], Lseek fd (uint (r_offset argp))] @
    (if ret l < 0 then [] else [Read fd (uint (r_size argp)), Close fd])"
proof -
  have "length (got (uint (r_size argp)) r) \<le> length (buffer result)" if "0 \<le> ret l"
    using assms(3) that by (auto simp: got_def min_def)
  with assms(1,2) show ?thesis by (auto simp: nfs_read_1_svc_def Let_def not_less)
qed

theorem nfs_read_closes_witness:
  "calls (trace (nfs_read_1_svc \<lparr>buffer = zeros 1024, size = 0\<rparr>
      \<lparr>r_filename = lit ''f'', r_offset = 0, r_size = 5\<rparr> (\<lambda>_. Exit 0))
      [rets 0, gets_ints 0 [33188], rets 7, rets (- 1), rets 0, rets 0]) =
    [Access ''f'', Stat ''f'', Open ''f'' [O_RDONLY], Lseek 7 0]"
proof -
  have c: "c_str (lit ''f'') = ''f''" by (simp add: c_str_lit no_nul_def)
  show ?thesis
    using nfs_read_closes [of "rets 0" "gets_ints 0 [33188]" "rets (- 1)" "rets 0"
        "\<lparr>buffer = zeros 1024, size = 0\<rparr>" "\<lparr>r_filename = lit ''f'', r_offset = 0, r_size = 5\<rparr>" 7]
    by (simp add: c)
qed

text \<open>
  For a file that exists and whose owner has a name the attribute
  procedure never answers: sprintf formats the name from buf into buf, which is undefined.
\<close>

theorem getattr_never_answers:
  assumes "0 \<le> ret a" and "20 \<le> length (buffer result)" and "st_field 1 sb < 10" "0 \<le> st_field 1 sb"
    and "ret p = 0"
  shows "final_of (getattr_1_svc result argp k) (a # sb # p # as) = Undefined"
proof -
  let ?perms = "perms_of (st_field 0 sb)" and ?b = "buffer result"
  have p: "length ?perms = 10" by (simp add: perms_of_def)
  have nn: "no_nul ?perms" by (auto simp: perms_of_def no_nul_def)
  have d: "length (dec (st_field 1 sb)) = 1"
    using assms(3,4) by (simp add: dec_def dec_nat.simps [of "nat (st_field (Suc 0) sb)"] nat_less_iff)
  have b: "c_str (overwrite ?b (lit ?perms)) = ?perms" "length (overwrite ?b (lit ?perms)) = length ?b"
    "NUL \<in> set (overwrite ?b (lit ?perms))"
    using assms(2) p by (simp_all add: c_str_overwrite_lit [OF nn] length_overwrite length_lit)
      (simp add: overwrite_def lit_def)
  show ?thesis
    using assms p d b
    by (simp add: getattr_1_svc_def Let_def print_perms_def put_str_def strcat_def not_less)
qed

theorem getattr_never_answers_witness:
  "final_of (getattr_1_svc \<lparr>buffer = zeros 1024, size = 0\<rparr> \<lparr>buffer = lit ''f'', size = 0\<rparr> (\<lambda>_. Exit 0))
    [rets 0, gets_ints 0 [33188, 1, 0, 0, 5, 0], rets 0] = Undefined"
  by (rule getattr_never_answers) (simp_all add: length_zeros st_field_def)

text \<open>
  The client never reports a failed read: when the server answers
  size -1, the unsigned size is not below zero, and the client prints that it read -1 bytes and
  then the contents of the buffer.
\<close>

theorem client_read_error_unseen:
  assumes "length (r_filename (read_arg st)) = 128" and "length (cut_newline f) < 128"
    and "0 \<le> ret a" and "ints a = [- 1]" and "NUL \<in> set (dat a)"
  shows "printed (trace (client_read [f, off, n] st k) (a # as)) =
    [line (''Read '' @ dec (- 1) @ '' bytes''), line (c_str (dat a))] @
    printed (trace (k (st\<lparr>read_arg := \<lparr>r_filename = overwrite (r_filename (read_arg st)) (lit (cut_newline f)),
      r_offset = word_of_int (atoi (lit off)), r_size = word_of_int (atoi (lit n))\<rparr>\<rparr>)) as)"
  using assms
  by (simp add: client_read_def strcpy_arg_def put_str_def Let_def res_size_def print_result_def not_less)

definition some_args :: nfs_args where
  "some_args = (let b = \<lparr>buffer = zeros 1024, size = 0\<rparr> in
     \<lparr>ls_arg = b, write_arg = \<lparr>w_filename = zeros 128, w_offset = 0, w_buffer = zeros 1024, w_size = 0\<rparr>,
      read_arg = \<lparr>r_filename = zeros 128, r_offset = 0, r_size = 0\<rparr>, cd_arg = b, getattr_arg = b,
      setattr_arg = b, remove_arg = b, mkdir_arg = b, touch_arg = b\<rparr>)"

theorem client_read_error_unseen_witness:
  "printed (trace (client_read [''x'', ''0'', ''5''] some_args (\<lambda>_. Exit 0))
     [\<lparr>ret = 1, dat = lit ''old'', ints = [- 1]\<rparr>]) = [line (''Read '' @ dec (- 1) @ '' bytes''), line ''old'']"
proof -
  have "c_str (lit ''old'') = ''old''" by (simp add: c_str_lit no_nul_def)
  then show ?thesis
    using client_read_error_unseen [of some_args "''x''" "\<lparr>ret = 1, dat = lit ''old'', ints = [- 1]\<rparr>"
        "''0''" "''5''" "\<lambda>_. Exit 0" "[]"]
    by (simp add: some_args_def Let_def length_zeros cut_newline_def lit_def)
qed

text \<open>
  C40. perm_bit returns the value of an octal numeral of at most ten digits; its
  arithmetic does not overflow on those.
\<close>

theorem perm_bit_octal:
  assumes "list_all octal_digit s" and "length s \<le> 10"
  shows "perm_bit s = Some (octal s)"
  using perm_bit_from_octal [OF assms(1), of 0 0] assms(2) by (simp add: perm_bit_def)

theorem perm_bit_octal_witness: "perm_bit ''755'' = Some 493"
  using perm_bit_octal [of "''755''"] by (simp add: octal_digit_def octal_def)

end
