(* ===== verification/CN_Studio.thy ===== *)
theory CN_Studio imports CN_Sockets begin

text \<open>
  c137261@nitwstudios: a script asks a director for actors and sets, the director asks the
  studio and the actors' agency for their ports, asks each for permission, and passes the
  connections of those that agreed to the producer over a UNIX socket (SCM_RIGHTS), who pays
  them. Numbers travel as decimal strings in 30-byte buffers. Each program is a loop without
  end, unrolled n times; the arrays and counters that live across its turns are its state.
\<close>

section \<open>The script\<close>

text \<open>
  The numbers are read as actors and sets, the lists as sets (under the prompt for actors) and
  actors; a list of length zero or less is not an array.
\<close>

record script_st =
  sc_actors :: int
  sc_sets :: int
  sc_countbuffer :: string

definition script_turn :: "int \<Rightarrow> script_st \<Rightarrow> (script_st \<Rightarrow> prog) \<Rightarrow> prog" where
  "script_turn junk s again =
     Out (line ''Enter no of actors and sets needed'') (
     scan_int (sc_actors s) (\<lambda>actors.
     scan_int (sc_sets s) (\<lambda>sets.
     if actors \<le> 0 \<or> sets \<le> 0 then Undef else
     Out (line ''Enter actors needed'') (
     read_ints (nat sets) (replicate (nat sets) junk) (\<lambda>sets_list.
     Out (line ''Enter sets needed'') (
     read_ints (nat actors) (replicate (nat actors) junk) (\<lambda>actor_list.
     noted (Socket AF_INET SOCK_STREAM 0) ''socket'' (\<lambda>nfd.
     noted (Connect nfd (any_addr 4002)) ''accept'' (\<lambda>_.
     send_int nfd (sc_countbuffer s) sets 30 (\<lambda>b.
     send_int nfd b actors 30 (\<lambda>b.
     for_each sets_list (\<lambda>x b k. send_int nfd b x 30 k) b (\<lambda>b.
     for_each actor_list (\<lambda>x b k. send_int nfd b x 30 k) b (\<lambda>b.
     again \<lparr>sc_actors = actors, sc_sets = sets, sc_countbuffer = b\<rparr>)))))))))))))"

definition script_main :: "nat \<Rightarrow> int \<Rightarrow> script_st \<Rightarrow> prog" where
  "script_main n junk s = forever n (script_turn junk) s"

section \<open>The director\<close>

record director_st =
  d_actors :: "int list"
  d_sets :: "int list"
  d_actors_accp :: "int list"
  d_sets_accp :: "int list"
  d_s_a :: int
  d_a_a :: int
  d_buffer :: string
  d_setbuffer :: string
  d_actbuffer :: string
  d_newbuffer :: string
  d_namebuf :: string

text \<open>The loops that receive the list of actors and the list of sets.\<close>

definition receive_list ::
    "int \<Rightarrow> string \<Rightarrow> int \<Rightarrow> string \<Rightarrow> int list \<Rightarrow> (string \<Rightarrow> int list \<Rightarrow> prog) \<Rightarrow> prog" where
  "receive_list nfd label count b arr k =
     for_each [0..<nat count] (\<lambda>i (b, arr) k.
       recv_into nfd b 30 (\<lambda>b _.
       Out (line (label @ c_str b)) (
       arr_set arr (int i) (atoi b) (\<lambda>arr. k (b, arr)))))
     (b, arr) (\<lambda>(b, arr). k b arr)"

text \<open>One set: ask the studio for its port, connect there, keep the connection if it agrees.\<close>

definition ask_set :: "int \<Rightarrow> int \<Rightarrow> director_st \<Rightarrow> (director_st \<Rightarrow> prog) \<Rightarrow> prog" where
  "ask_set studfd index s k =
     send_int studfd (d_setbuffer s) index 30 (\<lambda>b.
     recv_into studfd b 30 (\<lambda>b _.
     let port = atoi b in
     Out (line (dec port)) (
     checked (Socket AF_INET SOCK_STREAM 0) ''socket'' (\<lambda>setfd.
     checked (Connect setfd (any_addr port)) ''connect'' (\<lambda>_.
     recv_into setfd b 30 (\<lambda>b _.
     let s = s\<lparr>d_setbuffer := b\<rparr> in
     if atoi b = 1 then
       arr_set (d_sets_accp s) (d_s_a s) setfd (\<lambda>arr.
       Out (line ''permission given for set'') (
       k (s\<lparr>d_sets_accp := arr, d_s_a := d_s_a s + 1\<rparr>)))
     else Out (line ''set is not available'') (k s)))))))"

definition ask_actor :: "int \<Rightarrow> int \<Rightarrow> director_st \<Rightarrow> (director_st \<Rightarrow> prog) \<Rightarrow> prog" where
  "ask_actor actfd index s k =
     send_int actfd (d_actbuffer s) index 30 (\<lambda>b.
     recv_into actfd b 30 (\<lambda>b _.
     let port = atoi b in
     Out (line (dec port)) (
     checked (Socket AF_INET SOCK_STREAM 0) ''socket'' (\<lambda>setfd.
     checked (Connect setfd (any_addr port)) ''accept'' (\<lambda>_.
     recv_into setfd b 30 (\<lambda>b _.
     let s = s\<lparr>d_actbuffer := b\<rparr> in
     if atoi b = 1 then
       arr_set (d_actors_accp s) (d_a_a s) setfd (\<lambda>arr.
       Out (line (''setfd'' @ dec setfd)) (
       Out (line ''permission given for actor'') (
       k (s\<lparr>d_actors_accp := arr, d_a_a := d_a_a s + 1\<rparr>))))
     else Out (line ''actor is not available'') (k s)))))))"

definition director_studio :: "int \<Rightarrow> director_st \<Rightarrow> (director_st \<Rightarrow> prog) \<Rightarrow> prog" where
  "director_studio set_count s k =
     checked (Socket AF_INET SOCK_STREAM 0) ''socket'' (\<lambda>studfd.
     checked (Connect studfd (any_addr 5000)) ''connect'' (\<lambda>_.
     put_str (d_setbuffer s) (dec set_count) (\<lambda>b.
     Out (line (''new set'' @ c_str b)) (
     send_str studfd b 30 (
     over_array set_count (d_sets s) (ask_set studfd) (s\<lparr>d_setbuffer := b\<rparr>) k)))))"

definition director_agency :: "int \<Rightarrow> director_st \<Rightarrow> (director_st \<Rightarrow> prog) \<Rightarrow> prog" where
  "director_agency actors_count s k =
     checked (Socket AF_INET SOCK_STREAM 0) ''socket'' (\<lambda>actfd.
     checked (Connect actfd (any_addr 6000)) ''connect'' (\<lambda>_.
     put_str (d_actbuffer s) (dec actors_count) (\<lambda>b.
     Out (line (''new set'' @ c_str b)) (
     send_str actfd b 30 (
     over_array actors_count (d_actors s) (ask_actor actfd) (s\<lparr>d_actbuffer := b\<rparr>) k)))))"

text \<open>The accepted connections go to the producer; s_a and a_a count those of all requests.\<close>

definition director_producer :: "director_st \<Rightarrow> (director_st \<Rightarrow> prog) \<Rightarrow> prog" where
  "director_producer s k =
     checked (Socket AF_UNIX SOCK_STREAM 0) ''socket error'' (\<lambda>usfd.
     checked (Connect usfd (UnixPath ''echo_socket'')) ''connect error'' (\<lambda>_.
     send_str usfd (lit ''From client to server'') 30 (
     recv_into usfd (d_newbuffer s) 30 (\<lambda>nb _.
     Out (line (c_str nb)) (
     send_int usfd (d_namebuf s) (d_s_a s) 30 (\<lambda>b.
     send_int usfd b (d_a_a s) 30 (\<lambda>b.
     over_array (d_s_a s) (d_sets_accp s) (\<lambda>fd _ k. send_file_descriptor usfd fd (\<lambda>_. k ())) () (\<lambda>_.
     over_array (d_a_a s) (d_actors_accp s) (\<lambda>fd _ k. send_file_descriptor usfd fd (\<lambda>_. k ())) () (\<lambda>_.
     k (s\<lparr>d_newbuffer := nb, d_namebuf := b\<rparr>))))))))))"

definition director_turn :: "int \<Rightarrow> director_st \<Rightarrow> (director_st \<Rightarrow> prog) \<Rightarrow> prog" where
  "director_turn sfd s again =
     checked (Accept sfd) ''accept'' (\<lambda>nfd.
     recv_into nfd (d_buffer s) 30 (\<lambda>b _. let actors_count = atoi b in
     recv_into nfd b 30 (\<lambda>b _. let set_count = atoi b in
     Out (line (''No of Actors'' @ dec actors_count)) (
     Out (line (''No of sets'' @ dec set_count)) (
     receive_list nfd ''buf :'' actors_count b (d_actors s) (\<lambda>b as.
     receive_list nfd ''buf2 :'' set_count b (d_sets s) (\<lambda>b ss.
     let s = s\<lparr>d_buffer := b, d_actors := as, d_sets := ss\<rparr> in
     over_array actors_count as (\<lambda>x _ k. Out (line (dec x)) (k ())) () (\<lambda>_.
     over_array set_count ss (\<lambda>x _ k. Out (line (dec x)) (k ())) () (\<lambda>_.
     director_studio set_count s (\<lambda>s.
     director_agency actors_count s (\<lambda>s.
     director_producer s again)))))))))))"

definition director_main :: "nat \<Rightarrow> director_st \<Rightarrow> prog" where
  "director_main n s =
     tcp_server 4002 ''bindme'' 5 (\<lambda>sfd. forever n (director_turn sfd) (s\<lparr>d_s_a := 0, d_a_a := 0\<rparr>))"

section \<open>The studio and the agency\<close>

text \<open>services[i].port = base + i; the index received is one more than the array index.\<close>

definition server_init :: "int \<Rightarrow> int list" where
  "server_init base = map (\<lambda>i. base + int i) [0..<4]"

definition tell_port :: "int \<Rightarrow> int list \<Rightarrow> string \<times> string \<Rightarrow> (string \<times> string \<Rightarrow> prog) \<Rightarrow> prog" where
  "tell_port nfd services = (\<lambda>(buffer, portbuffer) k.
     recv_into nfd buffer 30 (\<lambda>buffer _.
     let index = atoi buffer in
     Out (line (dec index)) (
     arr_get services (index - 1) (\<lambda>port.
     send_int nfd portbuffer port 30 (\<lambda>portbuffer. k (buffer, portbuffer))))))"

definition studio_turn :: "string \<Rightarrow> int list \<Rightarrow> int \<Rightarrow> string \<times> string \<Rightarrow> (string \<times> string \<Rightarrow> prog) \<Rightarrow> prog" where
  "studio_turn hello services sfd = (\<lambda>(buffer, portbuffer) again.
     checked (Accept sfd) ''accept'' (\<lambda>nfd.
     Out (line hello) (
     recv_into nfd buffer 30 (\<lambda>buffer _.
     for_each [0..<nat (atoi buffer)] (\<lambda>_. tell_port nfd services) (buffer, portbuffer) again))))"

definition studio_main :: "nat \<Rightarrow> string \<times> string \<Rightarrow> prog" where
  "studio_main n bufs =
     tcp_server 5000 ''bind'' 5 (\<lambda>sfd.
     forever n (studio_turn ''connected to studio'' (server_init 9000) sfd) bufs)"

definition agency_server_init :: "int list" where
  "agency_server_init = server_init 7000"

definition actor_main :: "nat \<Rightarrow> string \<times> string \<Rightarrow> prog" where
  "actor_main n bufs =
     tcp_server 6000 ''bind'' 5 (\<lambda>sfd.
     forever n (studio_turn ''connected to actors'' agency_server_init sfd) bufs)"

section \<open>Sets and actors\<close>

text \<open>
  The thread that waits for the raw packet: buf gets the string behind the IP header, whose
  length is in the packet; n receives are unrolled.
\<close>

definition thread_turn :: "int \<Rightarrow> string \<times> string \<Rightarrow> (string \<times> string \<Rightarrow> prog) \<Rightarrow> prog" where
  "thread_turn rsfd = (\<lambda>(buffer, buf) again.
     Out (line ''came'') (
     Call (Recvfrom rsfd 1024) (\<lambda>a.
     store 1024 buffer a (\<lambda>buffer.
     let iphdrlen = 4 * nat (of_char (buffer ! 0) mod 16); msg = drop iphdrlen buffer in
     put_str buf (c_str msg) (\<lambda>buf.
     Out (''Message from producer: '' @ c_str buf) (
     if 1 < ret a then Out (line (''r value'' @ dec (ret a))) (Exit 0) else again (buffer, buf)))))))"

definition thread_func :: "nat \<Rightarrow> string \<times> string \<Rightarrow> prog" where
  "thread_func n bufs =
     Out (line ''thread created raw'') (
     Call (Socket AF_INET SOCK_RAW 101) (\<lambda>s.
     Call (Setsockopt (ret s) IP_HDRINCL) (\<lambda>_. forever n (thread_turn (ret s)) bufs)))"

text \<open>
  The thread of a client: the permission that the counter allows, the counter's next value, and
  what the thread does with it. Exit 0 is the end of the thread.
\<close>

definition grant :: "int \<Rightarrow> int \<times> int" where
  "grant available_count =
     (if available_count = 0 \<or> available_count = 2 then 1 else 0, available_count + 1)"

definition thread_funcmain :: "int \<Rightarrow> string \<Rightarrow> string \<Rightarrow> int \<Rightarrow> prog" where
  "thread_funcmain nfd permbuffer newbuf available_count =
     Out (line (''available_count'' @ dec available_count)) (
     send_int nfd permbuffer (fst (grant available_count)) 30 (\<lambda>_.
     if fst (grant available_count) = 1 then
       Call (Pthread_create ''thread_func'' '''') (\<lambda>_.
       read_into nfd newbuf 30 (\<lambda>nb _. Out (line (c_str nb)) (Exit 0)))
     else Exit 0))"

text \<open>The main of set.c: five thread handles, one per client.\<close>

definition set_turn :: "string \<Rightarrow> int \<Rightarrow> int \<Rightarrow> (int \<Rightarrow> prog) \<Rightarrow> prog" where
  "set_turn hello sfd clients_no again =
     checked (Accept sfd) ''accept'' (\<lambda>nfd.
     Out (line hello) (
     Out (line (dec nfd)) (
     if 5 \<le> clients_no then Undef else
     Call (Pthread_create ''thread_funcmain'' ''&nfd'') (\<lambda>_. again (clients_no + 1)))))"

definition set_main :: "nat \<Rightarrow> string list \<Rightarrow> prog" where
  "set_main n argv =
     (if length argv < 2 then Undef else
      tcp_server (atoi (lit (argv ! 1))) ''bind'' 5 (\<lambda>sfd. forever n (set_turn ''connected to set'' sfd) 0))"

text \<open>act.c has the text of set.c but for the word it prints.\<close>

definition act_thread_func :: "nat \<Rightarrow> string \<times> string \<Rightarrow> prog" where
  "act_thread_func = thread_func"

definition act_thread_funcmain :: "int \<Rightarrow> string \<Rightarrow> string \<Rightarrow> int \<Rightarrow> prog" where
  "act_thread_funcmain = thread_funcmain"

definition act_main :: "nat \<Rightarrow> string list \<Rightarrow> prog" where
  "act_main n argv =
     (if length argv < 2 then Undef else
      tcp_server (atoi (lit (argv ! 1))) ''bind'' 5 (\<lambda>sfd. forever n (set_turn ''connected to actor'' sfd) 0))"

section \<open>The producer\<close>

record producer_st =
  p_sets :: "int list"
  p_actors :: "int list"
  p_buffer :: string

text \<open>The loops that receive descriptors, and that pay them.\<close>

definition receive_fds :: "int \<Rightarrow> int \<Rightarrow> int list \<Rightarrow> (int list \<Rightarrow> prog) \<Rightarrow> prog" where
  "receive_fds nfd count arr k =
     for_each [0..<nat count] (\<lambda>i arr k.
       recv_file_descriptor nfd (\<lambda>fd. arr_set arr (int i) fd k)) arr k"

definition pay :: "string \<Rightarrow> int \<Rightarrow> int list \<Rightarrow> prog \<Rightarrow> prog" where
  "pay label count arr k =
     over_array count arr (\<lambda>fd _ k.
       Out (line (label @ dec fd)) (write_str fd (lit ''payment done'') 30 (k ()))) () (\<lambda>_. k)"

text \<open>
  The raw datagram: a 20-byte IP header with the kernel's fields left zero and the message
  behind it; 1024 bytes are sent whatever the message's length.
\<close>

definition producer_packet :: "string \<Rightarrow> string" where
  "producer_packet msg =
     (let tot = 20 + length msg;
          hdr = [char_of (69 :: nat), NUL, char_of (tot div 256), char_of tot, NUL, NUL, NUL, NUL,
                 char_of (8 :: nat), char_of (101 :: nat), NUL, NUL] @
                map char_of [127, 0, 1, 1 :: nat] @ map char_of [127, 0, 0, 1 :: nat]
      in overwrite (zeros 1024) (hdr @ lit msg))"

definition producer_message :: "prog \<Rightarrow> prog" where
  "producer_message k =
     checked (Socket AF_INET SOCK_RAW 101) ''socket'' (\<lambda>rsfd.
     Call (Setsockopt rsfd IP_HDRINCL) (\<lambda>_.
     Out ''Enter Message:'' (
     Call Scanf_str (\<lambda>a.
     let msg = (if ret a = 1 then dat a else '''') in
     if 128 \<le> length msg then Undef else
     Call (Sendto rsfd (producer_packet msg) 1024 (Inet 0 0)) (\<lambda>r.
     if ret r < 0 then Perror ''sendto() '' k else k)))))"

definition producer_turn :: "int \<Rightarrow> producer_st \<Rightarrow> (producer_st \<Rightarrow> prog) \<Rightarrow> prog" where
  "producer_turn sfd s again =
     checked (Accept sfd) ''accept error'' (\<lambda>nfd.
     recv_into nfd (p_buffer s) 30 (\<lambda>b _.
     Out (line (c_str b)) (
     send_str nfd (lit ''hello from server'') 30 (
     recv_into nfd b 30 (\<lambda>b _. let set_count = atoi b in
     recv_into nfd b 30 (\<lambda>b _. let actor_count = atoi b in
     Out (line (''Set count'' @ dec set_count)) (
     Out (line (''Actor count'' @ dec actor_count)) (
     receive_fds nfd set_count (p_sets s) (\<lambda>ss.
     receive_fds nfd actor_count (p_actors s) (\<lambda>as.
     pay ''set fd:'' set_count ss (
     pay ''actor fd:'' actor_count as (
     producer_message (again \<lparr>p_sets = ss, p_actors = as, p_buffer = b\<rparr>)))))))))))))"

definition producer_main :: "nat \<Rightarrow> producer_st \<Rightarrow> prog" where
  "producer_main n s =
     checked (Socket AF_UNIX SOCK_STREAM 0) ''socket error'' (\<lambda>sfd.
     Call (Unlink ''echo_socket'') (\<lambda>_.
     checked (Bind sfd (UnixPath ''echo_socket'')) ''bind error'' (\<lambda>_.
     checked (Listen sfd 5) ''listen error'' (\<lambda>_. forever n (producer_turn sfd) s))))"

section \<open>What the studio programs do\<close>

lemma trace_director_counts:
  assumes "length (d_buffer d) = 30" "length b1 = 30" "length b2 = 30" "0 < atoi b1"
  shows "printed (trace (director_turn sfd d again) [rets (int dfd), gives b1, gives b2]) =
    [line (''No of Actors'' @ dec (atoi b1)), line (''No of sets'' @ dec (atoi b2))]"
proof -
  have "[0..<nat (atoi b1)] = 0 # [Suc 0..<nat (atoi b1)]"
    using assms(4) by (simp add: upt_conv_Cons)
  with assms show ?thesis
    by (simp add: director_turn_def Let_def overwrite_def receive_list_def recv_into_def)
qed

text \<open>
  The director takes the sets for the actors: when the user of the
  script asks for a actors and s sets, the first two messages that the script sends are such
  that the director, given them, prints s as the number of actors and a as the number of sets.
\<close>

theorem director_swaps_counts:
  assumes "length actor_list = a" and "length sets_list = s" and "0 < a" and "0 < s"
    and "int32 (int a)" and "int32 (int s)"
    and "length (sc_countbuffer st) = 30" and "length (d_buffer d) = 30"
  shows "\<exists>b1 b2.
    sent nfd (calls (trace (script_turn junk st again)
      ([typed (int a), typed (int s)] @ map typed sets_list @ map typed actor_list @
       [rets nfd, rets 0, rets 30, rets 30]))) = [b1, b2] \<and>
    printed (trace (director_turn sfd d again') [rets (int dfd), gives b1, gives b2]) =
      [line (''No of Actors'' @ dec (int s)), line (''No of sets'' @ dec (int a))]"
proof -
  let ?b1 = "overwrite (sc_countbuffer st) (lit (dec (int s)))"
  let ?b2 = "overwrite ?b1 (lit (dec (int a)))"
  have fit: "length (dec (int s)) < 12" "length (dec (int a)) < 12"
    using assms(5,6) by (simp_all add: length_dec_int32)
  then have len: "length ?b1 = 30" "length ?b2 = 30"
    using assms(7) by (simp_all add: length_overwrite length_lit)
  have val: "atoi ?b1 = int s" "atoi ?b2 = int a"
    using atoi_sent_int [OF assms(6), of "sc_countbuffer st" 30] atoi_sent_int [OF assms(5), of ?b1 30]
      assms(7) len by simp_all
  have rs: "trace (read_ints s (replicate s junk) k) (map typed sets_list @ as) =
      map (\<lambda>x. Did Scanf_int (typed x)) sets_list @ trace (k sets_list) as" for k as
    using exec_read_ints [of sets_list "replicate s junk" k as] assms(2)
    by (simp add: trace_def split: prod.splits)
  have ra: "trace (read_ints a (replicate a junk) k) (map typed actor_list @ as) =
      map (\<lambda>x. Did Scanf_int (typed x)) actor_list @ trace (k actor_list) as" for k as
    using exec_read_ints [of actor_list "replicate a junk" k as] assms(1)
    by (simp add: trace_def split: prod.splits)
  have scan: "sent nfd (calls (map (\<lambda>x. Did Scanf_int (typed x)) xs)) = []" for xs
    by (induction xs) auto
  have "sent nfd (calls (trace (script_turn junk st again)
      ([typed (int a), typed (int s)] @ map typed sets_list @ map typed actor_list @
       [rets nfd, rets 0, rets 30, rets 30]))) = [?b1, ?b2]"
    using assms(3,4) fit len assms(7) by (simp add: script_turn_def rs ra scan)
  moreover have "printed (trace (director_turn sfd d again') [rets (int dfd), gives ?b1, gives ?b2]) =
      [line (''No of Actors'' @ dec (int s)), line (''No of sets'' @ dec (int a))]"
    using trace_director_counts [OF assms(8) len] val assms(4) by simp
  ultimately show ?thesis by blast
qed

definition some_director :: director_st where
  "some_director = \<lparr>d_actors = replicate 5 0, d_sets = replicate 5 0, d_actors_accp = [7, 8, 0, 0, 0],
     d_sets_accp = [9, 0, 0, 0, 0], d_s_a = 1, d_a_a = 2, d_buffer = zeros 30, d_setbuffer = zeros 30,
     d_actbuffer = zeros 30, d_newbuffer = zeros 30, d_namebuf = zeros 30\<rparr>"

theorem director_swaps_counts_witness:
  "\<exists>b1 b2.
    sent 5 (calls (trace (script_turn 0 \<lparr>sc_actors = 0, sc_sets = 0, sc_countbuffer = zeros 30\<rparr> (\<lambda>_. Cut))
      ([typed (int 1), typed (int 2)] @ map typed [3, 4] @ map typed [1] @
       [rets 5, rets 0, rets 30, rets 30]))) = [b1, b2] \<and>
    printed (trace (director_turn 3 some_director (\<lambda>_. Cut)) [rets (int 4), gives b1, gives b2]) =
      [line (''No of Actors'' @ dec (int 2)), line (''No of sets'' @ dec (int 1))]"
  by (rule director_swaps_counts) (simp_all add: some_director_def int32_def length_zeros)

lemma tell_ports:
  assumes "int32 base" "int32 (base + 3)"
  shows "list_all (\<lambda>m. length m = 30 \<and> 1 \<le> atoi m \<and> atoi m \<le> 4) ms \<Longrightarrow> length xs = length ms \<Longrightarrow>
    length (fst bufs) = 30 \<Longrightarrow> length (snd bufs) = 30 \<Longrightarrow>
    map atoi (sent nfd (calls (trace (for_each xs (\<lambda>_. tell_port nfd (server_init base)) bufs k)
      (concat (map (\<lambda>m. [gives m, rets 30]) ms))))) = map (\<lambda>m. base + atoi m - 1) ms"
proof (induction ms arbitrary: xs bufs)
  case Nil
  then show ?case by simp
next
  case (Cons m ms)
  obtain x xs' where xs: "xs = x # xs'" using Cons.prems(2) by (cases xs) auto
  obtain b pb where bufs: "bufs = (b, pb)" by fastforce
  let ?port = "base + atoi m - 1"
  have m: "length m = 30" "1 \<le> atoi m" "atoi m \<le> 4" using Cons.prems(1) by simp_all
  have port: "server_init base ! nat (atoi m - 1) = ?port" "length (server_init base) = 4"
    using m by (simp_all add: server_init_def)
  have fit: "int32 ?port" using assms m by (auto simp: int32_def)
  then have len: "length (dec ?port) < 12" by (rule length_dec_int32)
  let ?pb = "overwrite pb (lit (dec ?port))"
  have pb: "length ?pb = 30" "length pb = 30" using Cons.prems(4) bufs len by (simp_all add: length_overwrite length_lit)
  have val: "atoi ?pb = ?port"
    using atoi_sent_int [OF fit, of pb 30] pb by simp
  have "map atoi (sent nfd (calls (trace (for_each xs' (\<lambda>_. tell_port nfd (server_init base)) (overwrite b m, ?pb) k)
      (concat (map (\<lambda>m. [gives m, rets 30]) ms))))) = map (\<lambda>m. base + atoi m - 1) ms"
    using Cons.prems bufs xs pb m by (intro Cons.IH) (simp_all add: length_overwrite)
  then show ?case
    using m pb len Cons.prems(3,4) bufs port val
    by (simp add: xs tell_port_def Let_def) (simp add: overwrite_def)
qed

text \<open>
  The studio (base 9000) and the agency (base 7000) answer every index
  from 1 to 4 with the port of that service, base + index - 1, in the order asked; atoi reads
  those numbers back from the bytes of the answers.
\<close>

theorem studio_answers_ports:
  assumes "base \<in> {7000, 9000}" and "length c = 30" and "atoi c = int (length ms)"
    and "list_all (\<lambda>m. length m = 30 \<and> 1 \<le> atoi m \<and> atoi m \<le> 4) ms"
    and "length (fst bufs) = 30" and "length (snd bufs) = 30"
  shows "map atoi (sent nfd (calls (trace (studio_turn hello (server_init base) sfd bufs again)
      (\<lparr>ret = nfd, dat = '''', ints = []\<rparr> # gives c # concat (map (\<lambda>m. [gives m, rets 30]) ms))))) =
    (if 0 \<le> nfd then map (\<lambda>m. base + atoi m - 1) ms else [])"
proof -
  obtain b pb where bufs: "bufs = (b, pb)" by fastforce
  let ?b = "overwrite b c"
  have lb: "length ?b = 30" using assms(2,5) bufs by (simp add: length_overwrite)
  have "overwrite b c = c" using assms(2,5) bufs by (simp add: overwrite_def)
  then have n: "nat (atoi ?b) = length ms" using assms(3) by simp
  have base: "int32 base" "int32 (base + 3)" using assms(1) by (auto simp: int32_def)
  have "map atoi (sent nfd (calls (trace (for_each [0..<length ms] (\<lambda>_. tell_port nfd (server_init base)) (?b, pb) again)
      (concat (map (\<lambda>m. [gives m, rets 30]) ms))))) = map (\<lambda>m. base + atoi m - 1) ms"
    by (rule tell_ports [OF base assms(4)]) (use assms(6) bufs lb in simp_all)
  with assms(2,5) bufs n show ?thesis
    by (simp add: studio_turn_def checked_def error_perror_exit_def)
qed

theorem studio_answers_ports_witness:
  "map atoi (sent 4 (calls (trace (studio_turn ''hi'' (server_init 9000) 3 (zeros 30, zeros 30) (\<lambda>_. Cut))
      (\<lparr>ret = 4, dat = '''', ints = []\<rparr> # gives (''2'' @ zeros 29) #
       concat (map (\<lambda>m. [gives m, rets 30]) [''1'' @ zeros 29, ''4'' @ zeros 29]))))) =
   (if (0 :: int) \<le> 4 then map (\<lambda>m. 9000 + atoi m - 1) [''1'' @ zeros 29, ''4'' @ zeros 29] else [])"
proof (rule studio_answers_ports)
  have "atoi (''1'' @ zeros 29) = 1" "atoi (''4'' @ zeros 29) = 4" "atoi (''2'' @ zeros 29) = 2"
    by code_simp+
  then show "atoi (''2'' @ zeros 29) = int (length [''1'' @ zeros 29, ''4'' @ zeros 29])"
    "list_all (\<lambda>m. length m = 30 \<and> 1 \<le> atoi m \<and> atoi m \<le> 4) [''1'' @ zeros 29, ''4'' @ zeros 29]"
    by (simp_all add: length_zeros)
qed (simp_all add: length_zeros)

lemma grant_iterate: "((\<lambda>c. snd (grant c)) ^^ i) 0 = int i"
  by (induction i) (auto simp: grant_def)

text \<open>
  The threads of a set or an actor, run one after the other from
  the counter's start, send permission 1 to the first and to the third client and 0 to every
  other; the counter counts the clients.
\<close>

theorem set_grants_first_and_third:
  assumes "length permbuffer = 30"
  shows "map atoi (sent nfd (calls (trace
      (thread_funcmain nfd permbuffer newbuf (((\<lambda>c. snd (grant c)) ^^ i) 0)) [a]))) =
    [if i = 0 \<or> i = 2 then 1 else 0]"
proof -
  define p :: int where "p = (if i = 0 \<or> i = 2 then 1 else 0)"
  then have "int32 p" by (simp add: int32_def)
  then have "length (dec p) < length permbuffer" "atoi (take 30 (overwrite permbuffer (lit (dec p)))) = p"
    using atoi_sent_int [of p permbuffer 30] length_dec_int32 [of p] assms by simp_all
  moreover have "fst (grant (int i)) = p" by (simp add: grant_def p_def)
  ultimately show ?thesis
    unfolding thread_funcmain_def grant_iterate p_def [symmetric] by simp
qed

theorem set_grants_first_and_third_witness:
  "map atoi (sent 4 (calls (trace
      (thread_funcmain 4 (zeros 30) (zeros 30) (((\<lambda>c. snd (grant c)) ^^ 2) 0)) [rets 30]))) =
    [if (2 :: nat) = 0 \<or> (2 :: nat) = 2 then 1 else 0]"
  by (rule set_grants_first_and_third) (simp add: length_zeros)

lemma trace_receive_fds:
  "i + length fds \<le> length arr \<Longrightarrow>
    trace (for_each [i..<i + length fds] (\<lambda>i arr k. recv_file_descriptor nfd (\<lambda>fd. arr_set arr (int i) fd k)) arr k)
      (map passed fds @ as) =
    map (\<lambda>fd. Did (Recvmsg nfd) (passed fd)) fds @
      trace (k (take i arr @ fds @ drop (i + length fds) arr)) as"
proof (induction fds arbitrary: i arr)
  case (Cons fd fds)
  have upt: "[i..<i + length (fd # fds)] = i # [Suc i..<Suc i + length fds]"
    by (subst upt_Suc_Cons) simp_all
  have "take (Suc i) (arr[i := fd]) @ fds @ drop (Suc i + length fds) (arr[i := fd]) =
      take i arr @ (fd # fds) @ drop (i + length (fd # fds)) arr"
    using Cons.prems by (simp add: take_Suc_conv_app_nth)
  with Cons.IH [of "Suc i" "arr[i := fd]"] Cons.prems show ?case
    unfolding upt by (simp del: upt_Suc)
qed simp

lemma trace_pay:
  assumes "length fds \<le> length arr" "take (length fds) arr = fds" "length bs = length fds"
  shows "calls (trace (pay label (int (length fds)) arr k) (bs @ as)) =
    map (\<lambda>fd. Write fd (lit ''payment done'') 30) fds @ calls (trace k as)"
  unfolding pay_def using assms
  by (simp add: over_array_take)
    (rule trace_each_line, simp_all add: write_str_def)

definition writes :: "call list \<Rightarrow> call list" where
  "writes cs = [c \<leftarrow> cs. case c of Write fd obj n \<Rightarrow> True | _ \<Rightarrow> False]"

text \<open>
  The producer pays every connection it is passed once and in order:
  given the counts and then the descriptors ss of the sets and as of the actors, at most five
  each, its writes are one payment to each of them.
\<close>

theorem producer_pays_each_once:
  assumes "length (p_buffer s) = 30" and "length m = 30" and "length c1 = 30" and "length c2 = 30"
    and "atoi c1 = int (length ss)" and "atoi c2 = int (length as)"
    and "length (p_sets s) = 5" and "length (p_actors s) = 5" and "length ss \<le> 5" and "length as \<le> 5"
  shows "writes (calls (trace (producer_turn sfd s again)
      ([rets (int nfd), gives m, rets 30, gives c1, gives c2] @ map passed ss @ map passed as @
       map (\<lambda>_. rets 30) ss @ map (\<lambda>_. rets 30) as))) =
    map (\<lambda>fd. Write fd (lit ''payment done'') 30) (ss @ as)"
proof -
  have ow: "overwrite (p_buffer s) m = m" "overwrite m c1 = c1" "overwrite c1 c2 = c2"
    using assms(1-4) by (simp_all add: overwrite_def)
  have r: "trace (receive_fds (int nfd) (int (length fds)) arr k) (map passed fds @ as) =
      map (\<lambda>fd. Did (Recvmsg (int nfd)) (passed fd)) fds @ trace (k (fds @ drop (length fds) arr)) as"
    if "length fds \<le> length arr" for fds arr k as
    using trace_receive_fds [of 0 fds arr] that by (simp add: receive_fds_def)
  have no_writes: "writes (calls (map (\<lambda>fd. Did (Recvmsg nfd') (passed fd)) fds)) = []" for nfd' fds
    by (induction fds) (auto simp: writes_def)
  have all_writes: "writes (map (\<lambda>fd. Write fd (lit ''payment done'') 30) fds) =
      map (\<lambda>fd. Write fd (lit ''payment done'') 30) fds" for fds
    by (induction fds) (auto simp: writes_def)
  have app: "writes (xs @ ys) = writes xs @ writes ys" for xs ys by (simp add: writes_def)
  let ?ps = "ss @ drop (length ss) (p_sets s)" and ?pa = "as @ drop (length as) (p_actors s)"
  let ?fin = "producer_message (again \<lparr>p_sets = ?ps, p_actors = ?pa, p_buffer = c2\<rparr>)"
  have "calls (trace (pay ''set fd:'' (int (length ss)) ?ps (pay ''actor fd:'' (int (length as)) ?pa ?fin))
      (map (\<lambda>_. rets 30) ss @ map (\<lambda>_. rets 30) as @ [])) =
    map (\<lambda>fd. Write fd (lit ''payment done'') 30) (ss @ as)"
    by (subst trace_pay, simp_all, subst trace_pay [where as = "[]", simplified], simp_all)
  then have p: "writes (calls (trace (pay ''set fd:'' (int (length ss)) ?ps (pay ''actor fd:'' (int (length as)) ?pa ?fin))
      (map (\<lambda>_. rets 30) ss @ map (\<lambda>_. rets 30) as))) = map (\<lambda>fd. Write fd (lit ''payment done'') 30) (ss @ as)"
    using all_writes [of "ss @ as"] by simp
  have first: "writes (Accept sfd # Recv f 30 # Send f o' 30 # Recv f 30 # Recv f 30 # cs) = writes cs" for f o' cs
    by (simp add: writes_def)
  show ?thesis
    using assms ow r [of ss "p_sets s"] r [of as "p_actors s"]
    by (simp add: producer_turn_def Let_def app no_writes p first)
qed

theorem producer_pays_each_once_witness:
  "writes (calls (trace (producer_turn 3 \<lparr>p_sets = replicate 5 0, p_actors = replicate 5 0, p_buffer = zeros 30\<rparr> (\<lambda>_. Cut))
      ([rets (int 4), gives (zeros 30), rets 30, gives (''2'' @ zeros 29), gives (''1'' @ zeros 29)] @
       map passed [7, 8] @ map passed [9] @ map (\<lambda>_. rets 30) [7, 8 :: int] @ map (\<lambda>_. rets 30) [9 :: int]))) =
    map (\<lambda>fd. Write fd (lit ''payment done'') 30) ([7, 8] @ [9])"
proof (rule producer_pays_each_once)
  show "atoi (''2'' @ zeros 29) = int (length [7, 8 :: int])"
    "atoi (''1'' @ zeros 29) = int (length [9 :: int])" by code_simp+
qed (simp_all add: length_zeros)

text \<open>
  The director's counters run on over the requests: a
  request for no actors and no sets still passes the producer the counts and the connections of
  all those that agreed in earlier requests.
\<close>

theorem director_passes_old_connections:
  assumes "d_s_a s = int (length ss)" and "d_a_a s = int (length as)"
    and "take (length ss) (d_sets_accp s) = ss" and "take (length as) (d_actors_accp s) = as"
    and "length ss \<le> length (d_sets_accp s)" and "length as \<le> length (d_actors_accp s)"
    and "length ss \<le> 5" and "length as \<le> 5"
    and "length (d_newbuffer s) = 30" and "length (d_namebuf s) = 30" and "0 \<le> ret u" and "0 \<le> ret c"
  shows "calls (trace (director_producer s again) ([u, c, rets 30, r, rets 30, rets 30] @
      map (\<lambda>_. rets 1) ss @ map (\<lambda>_. rets 1) as)) =
    [Socket AF_UNIX SOCK_STREAM 0, Connect (ret u) (UnixPath ''echo_socket''),
     Send (ret u) (lit ''From client to server'') 30, Recv (ret u) 30,
     Send (ret u) (overwrite (d_namebuf s) (lit (dec (int (length ss))))) 30,
     Send (ret u) (overwrite (overwrite (d_namebuf s) (lit (dec (int (length ss))))) (lit (dec (int (length as))))) 30] @
    map (Sendmsg (ret u) '' '') (ss @ as)"
proof -
  have fit: "length (dec (int (length ss))) < 12" "length (dec (int (length as))) < 12"
    using assms(7,8) by (intro length_dec_int32; simp add: int32_def)+
  then have len: "length (overwrite (d_namebuf s) (lit (dec (int (length ss))))) = 30"
    using assms(10) by (simp add: length_overwrite length_lit)
  have each: "calls (trace (for_each fds (\<lambda>fd _ k. send_file_descriptor (ret u) fd (\<lambda>_. k ())) () k)
      (map (\<lambda>_. rets 1) fds @ as')) = map (Sendmsg (ret u) '' '') fds @ calls (trace (k ()) as')" for fds k as'
    by (subst trace_each_call [where c = "Sendmsg (ret u) '' ''"])
      (simp_all add: send_file_descriptor_def)
  have "calls (trace (director_producer s again) ([u, c, rets 30, r, rets 30, rets 30] @
      map (\<lambda>_. rets 1) ss @ map (\<lambda>_. rets 1) as @ [])) =
    [Socket AF_UNIX SOCK_STREAM 0, Connect (ret u) (UnixPath ''echo_socket''),
     Send (ret u) (lit ''From client to server'') 30, Recv (ret u) 30,
     Send (ret u) (overwrite (d_namebuf s) (lit (dec (int (length ss))))) 30,
     Send (ret u) (overwrite (overwrite (d_namebuf s) (lit (dec (int (length ss))))) (lit (dec (int (length as))))) 30] @
    map (Sendmsg (ret u) '' '') (ss @ as)"
    using assms fit len
    by (simp add: director_producer_def over_array_take each del: append_Nil2)
  then show ?thesis by simp
qed

theorem director_passes_old_connections_witness:
  "calls (trace (director_producer some_director (\<lambda>_. Cut)) ([rets 5, rets 0, rets 30, rets 0, rets 30, rets 30] @
      map (\<lambda>_. rets 1) [9 :: int] @ map (\<lambda>_. rets 1) [7, 8 :: int])) =
    [Socket AF_UNIX SOCK_STREAM 0, Connect (ret (rets 5)) (UnixPath ''echo_socket''),
     Send (ret (rets 5)) (lit ''From client to server'') 30, Recv (ret (rets 5)) 30,
     Send (ret (rets 5)) (overwrite (d_namebuf some_director) (lit (dec (int (length [9 :: int]))))) 30,
     Send (ret (rets 5)) (overwrite (overwrite (d_namebuf some_director) (lit (dec (int (length [9 :: int])))))
       (lit (dec (int (length [7, 8 :: int]))))) 30] @
    map (Sendmsg (ret (rets 5)) '' '') ([9] @ [7, 8])"
  by (rule director_passes_old_connections) (simp_all add: some_director_def length_zeros)

end
