(* ===== verification/CN_Cascade.thy ===== *)
theory CN_Cascade imports CN_Sockets begin

text \<open>
  unixsockets/csemulti: a ticket counter (tc.c) passes each client's connection to one of three
  servers by the number it asks for; server c (c.c) serves one client and passes further ones
  to s (s.c), which serves two and passes further ones to e (e.c), which serves three and then
  signals the counter to shut down. A client's connection is served by a thread.
\<close>

section \<open>The ticket counter\<close>

definition SIGUSR1 :: int where "SIGUSR1 = 10"

definition handler_func :: prog where
  "handler_func =
     Out (line ''Tickets are full the server is about to shutdown'') (Call (Sleep 2) (\<lambda>_. Exit 0))"

definition tc_turn :: "int \<Rightarrow> int \<Rightarrow> int \<Rightarrow> int \<Rightarrow> string \<Rightarrow> (string \<Rightarrow> prog) \<Rightarrow> prog" where
  "tc_turn sfd sfdc sfds sfde buffer again =
     must (Accept sfd) ''accept error'' (\<lambda>nfd.
     recv_into nfd buffer 30 (\<lambda>buffer _.
     Out (line (''service:'' @ c_str buffer)) (
     let serv_no = atoi buffer in
     if serv_no = 1 then send_file_descriptor sfdc nfd (\<lambda>_. again buffer)
     else if serv_no = 2 then send_file_descriptor sfds nfd (\<lambda>_. again buffer)
     else if serv_no = 3 then send_file_descriptor sfde nfd (\<lambda>_. again buffer)
     else again buffer)))"

definition unix_listen :: "int \<Rightarrow> string \<Rightarrow> prog \<Rightarrow> prog" where
  "unix_listen sfd path k =
     must (Bind sfd (UnixPath path)) ''bind error'' (\<lambda>_.
     must (Listen sfd 5) ''listen error'' (\<lambda>_. k))"

definition unix_socket :: "(int \<Rightarrow> prog) \<Rightarrow> prog" where
  "unix_socket k = must (Socket AF_UNIX SOCK_STREAM 0) ''socket error'' k"

definition unix_connect :: "int \<Rightarrow> string \<Rightarrow> string \<Rightarrow> prog \<Rightarrow> prog" where
  "unix_connect sfd path hello k =
     must (Connect sfd (UnixPath path)) ''connect error'' (\<lambda>_. send_str sfd (lit hello) 30 k)"

definition tc_main :: "nat \<Rightarrow> string \<Rightarrow> prog" where
  "tc_main n buffer =
     Call (Signal SIGUSR1 ''handler_func'') (\<lambda>_.
     Call Getpid (\<lambda>p. Out (line (dec (ret p))) (
     Call (Shmget 5679 4 True) (\<lambda>id.
     Call (Shmat (ret id)) (\<lambda>shm.
     Call (ShmStore (ret shm) 0 (ret p)) (\<lambda>_.
     unix_socket (\<lambda>sfdc. unix_socket (\<lambda>sfds. unix_socket (\<lambda>sfde.
     unix_connect sfdc ''echo_socket_c'' ''From mainserver to server c'' (
     unix_connect sfds ''echo_socket_s'' ''From mainserver to server s'' (
     unix_connect sfde ''echo_socket_e'' ''From mainserver to server e'' (
     unix_socket (\<lambda>sfd.
     Call (Unlink ''main_echo_socket'') (\<lambda>_.
     unix_listen sfd ''main_echo_socket'' (
     forever n (tc_turn sfd sfdc sfds sfde) buffer)))))))))))))))"

section \<open>The threads that serve a client\<close>

definition serve_turn :: "string \<Rightarrow> int \<Rightarrow> string \<Rightarrow> (string \<Rightarrow> prog) \<Rightarrow> prog" where
  "serve_turn hello nfd namebuffer again =
     send_str nfd (lit hello) 30 (
     recv_into nfd namebuffer 30 (\<lambda>namebuffer _.
     Out (line (''from client :'' @ c_str namebuffer)) (
     Call (Sleep 2) (\<lambda>_. again namebuffer))))"

definition c_func :: "nat \<Rightarrow> int \<Rightarrow> string \<Rightarrow> prog" where
  "c_func n nfd namebuffer =
     Out (line ''thread started'') (forever n (serve_turn ''sending from server c'' nfd) namebuffer)"

definition s_func :: "nat \<Rightarrow> int \<Rightarrow> string \<Rightarrow> prog" where
  "s_func n nfd namebuffer =
     Out (line ''thread started'') (forever n (serve_turn ''sending from server s'' nfd) namebuffer)"

definition e_func :: "nat \<Rightarrow> int \<Rightarrow> string \<Rightarrow> prog" where
  "e_func n nfd namebuffer =
     Out (line ''thread started'') (forever n (serve_turn ''sending from server e'' nfd) namebuffer)"

section \<open>The servers\<close>

text \<open>
  Server c: take a connection from the counter; with the one thread in use pass it on. The
  state is clients_no; pthread_create is given the descriptor the thread is for.
\<close>

definition c_turn :: "int \<Rightarrow> int \<Rightarrow> int \<Rightarrow> (int \<Rightarrow> prog) \<Rightarrow> prog" where
  "c_turn nfd sfd1 clients_no again =
     recv_file_descriptor nfd (\<lambda>fd.
     Out (line (''File descriptor'' @ dec fd)) (
     if 1 \<le> clients_no then
       Out (line ''max reached of server c'') (send_file_descriptor sfd1 fd (\<lambda>_. again clients_no))
     else Call (Pthread_create ''func'' (dec fd)) (\<lambda>_. again (clients_no + 1))))"

definition c_main :: "nat \<Rightarrow> string \<Rightarrow> prog" where
  "c_main n buffer =
     unix_socket (\<lambda>sfd1.
     unix_connect sfd1 ''echo_socket_cs'' ''From server c to server s'' (
     unix_socket (\<lambda>sfd.
     Call (Unlink ''echo_socket_c'') (\<lambda>_.
     unix_listen sfd ''echo_socket_c'' (
     must (Accept sfd) ''accept error'' (\<lambda>nfd.
     recv_into nfd buffer 30 (\<lambda>buffer _.
     Out (line (c_str buffer)) (
     forever n (c_turn nfd sfd1) 0))))))))"

text \<open>Server s: connections come from the counter or from server c.\<close>

definition s_take :: "int \<Rightarrow> int \<Rightarrow> int \<Rightarrow> (int \<Rightarrow> prog) \<Rightarrow> prog" where
  "s_take from sfd1 clients_no again =
     recv_file_descriptor from (\<lambda>fd.
     Out (line (''File descriptor'' @ dec fd)) (
     if 2 \<le> clients_no then
       Out (line ''max of s reached sending to e server'') (
       send_file_descriptor sfd1 fd (\<lambda>_. Perror ''send:'' (again clients_no)))
     else Call (Pthread_create ''func'' (dec fd)) (\<lambda>_. again (clients_no + 1))))"

definition s_turn :: "int \<Rightarrow> int \<Rightarrow> int \<Rightarrow> int \<Rightarrow> (int \<Rightarrow> prog) \<Rightarrow> prog" where
  "s_turn nfd nfdcs sfd1 clients_no again =
     Call (Poll [(nfd, POLLRDNORM), (nfdcs, POLLRDNORM)] 0) (\<lambda>a.
     error_exit (ret a) ''poll error'' (
     if polled POLLRDNORM 0 a then Out (line ''0 main selected'') (s_take nfd sfd1 clients_no again)
     else if polled POLLRDNORM 1 a then Out (line ''1 s server selected'') (s_take nfdcs sfd1 clients_no again)
     else again clients_no))"

definition s_main :: "nat \<Rightarrow> string \<Rightarrow> prog" where
  "s_main n buffer =
     unix_socket (\<lambda>sfdcs.
     unix_socket (\<lambda>sfd1.
     unix_connect sfd1 ''echo_socket_se'' ''From server s to server e'' (
     unix_socket (\<lambda>sfd.
     Call (Unlink ''echo_socket_s'') (\<lambda>_.
     Call (Unlink ''echo_socket_cs'') (\<lambda>_.
     unix_listen sfd ''echo_socket_s'' (
     unix_listen sfdcs ''echo_socket_cs'' (
     must (Accept sfdcs) ''accept error'' (\<lambda>nfdcs.
     recv_into nfdcs buffer 30 (\<lambda>buffer _.
     Out (line (c_str buffer)) (
     must (Accept sfd) ''accept error'' (\<lambda>nfd.
     recv_into nfd buffer 30 (\<lambda>buffer _.
     Out (line (c_str buffer)) (
     forever n (s_turn nfd nfdcs sfd1) 0))))))))))))))"

text \<open>Server e: the counter's process id comes from the shared memory.\<close>

definition gettspid :: "(int \<Rightarrow> prog) \<Rightarrow> prog" where
  "gettspid k =
     Call (Shmget 5679 4 False) (\<lambda>id.
     Call (Shmat (ret id)) (\<lambda>shm.
     Call (ShmLoad (ret shm) 0) (\<lambda>p. Out (line (dec (ret p))) (k (ret p)))))"

definition e_take :: "int \<Rightarrow> int \<Rightarrow> int \<Rightarrow> (int \<Rightarrow> prog) \<Rightarrow> prog" where
  "e_take pid from clients_no again =
     recv_file_descriptor from (\<lambda>fd.
     Out (line (''File descriptor'' @ dec fd)) (
     if 3 \<le> clients_no then Call (Kill pid SIGUSR1) (\<lambda>_. Exit 0)
     else Call (Pthread_create ''func'' (dec fd)) (\<lambda>_. again (clients_no + 1))))"

definition e_turn :: "int \<Rightarrow> int \<Rightarrow> int \<Rightarrow> int \<Rightarrow> (int \<Rightarrow> prog) \<Rightarrow> prog" where
  "e_turn pid nfd nfdse clients_no again =
     Call (Poll [(nfd, POLLRDNORM), (nfdse, POLLRDNORM)] 0) (\<lambda>a.
     error_exit (ret a) ''poll error'' (
     if polled POLLRDNORM 0 a then Out (line ''0 main selected'') (e_take pid nfd clients_no again)
     else if polled POLLRDNORM 1 a then Out (line ''1 s server selected'') (e_take pid nfdse clients_no again)
     else again clients_no))"

definition e_main :: "nat \<Rightarrow> string \<Rightarrow> prog" where
  "e_main n buffer =
     unix_socket (\<lambda>sfdse.
     unix_socket (\<lambda>sfd.
     Call (Unlink ''echo_socket_e'') (\<lambda>_.
     Call (Unlink ''echo_socket_se'') (\<lambda>_.
     unix_listen sfd ''echo_socket_e'' (
     unix_listen sfdse ''echo_socket_se'' (
     must (Accept sfdse) ''accept error'' (\<lambda>nfdse.
     recv_into nfdse buffer 30 (\<lambda>buffer _.
     Out (line (c_str buffer)) (
     must (Accept sfd) ''accept error'' (\<lambda>nfd.
     recv_into nfd buffer 30 (\<lambda>buffer _.
     Out (line (c_str buffer)) (
     gettspid (\<lambda>pid.
     forever n (e_turn pid nfd nfdse) 0)))))))))))))"

section \<open>The client\<close>

definition client_turn :: "int \<Rightarrow> string \<Rightarrow> (string \<Rightarrow> prog) \<Rightarrow> prog" where
  "client_turn sfd buffer again =
     recv_into sfd buffer 30 (\<lambda>buffer _.
     Out (line (''client :'' @ c_str buffer)) (
     send_str sfd (lit ''from client to server'') 30 (again buffer)))"

definition client_main :: "nat \<Rightarrow> string list \<Rightarrow> string \<Rightarrow> prog" where
  "client_main n argc buffer =
     (if length argc < 2 then Undef else
     Out (line (''Service requested is '' @ argc ! 1)) (
     unix_socket (\<lambda>sfd.
     must (Connect sfd (UnixPath ''main_echo_socket'')) ''connect error'' (\<lambda>_.
     send_str sfd (lit (argc ! 1)) 30 (
     forever n (client_turn sfd) buffer)))))"

section \<open>The specification: a counter with a capacity\<close>

text \<open>
  A server of capacity cap that serves k clients keeps the first cap - k of the connections it
  is given and passes the others on, in order.
\<close>

definition overflow :: "nat \<Rightarrow> nat \<Rightarrow> int list \<Rightarrow> int list" where
  "overflow cap k fds = drop (cap - k) fds"

lemma overflow_simps [simp]:
  "overflow cap k [] = []"
  "overflow cap k (fd # fds) = (if cap \<le> k then fd # overflow cap k fds else overflow cap (Suc k) fds)"
  by (auto simp: overflow_def drop_Cons' diff_Suc split: nat.splits)

text \<open>
  The contract of such a server: a turn with k clients, given the answers for the item x, passes
  x's connection on over the socket out and goes on with k clients when k has reached cap, and
  otherwise passes nothing on and goes on with one client more.
\<close>

locale capacity_server =
  fixes turn :: "int \<Rightarrow> (int \<Rightarrow> prog) \<Rightarrow> prog"
    and cap :: nat
    and out :: int
    and answers :: "'x \<Rightarrow> ans list"
    and conn :: "'x \<Rightarrow> int"
  assumes turn_full: "cap \<le> k \<Longrightarrow> forwarded out (calls (trace (turn (int k) again) (answers x @ as))) =
      conn x # forwarded out (calls (trace (again (int k)) as))"
    and turn_free: "k < cap \<Longrightarrow> forwarded out (calls (trace (turn (int k) again) (answers x @ as))) =
      forwarded out (calls (trace (again (int (Suc k))) as))"
begin

lemma forwards:
  "forwarded out (calls (trace (forever (length xs) turn (int k)) (concat (map answers xs)))) =
    overflow cap k (map conn xs)"
proof (induction xs arbitrary: k)
  case (Cons x xs)
  then show ?case
    by (cases "cap \<le> k") (simp_all add: turn_full turn_free del: of_nat_Suc)
qed simp

lemma forwards_all_but_first:
  "forwarded out (calls (trace (forever (length xs) turn 0) (concat (map answers xs)))) =
    drop cap (map conn xs)"
  using forwards [of xs 0] by (simp add: overflow_def)

end

text \<open>The answers of the kernel: a connection from the first or from the second socket.\<close>

definition c_answers :: "int \<Rightarrow> ans list" where
  "c_answers fd = [passed fd, rets 1]"

definition poll_answers :: "bool \<times> int \<Rightarrow> ans list" where
  "poll_answers = (\<lambda>(first, fd).
     [gets_ints 1 (if first then [64, 0] else [0, 64]), passed fd, rets 1])"

definition from_c :: "int list \<Rightarrow> ans list" where
  "from_c fds = concat (map c_answers fds)"

definition from_poll :: "(bool \<times> int) list \<Rightarrow> ans list" where
  "from_poll xs = concat (map poll_answers xs)"

lemma polled_answers [simp]:
  "polled POLLRDNORM 0 (gets_ints r [64, x])" "polled POLLRDNORM (Suc 0) (gets_ints r [x, 64])"
  "\<not> polled POLLRDNORM 0 (gets_ints r [0, x])"
  by (simp_all add: polled_def revent_def POLLRDNORM_def)

text \<open>One turn of each server.\<close>

lemma c_step:
  "calls (trace (c_turn nfd sfd1 (int k) again) (passed fd # rets 1 # as)) =
    (if 1 \<le> k then Recvmsg nfd # Sendmsg sfd1 '' '' fd # calls (trace (again (int k)) as)
     else Recvmsg nfd # Pthread_create ''func'' (dec fd) # calls (trace (again (int (Suc k))) as))"
  by (simp add: c_turn_def add.commute)

lemma s_step:
  "calls (trace (s_turn nfd nfdcs sfd1 (int k) again)
      (gets_ints 1 (if first then [64, 0] else [0, 64]) # passed fd # rets 1 # as)) =
    Poll [(nfd, POLLRDNORM), (nfdcs, POLLRDNORM)] 0 # Recvmsg (if first then nfd else nfdcs) #
    (if 2 \<le> k then Sendmsg sfd1 '' '' fd # calls (trace (again (int k)) as)
     else Pthread_create ''func'' (dec fd) # calls (trace (again (int (Suc k))) as))"
  by (simp add: s_turn_def s_take_def add.commute)

lemma e_step:
  "calls (trace (e_turn pid nfd nfdse (int k) again)
      (gets_ints 1 (if first then [64, 0] else [0, 64]) # passed fd # rets 1 # as)) =
    Poll [(nfd, POLLRDNORM), (nfdse, POLLRDNORM)] 0 # Recvmsg (if first then nfd else nfdse) #
    (if 3 \<le> k then [Kill pid SIGUSR1]
     else Pthread_create ''func'' (dec fd) # calls (trace (again (int (Suc k))) as))"
  "final_of (e_turn pid nfd nfdse (int k) again)
      (gets_ints 1 (if first then [64, 0] else [0, 64]) # passed fd # rets 1 # as) =
    (if 3 \<le> k then Exited 0 else final_of (again (int (Suc k))) as)"
  by (simp_all add: e_turn_def e_take_def add.commute)

lemma from_simps [simp]:
  "from_c [] = []" "from_c (fd # fds) = passed fd # rets 1 # from_c fds"
  "from_poll [] = []"
  "from_poll ((first, fd) # xs) =
     gets_ints 1 (if first then [64, 0] else [0, 64]) # passed fd # rets 1 # from_poll xs"
  by (simp_all add: from_c_def from_poll_def c_answers_def poll_answers_def)

interpretation c_srv: capacity_server "c_turn nfd sfd1" 1 sfd1 c_answers "\<lambda>fd. fd" for nfd sfd1
  by unfold_locales
    (simp_all add: c_answers_def c_step c_step [where k = 0, simplified])

interpretation s_srv: capacity_server "s_turn nfd nfdcs sfd1" 2 sfd1 poll_answers snd for nfd nfdcs sfd1
  by unfold_locales (simp_all add: poll_answers_def s_step split: prod.splits del: of_nat_Suc)

lemma e_serves:
  "k + length xs \<le> 3 \<Longrightarrow> final_of (forever (length xs) (e_turn pid nfd nfdse) (int k)) (from_poll xs) = Unrolled"
proof (induction xs arbitrary: k)
  case (Cons x xs)
  then show ?case
    by (cases x) (simp only: from_simps length_Cons forever.simps e_step, simp del: of_nat_Suc)
qed simp

lemma e_ends:
  "k \<le> 3 \<Longrightarrow> 3 < k + length xs \<Longrightarrow>
    final_of (forever (length xs) (e_turn pid nfd nfdse) (int k)) (from_poll xs) = Exited 0 \<and>
    Kill pid SIGUSR1 \<in> set (calls (trace (forever (length xs) (e_turn pid nfd nfdse) (int k)) (from_poll xs)))"
proof (induction xs arbitrary: k)
  case (Cons x xs)
  then show ?case
    by (cases x) (simp only: from_simps length_Cons forever.simps e_step, simp del: of_nat_Suc)
qed simp

section \<open>What the ticket servers do\<close>

text \<open>
  C9. The servers refine counters with capacities 1, 2 and 3: when the counter
  passes the connections fds to server c, c passes on all but the first to s; s, given those
  and others in any order, passes on all but its first two to e; and e, given xs, serves up to
  three and, on a fourth, signals the counter and exits.
\<close>

theorem tickets_cascade:
  "forwarded cs (calls (trace (forever (length fds) (c_turn nfd cs) 0) (from_c fds))) = drop 1 fds \<and>
   forwarded se (calls (trace (forever (length ys) (s_turn nfd' nfdcs se) 0) (from_poll ys))) =
     drop 2 (map snd ys) \<and>
   (if length xs \<le> 3
    then final_of (forever (length xs) (e_turn pid nfd'' nfdse) 0) (from_poll xs) = Unrolled
    else final_of (forever (length xs) (e_turn pid nfd'' nfdse) 0) (from_poll xs) = Exited 0 \<and>
      Kill pid SIGUSR1 \<in> set (calls (trace (forever (length xs) (e_turn pid nfd'' nfdse) 0) (from_poll xs))))"
  using c_srv.forwards_all_but_first [of cs fds nfd] s_srv.forwards_all_but_first [of se ys nfd' nfdcs]
    e_serves [of 0 xs pid nfd'' nfdse] e_ends [of 0 xs pid nfd'' nfdse]
  by (simp add: from_c_def from_poll_def)

text \<open>What servers c and s pass on, and how server e ends.\<close>

definition through_c :: "int \<Rightarrow> int \<Rightarrow> int list \<Rightarrow> int list" where
  "through_c nfd cs fds =
     forwarded cs (calls (trace (forever (length fds) (c_turn nfd cs) 0) (from_c fds)))"

definition through_s :: "int \<Rightarrow> int \<Rightarrow> int \<Rightarrow> int list \<Rightarrow> int list" where
  "through_s nfd nfdcs se fds = forwarded se (calls (trace
     (forever (length fds) (s_turn nfd nfdcs se) 0) (from_poll (map (Pair False) fds))))"

definition end_of_e :: "int \<Rightarrow> int \<Rightarrow> int \<Rightarrow> int list \<Rightarrow> final" where
  "end_of_e pid nfd nfdse fds =
     final_of (forever (length fds) (e_turn pid nfd nfdse) 0) (from_poll (map (Pair False) fds))"

text \<open>
  A burst of clients for server c alone closes the counter with the
  seventh: what c overflows to s and s overflows to e ends e exactly when there are at least
  seven clients.
\<close>

theorem seventh_ticket_closes:
  "end_of_e pid nfd'' nfdse (through_s nfd' nfdcs se (through_c nfd cs fds)) =
    (if 7 \<le> length fds then Exited 0 else Unrolled)"
proof -
  have c: "through_c nfd cs fds = drop 1 fds"
    using c_srv.forwards_all_but_first [of cs fds nfd] by (simp add: through_c_def from_c_def)
  have s: "through_s nfd' nfdcs se xs = drop 2 xs" for xs
    using s_srv.forwards_all_but_first [of se "map (Pair False) xs" nfd' nfdcs]
    by (simp add: through_s_def from_poll_def comp_def)
  let ?xs = "map (Pair False) (drop 3 fds)"
  have "end_of_e pid nfd'' nfdse (drop 3 fds) = (if 7 \<le> length fds then Exited 0 else Unrolled)"
    using e_serves [of 0 ?xs pid nfd'' nfdse] e_ends [of 0 ?xs pid nfd'' nfdse]
    by (cases "length fds \<le> 6") (simp_all add: end_of_e_def)
  then show ?thesis by (simp add: c s)
qed

end
