(* ===== verification/CN_Mss.thy ===== *)
theory CN_Mss imports CN_Sockets begin

text \<open>
  mid/mss: services register their port with a dispatcher (server.c) on port 8000, and clients
  ask it on port 9000 for the port of a service by number. The dispatcher keeps an array of
  five services and waits with select on both sockets. server1.c to server3.c are the services,
  client.c a client.
\<close>

section \<open>The dispatcher\<close>

record service =
  port :: int
  sfd :: int
  available :: int

record dispatcher =
  services :: "service list"
  no_of_services :: int
  d_readset :: "int list"
  d_portbuffer :: string

definition max_services :: nat where "max_services = 5"

definition server_init :: "service list \<Rightarrow> service list" where
  "server_init ss = map (\<lambda>s. s\<lparr>available := 0\<rparr>) ss"

text \<open>rep: both sockets go into the read set; a negative descriptor is outside of it.\<close>

definition rep :: "int \<Rightarrow> int \<Rightarrow> dispatcher \<Rightarrow> (int \<Rightarrow> dispatcher \<Rightarrow> prog) \<Rightarrow> prog" where
  "rep ssfd csfd d k =
     (if ssfd < 0 \<or> csfd < 0 then Undef
      else k (max ssfd csfd) (d\<lparr>d_readset := [ssfd, csfd]\<rparr>))"

text \<open>A service registers: its socket and the port it sends become the next array element.\<close>

definition first_int :: "ans \<Rightarrow> int" where
  "first_int a = (case ints a of [] \<Rightarrow> 0 | i # _ \<Rightarrow> i)"

definition register :: "int \<Rightarrow> dispatcher \<Rightarrow> (dispatcher \<Rightarrow> prog) \<Rightarrow> prog" where
  "register ssfd d k =
     Call (Accept ssfd) (\<lambda>a. let nfd = ret a in Perror ''accept:'' (
     Out (line (dec (first_int a))) (
     Call (Getpeername nfd) (\<lambda>p.
     Out (line (''The port is'' @ dec (first_int p))) (
     Out (line (''Peer IP address: '' @ c_str (dat p))) (
     error_print nfd ''accept error'' (
     arr_get (services d) (no_of_services d) (\<lambda>s.
     recv_into nfd (d_portbuffer d) 10 (\<lambda>b _. let pt = atoi b in
     Out (line (''connected port :'' @ dec pt)) (
     k (d\<lparr>services := (services d)[nat (no_of_services d) := s\<lparr>sfd := nfd, available := 1, port := pt\<rparr>],
          no_of_services := no_of_services d + 1, d_portbuffer := b,
          d_readset := removeAll ssfd (d_readset d)\<rparr>)))))))))))"

text \<open>A client asks for a service; the number it sends is not checked against the array.\<close>

definition ask :: "int \<Rightarrow> dispatcher \<Rightarrow> (dispatcher \<Rightarrow> prog) \<Rightarrow> prog" where
  "ask csfd d k =
     Call (Accept csfd) (\<lambda>a. let nfd = ret a in
     error_print nfd ''accept error'' (Perror ''accept:'' (
     recv_into nfd (zeros 10) 10 (\<lambda>b _. let serv_index = atoi b in
     Out (line (''service requested is'' @ dec serv_index)) (
     arr_get (services d) (serv_index - 1) (\<lambda>s.
     if available s = 0 then
       Out (line ''service not available'') (Call (Close nfd) (\<lambda>_. k d))
     else
       Out (line (dec (port s))) (
       Out (line ''service is available'') (
       put_str (zeros 10) (dec (port s)) (\<lambda>b.
       Out (line (c_str b)) (
       send_str nfd b 10 (
       Call (Close nfd) (\<lambda>_. k d))))))))))))"

text \<open>One round of select; the loop over the descriptors tests the two sockets each time.\<close>

definition scan_sets :: "int \<Rightarrow> int \<Rightarrow> nat \<Rightarrow> dispatcher \<Rightarrow> (dispatcher \<Rightarrow> prog) \<Rightarrow> prog" where
  "scan_sets ssfd csfd i d k =
     (if ssfd \<in> set (d_readset d) then register ssfd d k
      else if csfd \<in> set (d_readset d) then ask csfd d k
      else k d)"

definition mss_turn :: "int \<Rightarrow> int \<Rightarrow> dispatcher \<Rightarrow> (dispatcher \<Rightarrow> prog) \<Rightarrow> prog" where
  "mss_turn ssfd csfd d again =
     rep ssfd csfd d (\<lambda>max_fd d.
     Out (line (''max fd: '' @ dec max_fd)) (
     Call (Select (max_fd + 1) (d_readset d)) (\<lambda>a.
     error_print (ret a) ''select call error'' (
     for_each [0..<nat (max_fd + 1)] (scan_sets ssfd csfd)
       (d\<lparr>d_readset := selected (d_readset d) a\<rparr>) again))))"

definition mss_main :: "nat \<Rightarrow> dispatcher \<Rightarrow> prog" where
  "mss_main n d =
     tried (Socket AF_INET SOCK_STREAM 0) ''socket call error'' (\<lambda>ssfd.
     tried (Socket AF_INET SOCK_STREAM 0) ''socket call error'' (\<lambda>csfd.
     Out (line (dec ssfd)) (Out (line (dec csfd)) (
     tried (Setsockopt ssfd SO_REUSEADDR) ''calling sockpot'' (\<lambda>_.
     tried (Setsockopt csfd SO_REUSEADDR) ''calling sockpot'' (\<lambda>_.
     tried (Bind ssfd (any_addr 8000)) ''bind error'' (\<lambda>_.
     tried (Bind csfd (any_addr 9000)) ''bind error1'' (\<lambda>_. Perror ''bind :'' (
     tried (Listen ssfd 5) ''listen error'' (\<lambda>_.
     tried (Listen csfd 3) ''listen error'' (\<lambda>_.
     forever n (mss_turn ssfd csfd) (d\<lparr>no_of_services := 0\<rparr>))))))))))))"

section \<open>The services\<close>

definition service_thread_turn :: "string \<Rightarrow> int \<Rightarrow> string \<Rightarrow> (string \<Rightarrow> prog) \<Rightarrow> prog" where
  "service_thread_turn reply nfd namebuffer again =
     recv_into nfd namebuffer 30 (\<lambda>namebuffer _.
     Out (line (''got from client'' @ c_str namebuffer)) (
     send_str nfd (lit reply) 30 (again namebuffer)))"

definition func1 :: "nat \<Rightarrow> int \<Rightarrow> string \<Rightarrow> prog" where
  "func1 n nfd namebuffer =
     Out (line ''thread started'') (forever n (service_thread_turn ''sending from server1'' nfd) namebuffer)"

definition func2 :: "nat \<Rightarrow> int \<Rightarrow> string \<Rightarrow> prog" where
  "func2 n nfd namebuffer =
     Out (line ''thread started'') (forever n (service_thread_turn ''sending from server2'' nfd) namebuffer)"

definition func3 :: "nat \<Rightarrow> int \<Rightarrow> string \<Rightarrow> prog" where
  "func3 n nfd namebuffer =
     Out (line ''thread started'') (forever n (service_thread_turn ''sending from server3'' nfd) namebuffer)"

text \<open>Three thread handles; the thread is given the address of the variable nsfd.\<close>

definition service_turn :: "int \<Rightarrow> int \<Rightarrow> (int \<Rightarrow> prog) \<Rightarrow> prog" where
  "service_turn nfd noofclients again =
     tried (Accept nfd) ''accept call'' (\<lambda>nsfd. Perror ''accept:'' (
     if 3 \<le> noofclients then Undef else
     Call (Pthread_create ''func'' ''&nsfd'') (\<lambda>_. again (noofclients + 1))))"

text \<open>Register the port with the dispatcher.\<close>

definition announce :: "string \<Rightarrow> (int \<Rightarrow> prog) \<Rightarrow> prog" where
  "announce portname k =
     tried (Socket AF_INET SOCK_STREAM 0) ''socket call'' (\<lambda>nfd.
     tried (Connect nfd (any_addr 8000)) ''connect call'' (\<lambda>_. Perror ''connect :'' (
     send_str nfd (lit portname) 10 (k nfd))))"

definition serve_port :: "nat \<Rightarrow> sockopt \<Rightarrow> int \<Rightarrow> prog" where
  "serve_port n opt p =
     tried (Socket AF_INET SOCK_STREAM 0) ''socket call'' (\<lambda>nfd.
     tried (Setsockopt nfd opt) ''calling sockpot'' (\<lambda>_.
     tried (Bind nfd (any_addr p)) ''bind error'' (\<lambda>_.
     tried (Listen nfd 5) ''listen error'' (\<lambda>_. forever n (service_turn nfd) 0))))"

definition server1_main :: "nat \<Rightarrow> prog" where
  "server1_main n =
     announce ''8001'' (\<lambda>nfd.
     Call (Getsockname nfd) (\<lambda>a.
     Out (line (''The port is'' @ dec (first_int a))) (
     Out (line (''Peer IP address: '' @ c_str (dat a))) (
     serve_port n SO_REUSEPORT 8001))))"

definition server2_main :: "nat \<Rightarrow> prog" where
  "server2_main n = announce ''8002'' (\<lambda>_. serve_port n SO_REUSEADDR 8002)"

definition server3_main :: "nat \<Rightarrow> prog" where
  "server3_main n = announce ''8003'' (\<lambda>_. serve_port n SO_REUSEADDR 8003)"

section \<open>The client\<close>

text \<open>sizeof(argv[1]) is the size of a pointer, 8 bytes.\<close>

definition mss_client_turn :: "int \<Rightarrow> string \<Rightarrow> (string \<Rightarrow> prog) \<Rightarrow> prog" where
  "mss_client_turn csfd printbuffer again =
     Call (Send csfd (lit ''from client to server'') 30) (\<lambda>a.
     (if ret a < 0 then Out ''sending error'' else (\<lambda>p. p)) (
     Call (Sleep 3) (\<lambda>_.
     recv_into csfd printbuffer 30 (\<lambda>b r.
     (if r < 0 then Out ''recv error'' else (\<lambda>p. p)) (
     Out (line (c_str b)) (again b))))))"

definition mss_client_main :: "nat \<Rightarrow> string list \<Rightarrow> string \<Rightarrow> string \<Rightarrow> prog" where
  "mss_client_main n argv portbuffer printbuffer =
     (if length argv < 2 then Undef else
     Call (Socket AF_INET SOCK_STREAM 0) (\<lambda>s. let sfd = ret s in
     Call (Connect sfd (any_addr 9000)) (\<lambda>_.
     send_str sfd (lit (argv ! 1)) 8 (
     recv_into sfd portbuffer 10 (\<lambda>b _. let p = atoi b in
     Out (line (dec p)) (
     Call (Socket AF_INET SOCK_STREAM 0) (\<lambda>c. let csfd = ret c in
     Call (Connect csfd (any_addr p)) (\<lambda>_. Perror ''commect :'' (
     Out (line (dec csfd)) (
     forever n (mss_client_turn csfd) printbuffer))))))))))"

section \<open>The specification: a table from numbers to ports\<close>

text \<open>The invariant: the services registered so far are the available ones, in order.\<close>

definition mss_inv :: "dispatcher \<Rightarrow> bool" where
  "mss_inv d = (length (services d) = max_services \<and> 0 \<le> no_of_services d \<and>
     no_of_services d \<le> int max_services \<and> length (d_portbuffer d) = 10 \<and>
     (\<forall>i < max_services. (available (services d ! i) \<noteq> 0) = (int i < no_of_services d)))"

definition table :: "dispatcher \<Rightarrow> int list" where
  "table d = map port (take (nat (no_of_services d)) (services d))"

lemma mss_inv_available:
  "mss_inv d \<Longrightarrow> j < 5 \<Longrightarrow> (available (services d ! j) \<noteq> 0) = (int j < no_of_services d)"
  unfolding mss_inv_def max_services_def by blast

lemma table_nth:
  "mss_inv d \<Longrightarrow> j < nat (no_of_services d) \<Longrightarrow> table d ! j = port (services d ! j) \<and> j < length (table d)"
  by (auto simp: table_def mss_inv_def max_services_def)

lemma mss_inv_start:
  assumes "length (services d) = max_services" "length (d_portbuffer d) = 10"
  shows "mss_inv (d\<lparr>services := server_init (services d), no_of_services := 0\<rparr>)"
  using assms by (simp add: mss_inv_def server_init_def)

lemma register_step:
  assumes "mss_inv d" "no_of_services d < 5" "0 \<le> ret a" "length m = 10"
  shows "\<exists>d'. mss_inv d' \<and> table d' = table d @ [atoi m] \<and> d_readset d' = removeAll ssfd (d_readset d) \<and>
    (\<forall>k p as. calls (trace (register ssfd d k) (a # p # gives m # as)) =
      [Accept ssfd, Getpeername (ret a), Recv (ret a) 10] @ calls (trace (k d') as))"
proof -
  let ?n = "nat (no_of_services d)" and ?s = "services d ! nat (no_of_services d)"
  let ?d = "d\<lparr>services := (services d)[?n := ?s\<lparr>sfd := ret a, available := 1, port := atoi m\<rparr>],
      no_of_services := no_of_services d + 1, d_portbuffer := m,
      d_readset := removeAll ssfd (d_readset d)\<rparr>"
  have n: "0 \<le> no_of_services d" "no_of_services d < int (length (services d))" "?n < length (services d)"
    "length (d_portbuffer d) = 10" using assms(1,2) by (auto simp: mss_inv_def max_services_def)
  then have "mss_inv ?d"
    using assms by (auto simp: mss_inv_def max_services_def nth_list_update)
  moreover have "table ?d = table d @ [atoi m]"
    using n by (simp add: table_def nat_add_distrib take_Suc_conv_app_nth map_update)
  moreover have "calls (trace (register ssfd d k) (a # p # gives m # as)) =
      [Accept ssfd, Getpeername (ret a), Recv (ret a) 10] @ calls (trace (k ?d) as)" for k p as
    using n assms(3,4) by (simp add: register_def Let_def overwrite_def)
  ultimately show ?thesis by (intro exI [of _ ?d]) simp
qed

lemma scan_none:
  "ssfd \<notin> set (d_readset d) \<Longrightarrow> csfd \<notin> set (d_readset d) \<Longrightarrow> for_each xs (scan_sets ssfd csfd) d k = k d"
  by (induction xs) (simp_all add: scan_sets_def)

lemma max_split: "0 \<le> m \<Longrightarrow> [0..<nat (m + 1)] = 0 # [1..<nat (m + 1)]"
  by (simp add: upt_conv_Cons)

section \<open>What the dispatcher does\<close>

text \<open>
  Registration refines appending to the table of ports: in a state with the
  invariant and room, when select reports only the services' socket, one turn of the dispatcher
  accepts the service, receives its port and goes on with the invariant kept and the port added
  at the end of the table.
\<close>

theorem mss_registers:
  assumes "mss_inv d" and "no_of_services d < 5" and "0 \<le> ssfd" and "0 \<le> csfd" and "ssfd \<noteq> csfd"
    and "0 \<le> ret a" and "length m = 10"
  shows "\<exists>d'. mss_inv d' \<and> table d' = table d @ [atoi m] \<and>
    (\<forall>again as. calls (trace (mss_turn ssfd csfd d again) (gets_ints 1 [ssfd] # a # p # gives m # as)) =
      [Select (max ssfd csfd + 1) [ssfd, csfd], Accept ssfd, Getpeername (ret a), Recv (ret a) 10] @
      calls (trace (again d') as))"
proof -
  let ?d = "d\<lparr>d_readset := [ssfd]\<rparr>"
  have "mss_inv ?d" using assms(1) by (simp add: mss_inv_def)
  from register_step [OF this _ assms(6,7), of ssfd] assms(2) obtain d' where
    d': "mss_inv d'" "table d' = table ?d @ [atoi m]" "d_readset d' = []"
    "\<And>k p as. calls (trace (register ssfd ?d k) (a # p # gives m # as)) =
      [Accept ssfd, Getpeername (ret a), Recv (ret a) 10] @ calls (trace (k d') as)" by auto
  have t: "table ?d = table d" by (simp add: table_def)
  have "calls (trace (mss_turn ssfd csfd d again) (gets_ints 1 [ssfd] # a # p # gives m # as)) =
      [Select (max ssfd csfd + 1) [ssfd, csfd], Accept ssfd, Getpeername (ret a), Recv (ret a) 10] @
      calls (trace (again d') as)" for again as
    using assms(3-5) d'(3,4)
    by (simp add: mss_turn_def rep_def selected_def max_split del: upt_Suc)
      (simp add: scan_sets_def scan_none)
  with d' t show ?thesis by (intro exI [of _ d']) simp
qed

definition some_dispatcher :: dispatcher where
  "some_dispatcher = \<lparr>services = \<lparr>port = 8001, sfd = 5, available = 1\<rparr> # replicate 4 \<lparr>port = 0, sfd = 0, available = 0\<rparr>,
     no_of_services = 1, d_readset = [], d_portbuffer = zeros 10\<rparr>"

lemma some_dispatcher_inv: "mss_inv some_dispatcher"
proof -
  have "available (services some_dispatcher ! i) = (if i = 0 then 1 else 0)" if "i < 5" for i
    using that by (cases i) (simp_all add: some_dispatcher_def)
  then show ?thesis by (auto simp: mss_inv_def max_services_def) (simp_all add: some_dispatcher_def length_zeros)
qed

theorem mss_registers_witness:
  "\<exists>d'. mss_inv d' \<and> table d' = table some_dispatcher @ [atoi (''8002'' @ zeros 6)] \<and>
    (\<forall>again as. calls (trace (mss_turn 3 4 some_dispatcher again)
        (gets_ints 1 [3] # rets 6 # gets_ints 0 [40000] # gives (''8002'' @ zeros 6) # as)) =
      [Select (max 3 4 + 1) [3, 4], Accept 3, Getpeername (ret (rets 6)), Recv (ret (rets 6)) 10] @
      calls (trace (again d') as))"
  by (rule mss_registers) (simp_all add: some_dispatcher_inv length_zeros, simp add: some_dispatcher_def)

text \<open>
  C21. The dispatcher answers a client by the table: for a number from 1 to the number
  of services it sends that service's port in decimal and closes the connection; for a larger
  one up to five it only closes it; and any other number makes it read outside the array.
\<close>

theorem mss_answers:
  assumes "mss_inv d" and "0 \<le> ret a" and "length m = 10"
    and "\<forall>p \<in> set (table d). 0 \<le> p \<and> p < 65536"
  shows "(if 1 \<le> atoi m \<and> atoi m \<le> no_of_services d then
      map atoi (sent (ret a) (calls (trace (ask csfd d k) [a, gives m, rets 10, rets 0]))) =
        [table d ! nat (atoi m - 1)] \<and>
      last (calls (trace (ask csfd d k) [a, gives m, rets 10, rets 0])) = Close (ret a)
    else if 1 \<le> atoi m \<and> atoi m \<le> 5 then
      calls (trace (ask csfd d k) [a, gives m, rets 0]) = [Accept csfd, Recv (ret a) 10, Close (ret a)]
    else final_of (ask csfd d k) [a, gives m] = Undefined)"
proof -
  let ?i = "atoi m" and ?j = "nat (atoi m - 1)"
  have ow: "overwrite (zeros 10) m = m" using assms(3) by (simp add: overwrite_def length_zeros)
  have len: "length (services d) = 5" "no_of_services d \<le> 5"
    using assms(1) by (simp_all add: mss_inv_def max_services_def)
  consider "1 \<le> ?i" "?i \<le> no_of_services d" | "no_of_services d < ?i" "1 \<le> ?i" "?i \<le> 5" | "?i < 1 \<or> 5 < ?i"
    by linarith
  then show ?thesis
  proof cases
    case 1
    then have j: "?j < 5" "int ?j < no_of_services d" using len by auto
    then have av: "available (services d ! ?j) \<noteq> 0" using mss_inv_available [OF assms(1)] by blast
    have t: "table d ! ?j = port (services d ! ?j)" "?j < length (table d)"
      using table_nth [OF assms(1), of ?j] 1 by (auto simp del: nat_less_iff)
    from t(2) have "table d ! ?j \<in> set (table d)" by (rule nth_mem)
    with assms(4) t have p: "0 \<le> port (services d ! ?j)" "port (services d ! ?j) < 65536" by auto
    then have "length (dec (port (services d ! ?j))) < 10" using length_dec_port [OF p] by simp
    then show ?thesis
      using 1 len ow assms(2,3) av t atoi_sent_port [OF p, of 10 "zeros 10"]
      by (simp add: ask_def Let_def length_zeros)
  next
    case 2
    then have j: "?j < 5" "\<not> int ?j < no_of_services d" using len by linarith+
    then have "available (services d ! ?j) = 0" using mss_inv_available [OF assms(1)] by blast
    then show ?thesis
      using 2 len ow assms(2,3) by (simp add: ask_def Let_def length_zeros)
  next
    case 3
    then show ?thesis
      using len ow assms(2,3) by (auto simp: ask_def Let_def length_zeros arr_get_def)
  qed
qed

theorem mss_answers_witness:
  "map atoi (sent 7 (calls (trace (ask 4 some_dispatcher (\<lambda>_. Cut)) [rets 7, gives (''1'' @ zeros 9), rets 10, rets 0]))) =
    [8001]"
proof -
  have m: "atoi (''1'' @ zeros 9) = 1" by code_simp
  have t: "table some_dispatcher = [8001]" by (simp add: table_def some_dispatcher_def)
  show ?thesis
    using mss_answers [OF some_dispatcher_inv, of "rets 7" "''1'' @ zeros 9" 4 "\<lambda>_. Cut"] m t
    by (simp add: length_zeros) (simp add: some_dispatcher_def)
qed

text \<open>
  A client is served in a loop over the descriptor numbers that
  does not take its socket out of the set: after one client the dispatcher blocks in accept on
  the clients' socket, without another select, whether or not a second client comes.
\<close>

theorem mss_waits_for_next_client:
  assumes "mss_inv d" and "0 \<le> ssfd" and "0 \<le> csfd" and "ssfd \<noteq> csfd" and "0 \<le> ret a"
    and "length m = 10" and "no_of_services d < atoi m" and "1 \<le> atoi m" and "atoi m \<le> 5"
  shows "final_of (mss_turn ssfd csfd d again) [gets_ints 1 [csfd], a, gives m, rets 0] =
    Waiting (Accept csfd)"
proof -
  let ?j = "nat (atoi m - 1)"
  have ow: "overwrite (zeros 10) m = m" using assms(6) by (simp add: overwrite_def length_zeros)
  have len: "length (services d) = 5" using assms(1) by (simp add: mss_inv_def max_services_def)
  have "?j < 5" "\<not> int ?j < no_of_services d" using assms(7-9) by linarith+
  then have av: "available (services d ! ?j) = 0" using mss_inv_available [OF assms(1)] by blast
  have two: "[0..<nat (max ssfd csfd + 1)] = 0 # 1 # [2..<nat (max ssfd csfd + 1)]"
    using assms(2-4) by (simp add: upt_conv_Cons numeral_2_eq_2)
  have "final_of (ask csfd (d\<lparr>d_readset := r\<rparr>) k) [a, gives m, rets 0] = final_of (k (d\<lparr>d_readset := r\<rparr>)) []" for r k
    using len ow av assms(5-9) by (simp add: ask_def Let_def length_zeros)
  moreover have "final_of (ask csfd d' k) [] = Waiting (Accept csfd)" for d' k
    by (simp add: ask_def)
  ultimately show ?thesis using assms(2-4)
    by (simp add: mss_turn_def rep_def selected_def two scan_sets_def del: upt_Suc)
qed

theorem mss_waits_for_next_client_witness:
  "final_of (mss_turn 3 4 some_dispatcher (\<lambda>_. Cut)) [gets_ints 1 [4], rets 7, gives (''2'' @ zeros 9), rets 0] =
    Waiting (Accept 4)"
proof (rule mss_waits_for_next_client [OF some_dispatcher_inv])
  have "atoi (''2'' @ zeros 9) = 2" by code_simp
  then show "no_of_services some_dispatcher < atoi (''2'' @ zeros 9)" "1 \<le> atoi (''2'' @ zeros 9)"
    "atoi (''2'' @ zeros 9) \<le> 5" by (simp_all add: some_dispatcher_def)
qed (simp_all add: length_zeros)

end
