(* ===== verification/CN_Chat.thy ===== *)
theory CN_Chat imports CN_Sockets begin

text \<open>
  The chat and log servers over named pipes. chatserver/server.c and logserver/server.c wait
  with poll, selectservers/chatserver/server.c with select, for the pipes of their clients, read
  a message into a global buffer of 100 bytes and write it to the pipe <name>B of the clients;
  logserver/logserver.c prints what arrives in those pipes. select_servers/chatserver/server.c is
  a chat server that opens all pipes once. The clients are those of chatserver/client.c.
\<close>

section \<open>Delivering to a list of clients\<close>

text \<open>error_func prints the message and the value.\<close>

definition error_code :: "int \<Rightarrow> string \<Rightarrow> prog \<Rightarrow> prog" where
  "error_code val message k =
     (if val < 0 then Out (line (message @ '' '' @ dec val)) (Exit 1) else k)"

lemma error_code_simps [simp]:
  "0 \<le> v \<Longrightarrow> error_code v s k = k" "v < 0 \<Longrightarrow> error_code v s k = Out (line (s @ '' '' @ dec v)) (Exit 1)"
  by (simp_all add: error_code_def)

text \<open>The pipe's name is built in 50 bytes; the buffer is cleared after it has been written.\<close>

definition deliver :: "string \<Rightarrow> string \<Rightarrow> (string \<Rightarrow> prog) \<Rightarrow> prog" where
  "deliver name readbuf k =
     Out (line (c_str readbuf)) (
     put_str (zeros 50) (name @ ''B'') (\<lambda>file.
     Out (line (c_str file)) (
     Call (Open (c_str file) [O_WRONLY]) (\<lambda>o'. let fdB = ret o' in
     error_code fdB ''opening file fdB'' (
     write_str fdB readbuf 100 (
     Call (Close fdB) (\<lambda>_. k (zeros 100))))))))"

text \<open>The chat server leaves out the sender, the log server does not.\<close>

definition chat_relay :: "string list \<Rightarrow> nat \<Rightarrow> string \<Rightarrow> (string \<Rightarrow> prog) \<Rightarrow> prog" where
  "chat_relay clients i readbuf k =
     for_each [0..<length clients]
       (\<lambda>j b k. if j \<noteq> i then deliver (clients ! j) b k else k b) readbuf k"

definition log_relay :: "string list \<Rightarrow> nat \<Rightarrow> string \<Rightarrow> (string \<Rightarrow> prog) \<Rightarrow> prog" where
  "log_relay clients i readbuf k =
     for_each [0..<length clients] (\<lambda>j b k. deliver (clients ! j) b k) readbuf k"

text \<open>Client i is ready: read its message and relay it.\<close>

definition serve :: "(string list \<Rightarrow> nat \<Rightarrow> string \<Rightarrow> (string \<Rightarrow> prog) \<Rightarrow> prog) \<Rightarrow>
    string list \<Rightarrow> int list \<Rightarrow> nat \<Rightarrow> string \<Rightarrow> (string \<Rightarrow> prog) \<Rightarrow> prog" where
  "serve relay clients fds i readbuf k =
     read_into (fds ! i) readbuf 100 (\<lambda>b _. relay clients i b k)"

section \<open>The servers that poll\<close>

definition poll_turn :: "(string list \<Rightarrow> nat \<Rightarrow> string \<Rightarrow> (string \<Rightarrow> prog) \<Rightarrow> prog) \<Rightarrow>
    string list \<Rightarrow> int list \<Rightarrow> string \<Rightarrow> (string \<Rightarrow> prog) \<Rightarrow> prog" where
  "poll_turn relay clients fds readbuf again =
     Call (Poll (map (\<lambda>fd. (fd, POLLRDNORM)) fds) 100) (\<lambda>a.
     error_code (ret a) ''poll error'' (
     for_each [0..<length clients]
       (\<lambda>i b k. if polled POLLRDNORM i a then serve relay clients fds i b k else k b) readbuf again))"

text \<open>Make and open a pipe per client; ten descriptors have room.\<close>

definition open_pipes :: "string list \<Rightarrow> (int list \<Rightarrow> prog) \<Rightarrow> prog" where
  "open_pipes clients k =
     for_each clients (\<lambda>name fds k.
       Call (Mkfifo name) (\<lambda>m. error_code (ret m) (line ''making fifo server'') (
       Call (Open name [O_RDONLY, O_NONBLOCK]) (\<lambda>o'.
       if 10 \<le> length fds then Undef else
       error_code (ret o') (line ''opening file1'') (k (fds @ [ret o']))))))
     [] k"

text \<open>With no client the array of pollfds has length zero.\<close>

definition chat_main :: "nat \<Rightarrow> string list \<Rightarrow> prog" where
  "chat_main n argv =
     (let clients = tl argv in
     Out (line (dec (int (length argv)))) (
     open_pipes clients (\<lambda>fds.
     if clients = [] then Undef else
     forever n (poll_turn chat_relay clients fds) (zeros 100))))"

definition log_main :: "nat \<Rightarrow> string list \<Rightarrow> prog" where
  "log_main n argv =
     (let clients = tl argv in
     Out (line (dec (int (length argv)))) (
     open_pipes clients (\<lambda>fds.
     if clients = [] then Undef else
     forever n (poll_turn log_relay clients fds) (zeros 100))))"

section \<open>The same chat server with select\<close>

text \<open>Every round starts with all descriptors in the set.\<close>

definition select_turn :: "string list \<Rightarrow> int list \<Rightarrow> string \<Rightarrow> (string \<Rightarrow> prog) \<Rightarrow> prog" where
  "select_turn clients fds readbuf again =
     Call (Select (fold max fds 0 + 1) fds) (\<lambda>a.
     error_code (ret a) (line ''select not working'') (
     for_each [0..<length clients]
       (\<lambda>i b k. if fds ! i \<in> set (selected fds a) then serve chat_relay clients fds i b k else k b)
       readbuf again))"

definition select_chat_main :: "nat \<Rightarrow> string list \<Rightarrow> prog" where
  "select_chat_main n argv =
     (let clients = tl argv in
     Out (line (dec (int (length argv)))) (
     open_pipes clients (\<lambda>fds. forever n (select_turn clients fds) (zeros 100))))"

section \<open>The log printer\<close>

definition logger_turn :: "string list \<Rightarrow> int list \<Rightarrow> string \<Rightarrow> (string \<Rightarrow> prog) \<Rightarrow> prog" where
  "logger_turn clients fds readbuf again =
     Call (Poll (map (\<lambda>fd. (fd, POLLRDNORM)) fds) 100) (\<lambda>a.
     error_code (ret a) ''poll error'' (
     for_each [0..<length clients]
       (\<lambda>i b k. if polled POLLRDNORM i a
         then read_into (fds ! i) b 100 (\<lambda>b _. Out (line (c_str b)) (k (zeros 100))) else k b)
       readbuf again))"

definition logger_main :: "nat \<Rightarrow> string list \<Rightarrow> prog" where
  "logger_main n argv =
     (let clients = tl argv in
     Out (line (dec (int (length argv)))) (
     for_each clients (\<lambda>name fds k.
       put_str (zeros 50) (name @ ''B'') (\<lambda>file.
       Call (Mkfifo (c_str file)) (\<lambda>m. error_code (ret m) (line ''making fifo server'') (
       Call (Open (c_str file) [O_RDONLY, O_NONBLOCK]) (\<lambda>o'.
       if 10 \<le> length fds then Undef else
       error_code (ret o') (line ''opening file1'') (k (fds @ [ret o'])))))))
     [] (\<lambda>fds.
     if clients = [] then Undef else forever n (logger_turn clients fds) (zeros 100))))"

section \<open>The client of the chat server\<close>

text \<open>The threads; an unbounded scanf of a word into 100 bytes.\<close>

definition writer_turn :: "int \<Rightarrow> string \<Rightarrow> (string \<Rightarrow> prog) \<Rightarrow> prog" where
  "writer_turn fdA writebuf again =
     Call Scanf_str (\<lambda>a.
     (if ret a = 1 then put_str writebuf (dat a) else (\<lambda>k. k writebuf)) (\<lambda>b.
     write_str fdA b (int (length (c_str b))) (again (zeros 100))))"

definition writer :: "nat \<Rightarrow> int \<Rightarrow> prog" where
  "writer n fdA = forever n (writer_turn fdA) (zeros 100)"

definition reader_turn :: "int \<Rightarrow> string \<Rightarrow> (string \<Rightarrow> prog) \<Rightarrow> prog" where
  "reader_turn fdB readbuf again =
     read_into fdB readbuf 100 (\<lambda>b r.
     if 0 < r then Out (line (c_str b)) (again (zeros 100)) else again b)"

definition reader :: "nat \<Rightarrow> int \<Rightarrow> prog" where
  "reader n fdB = forever n (reader_turn fdB) (zeros 100)"

text \<open>
  strcat appends to the argument in place; arg1 is the memory from argv[1] on that may be
  written.
\<close>

definition chat_client_main :: "string \<Rightarrow> prog" where
  "chat_client_main arg1 =
     Call (Open (c_str arg1) [O_WRONLY]) (\<lambda>f. error_code (ret f) ''opening file'' (
     Out (line (c_str arg1)) (
     strcat arg1 ''B'' (\<lambda>arg1.
     Call (Mkfifo (c_str arg1)) (\<lambda>m. error_code (ret m) (line ''making fifo'') (
     Call (Open (c_str arg1) [O_RDONLY, O_NONBLOCK]) (\<lambda>g. error_code (ret g) ''opening file'' (
     Out (line ''done first'') (
     Call (Pthread_create ''reader'' '''') (\<lambda>_.
     Call (Pthread_create ''writer'' '''') (\<lambda>_.
     Call (Pthread_join ''readerthread'') (\<lambda>_.
     Call (Pthread_join ''writerthread'') (\<lambda>_. Exit 0)))))))))))))"

section \<open>The chat server that keeps its pipes open\<close>

text \<open>snprintf into n bytes cuts the text off.\<close>

definition snprintf :: "string \<Rightarrow> nat \<Rightarrow> string \<Rightarrow> string" where
  "snprintf b n s = overwrite b (lit (take (n - 1) s))"

text \<open>
  Client j is ready: read and print its message, and write it, formatted into 200 bytes, to
  every other client. What an empty read leaves in buf is sent again.
\<close>

definition say :: "int list \<Rightarrow> int list \<Rightarrow> nat \<Rightarrow> string \<times> string \<Rightarrow> (string \<times> string \<Rightarrow> prog) \<Rightarrow> prog" where
  "say fds wfds j = (\<lambda>(buf, message) k.
     Out (''User '' @ dec (int j) @ '': '') (
     read_into (fds ! j) buf 100 (\<lambda>buf r.
     (if 0 < r then Out (line (c_str buf)) else (\<lambda>p. p)) (
     let message = snprintf message 200 (''User '' @ dec (int j) @ '': '' @ c_str buf) in
     for_each [0..<length fds]
       (\<lambda>i s k. if i \<noteq> j then write_str (wfds ! i) message 200 (k s) else k s) ()
       (\<lambda>_. k (buf, message))))))"

definition talk_turn :: "int list \<Rightarrow> int list \<Rightarrow> string \<times> string \<Rightarrow> (string \<times> string \<Rightarrow> prog) \<Rightarrow> prog" where
  "talk_turn fds wfds st again =
     Call (Select (fold max fds 0 + 1) fds) (\<lambda>a.
     if ret a < 0 then Perror ''Error: '' (again st)
     else if 0 < ret a then
       Out (line ''Got message'') (
       for_each [0..<length fds]
         (\<lambda>j st k. if fds ! j \<in> set (selected fds a) then say fds wfds j st k else k st) st again)
     else again st)"

definition talk_main :: "nat \<Rightarrow> string \<times> string \<Rightarrow> string list \<Rightarrow> prog" where
  "talk_main n st argv =
     Out (newline # ''Server is starting................ Clients '' @ dec (int (length argv))) (
     for_each (tl argv) (\<lambda>name (fds, wfds) k.
       Call (Open name [O_RDWR]) (\<lambda>f.
       if ret f < 0 then Perror ''The following error occurred'' (Exit 0) else
       Call (Open (take 49 (name @ ''write'')) [O_RDWR]) (\<lambda>g.
       if ret g < 0 then Perror ''The following error occurred'' (Exit 0)
       else k (fds @ [ret f], wfds @ [ret g]))))
     ([], []) (\<lambda>(fds, wfds).
     Out (newline # ''Poll fds are created................'') (
     Out (newline # ''Server started..................'') (
     forever n (talk_turn fds wfds) st))))"

section \<open>Runs of the relays\<close>

text \<open>What was written to which descriptor, in order.\<close>

definition payloads :: "call list \<Rightarrow> (int \<times> string) list" where
  "payloads cs = concat (map (\<lambda>c. case c of Write fd obj n \<Rightarrow> [(fd, take (nat n) obj)] | _ \<Rightarrow> []) cs)"

lemma payloads_simps [simp]:
  "payloads [] = []" "payloads (xs @ ys) = payloads xs @ payloads ys"
  "payloads (Write fd obj n # cs) = (fd, take (nat n) obj) # payloads cs"
  "payloads (Open f l # cs) = payloads cs" "payloads (Close x # cs) = payloads cs"
  "payloads (Read x m # cs) = payloads cs" "payloads (Poll ps t # cs) = payloads cs"
  "payloads (Select k ds # cs) = payloads cs"
  by (simp_all add: payloads_def)

lemma for_each_filter:
  "for_each xs (\<lambda>x s k. if P x then body x s k else k s) s k = for_each (filter P xs) body s k"
  by (induction xs arbitrary: s) simp_all

lemma trace_deliver:
  assumes "length name < 49" "no_nul name" "0 \<le> fd"
  shows "calls (trace (deliver name b k) (rets fd # r # c # as)) =
    [Open (name @ ''B'') [O_WRONLY], Write fd b 100, Close fd] @ calls (trace (k (zeros 100)) as)"
proof -
  have "no_nul (name @ ''B'')" using assms(2) by (simp add: no_nul_def)
  then have "c_str (overwrite (zeros 50) (lit (name @ ''B''))) = name @ ''B''"
    by (rule c_str_overwrite_lit)
  with assms show ?thesis by (simp add: deliver_def Let_def length_zeros)
qed

definition relay_answers :: "int list \<Rightarrow> ans list" where
  "relay_answers fds = concat (map (\<lambda>fd. [rets fd, rets 100, rets 0]) fds)"

lemma relay_payloads:
  "\<forall>i \<in> set is. length (clients ! i) < 49 \<and> no_nul (clients ! i) \<Longrightarrow> length fds = length is \<Longrightarrow>
   \<forall>fd \<in> set fds. 0 \<le> fd \<Longrightarrow> length b = 100 \<Longrightarrow>
   payloads (calls (trace (for_each is (\<lambda>j b k. deliver (clients ! j) b k) b k) (relay_answers fds @ as))) =
    zip fds (take (length is) (b # replicate (length is) (zeros 100))) @
    payloads (calls (trace (k (if is = [] then b else zeros 100)) as))"
proof (induction "is" arbitrary: fds b)
  case Nil
  then show ?case by (simp add: relay_answers_def)
next
  case (Cons i "is")
  then obtain fd fds' where fds: "fds = fd # fds'" by (cases fds) auto
  have ra: "relay_answers fds @ as = rets fd # rets 100 # rets 0 # relay_answers fds' @ as"
    by (simp add: relay_answers_def fds)
  have IH: "payloads (calls (trace (for_each is (\<lambda>j b k. deliver (clients ! j) b k) (zeros 100) k)
      (relay_answers fds' @ as))) =
    zip fds' (take (length is) (zeros 100 # replicate (length is) (zeros 100))) @
    payloads (calls (trace (k (if is = [] then zeros 100 else zeros 100)) as))"
    using Cons.prems fds by (intro Cons.IH) (simp_all add: length_zeros)
  have "zip fds' (take (length is) (zeros 100 # replicate (length is) (zeros 100))) =
      zip fds' (replicate (length is) (zeros 100))"
    by (simp flip: replicate_Suc)
  then show ?case
    using Cons.prems fds IH unfolding ra
    by (simp add: trace_deliver)
qed

lemma split_upt: "i < n \<Longrightarrow> [0..<n] = [0..<i] @ i # [Suc i..<n]"
  using upt_add_eq_append [of 0 i "n - i"] by (simp add: upt_conv_Cons)

lemma filter_upt:
  assumes "i < n"
  shows "filter (\<lambda>j. j \<noteq> i) [0..<n] = [0..<i] @ [Suc i..<n]" "filter (\<lambda>j. j = i) [0..<n] = [i]"
  using assms by (simp_all add: split_upt [OF assms] filter_id_conv)

lemma length_others: "i < n \<Longrightarrow> length (filter (\<lambda>j. j \<noteq> i) [0..<n]) = n - 1"
  by (simp add: filter_upt)

lemma take_Cons_replicate: "take k (z # replicate k z) = replicate k z"
  by (simp add: take_replicate flip: replicate_Suc)

lemma selected_only:
  assumes "distinct fds" "j < length fds"
  shows "filter (\<lambda>i. fds ! i \<in> set (selected fds (gets_ints 1 [fds ! j]))) [0..<length fds] = [j]"
proof -
  have "(fds ! i \<in> set (selected fds (gets_ints 1 [fds ! j]))) = (i = j)" if "i < length fds" for i
    using that assms by (auto simp: selected_def nth_eq_iff_index_eq)
  then have "filter (\<lambda>i. fds ! i \<in> set (selected fds (gets_ints 1 [fds ! j]))) [0..<length fds] =
      filter (\<lambda>i. i = j) [0..<length fds]"
    by (intro filter_cong) auto
  with filter_upt(2) [OF assms(2)] show ?thesis by simp
qed

section \<open>What the chat servers do\<close>



text \<open>
  In the log server the first client is written every message, its
  own included, and all others zero bytes.
\<close>

theorem log_reaches_first_client:
  assumes "\<forall>name \<in> set clients. length name < 49 \<and> no_nul name"
    and "filter (\<lambda>j. polled POLLRDNORM j pa) [0..<length clients] = [i]" and "0 \<le> ret pa"
    and "length m = 100" and "length readbuf = 100" and "length ds = length clients"
    and "\<forall>fd \<in> set ds. 0 \<le> fd"
  shows "payloads (calls (trace (poll_turn log_relay clients fds readbuf again)
      ([pa, gives m] @ relay_answers ds))) =
    zip ds (m # replicate (length clients - 1) (zeros 100))"
proof -
  let ?is = "[0..<length clients]"
  have "i \<in> set (filter (\<lambda>j. polled POLLRDNORM j pa) [0..<length clients])" using assms(2) by simp
  then have i: "i < length clients" by simp
  have ow: "overwrite readbuf m = m" using assms(4,5) by (simp add: overwrite_def)
  have names: "\<forall>j \<in> set ?is. length (clients ! j) < 49 \<and> no_nul (clients ! j)"
    using assms(1) by (auto simp: nth_mem)
  have "take (length clients) (m # replicate (length clients) (zeros 100)) =
      m # replicate (length clients - 1) (zeros 100)"
    using i by (cases "length clients") (simp_all add: take_Cons_replicate)
  with relay_payloads [OF names _ assms(7,4), of again "[]"] assms(6)
  have "payloads (calls (trace (for_each ?is (\<lambda>j b k. deliver (clients ! j) b k) m again) (relay_answers ds))) =
      zip ds (m # replicate (length clients - 1) (zeros 100))" by simp
  then show ?thesis
    using assms(2-5) ow
    by (simp add: poll_turn_def for_each_filter serve_def log_relay_def)
qed

theorem log_reaches_first_client_witness:
  "payloads (calls (trace (poll_turn log_relay [''a'', ''b''] [3, 4] (zeros 100) (\<lambda>_. Cut))
      ([gets_ints 1 [0, 64], gives (''hi'' @ zeros 98)] @ relay_answers [6, 6]))) =
    zip [6, 6] ((''hi'' @ zeros 98) # replicate (length [''a'', ''b''] - 1) (zeros 100))"
proof (rule log_reaches_first_client)
  show "filter (\<lambda>j. polled POLLRDNORM j (gets_ints 1 [0, 64])) [0..<length [''a'', ''b'']] = [1]"
    by code_simp
qed (simp_all add: length_zeros no_nul_def)

text \<open>
  C23. The chat server that keeps its pipes open relays faithfully: when
  client j alone is ready with a message, every other client is written the same 200 bytes, the
  text labelled with the sender, in the order of the clients, and j itself nothing.
\<close>

theorem talk_reaches_all_others:
  assumes "distinct fds" and "j < length fds" and "length m \<le> 100" and "m \<noteq> []" and "length buf = 100"
  shows "payloads (calls (trace (talk_turn fds wfds (buf, message) again)
      ([gets_ints 1 [fds ! j], gives m] @ replicate (length fds - 1) (rets 200)))) =
    map (\<lambda>i. (wfds ! i,
        take 200 (snprintf message 200 (''User '' @ dec (int j) @ '': '' @ c_str (overwrite buf m)))))
      (filter (\<lambda>i. i \<noteq> j) [0..<length fds])"
proof -
  let ?n = "length fds" and ?a = "gets_ints 1 [fds ! j]"
  let ?msg = "snprintf message 200 (''User '' @ dec (int j) @ '': '' @ c_str (overwrite buf m))"
  let ?is = "filter (\<lambda>i. i \<noteq> j) [0..<?n]"
  note one = selected_only [OF assms(1,2)]
  have len: "length (replicate (?n - 1) (rets 200)) = length ?is"
    using length_others [OF assms(2)] by simp
  have tr: "trace (for_each ?is (\<lambda>i _ k. write_str (wfds ! i) msg 200 (k ())) () k) (replicate (?n - Suc 0) (rets 200)) =
      map2 Did (map (\<lambda>i. Write (wfds ! i) msg 200) ?is) (replicate (?n - Suc 0) (rets 200)) @ trace (k ()) []" for msg k
    using trace_each_call [where body = "\<lambda>i _ k. write_str (wfds ! i) msg 200 (k ())"
        and c = "\<lambda>i. Write (wfds ! i) msg 200" and bs = "[]", OF _ len]
    by (simp add: write_str_def)
  have pl: "payloads (map (\<lambda>i. Write (wfds ! i) msg 200) xs) = map (\<lambda>i. (wfds ! i, take 200 msg)) xs" for msg xs
    by (induction xs) simp_all
  have g: "got 100 (gives m) = m" using assms(3) by simp
  have "0 < length m" using assms(4) by simp
  then show ?thesis
    using assms(2,3,5) g
    by (simp add: talk_turn_def for_each_filter one say_def Let_def tr pl calls_map2 length_others)
qed

theorem talk_reaches_all_others_witness:
  "payloads (calls (trace (talk_turn [3, 4, 5] [6, 7, 8] (zeros 100, zeros 200) (\<lambda>_. Cut))
      ([gets_ints 1 [[3, 4, 5] ! 1], gives ''hi''] @ replicate (length [3, 4, 5 :: int] - 1) (rets 200)))) =
    map (\<lambda>i. ([6, 7, 8] ! i,
        take 200 (snprintf (zeros 200) 200 (''User '' @ dec (int 1) @ '': '' @ c_str (overwrite (zeros 100) ''hi'')))))
      (filter (\<lambda>i. i \<noteq> 1) [0..<length [3, 4, 5 :: int]])"
  by (rule talk_reaches_all_others) (simp_all add: length_zeros)

end
