(* ===== verification/CN_Service.thy ===== *)
theory CN_Service imports CN_Chat begin

text \<open>
  select_servers/serviceserver: a main server hands out numbered service pipes to clients that
  ask for one over a pipe, and takes them back when a client returns its number. Its two
  threads share the table status and the flag gotserver: the reader sets the flag or frees a
  number, the writer serves a set flag. The threads' turns are steps on the shared state, and
  the interleaving is a step relation; the programs around them are runs of system calls.
\<close>

section \<open>The shared state and the turns of the threads\<close>

record svc_st =
  status :: "int list"
  count :: int
  start :: int
  gotserver :: bool

text \<open>
  The loop for a free number: start keeps its old value when all are in use. The reply names
  the pipe and the number.
\<close>

fun first_free :: "int list \<Rightarrow> nat \<Rightarrow> nat \<Rightarrow> nat option" where
  "first_free st j 0 = None"
| "first_free st j (Suc n) = (if st ! j = 0 then Some j else first_free st (Suc j) n)"

definition pick :: "svc_st \<Rightarrow> int" where
  "pick s = (case first_free (status s) 0 (nat (count s)) of Some j \<Rightarrow> int j | None \<Rightarrow> start s)"

definition reply :: "int \<Rightarrow> string" where
  "reply i = ''serverfifo'' @ dec i @ ''|'' @ dec i"

definition write_turn :: "svc_st \<Rightarrow> string option \<times> svc_st" where
  "write_turn s =
     (if gotserver s then
        (let i = pick s in
         (Some (reply i), s\<lparr>gotserver := False, start := i, status := (status s)[nat i := 1]\<rparr>))
      else (None, s))"

text \<open>
  The reader's test is j=atoi(buf)!=0, which stores the truth value 1 in j: whatever number
  comes, element 0 is freed.
\<close>

definition read_turn :: "string \<Rightarrow> svc_st \<Rightarrow> svc_st" where
  "read_turn msg s =
     (if msg = ''server'' then s\<lparr>gotserver := True\<rparr>
      else let j = (if atoi (lit msg) \<noteq> 0 then 1 else 0) in
        if j \<noteq> 0 then s\<lparr>status := (status s)[nat (j - 1) := 0]\<rparr> else s)"

section \<open>The interleaving of the threads\<close>

datatype svc_step = Reads string | Writes | Idles

inductive svc_run :: "svc_st \<Rightarrow> svc_step \<Rightarrow> svc_st \<Rightarrow> bool" where
  reads: "svc_run s (Reads msg) (read_turn msg s)"
| writes: "gotserver s \<Longrightarrow> svc_run s Writes (snd (write_turn s))"
| idles: "\<not> gotserver s \<Longrightarrow> svc_run s Idles s"

inductive_cases svc_readsE: "svc_run s (Reads msg) s'"
inductive_cases svc_writesE: "svc_run s Writes s'"
inductive_simps svc_run_simps: "svc_run s (Reads msg) s'" "svc_run s Writes s'" "svc_run s Idles s'"

inductive svc_reach :: "svc_st \<Rightarrow> svc_st \<Rightarrow> bool" where
  refl: "svc_reach s s"
| step: "svc_reach s s' \<Longrightarrow> svc_run s' a s'' \<Longrightarrow> svc_reach s s''"

text \<open>The table of ten numbers, of which count are handed out.\<close>

definition svc_inv :: "svc_st \<Rightarrow> bool" where
  "svc_inv s = (length (status s) = 10 \<and> 0 < count s \<and> count s \<le> 10 \<and> 0 \<le> start s \<and> start s < count s)"

definition svc_init :: "nat \<Rightarrow> svc_st" where
  "svc_init n = \<lparr>status = replicate 10 0, count = int n, start = 0, gotserver = False\<rparr>"

section \<open>The programs\<close>

text \<open>The writer and the reader, each with its turns, against what the other left in the state.\<close>

definition thread_write_turn :: "int \<Rightarrow> string \<Rightarrow> svc_st \<Rightarrow> (string \<Rightarrow> svc_st \<Rightarrow> prog) \<Rightarrow> prog" where
  "thread_write_turn writefd message s again =
     (case write_turn s of
       (None, s') \<Rightarrow> again message s'
     | (Some text, s') \<Rightarrow>
         (let message = snprintf message 100 text in
          Out (line (c_str message @ '' : Writing'')) (
          write_str writefd message 100 (again message s'))))"

definition thread_read_turn :: "int \<Rightarrow> string \<Rightarrow> svc_st \<Rightarrow> (string \<Rightarrow> svc_st \<Rightarrow> prog) \<Rightarrow> prog" where
  "thread_read_turn fd buf s again =
     read_into fd buf 100 (\<lambda>buf r.
     if 0 < r then
       let msg = c_str buf; s' = read_turn msg s in
       Out (msg @ '': Read'' @ [newline] @ ''Hello'') (
       if msg \<noteq> ''server'' \<and> atoi (lit msg) \<noteq> 0
       then Out (line ''Status of 0 is changed back to 0'') (again buf s') else again buf s')
     else again buf s)"

text \<open>mkfifo that must succeed.\<close>

definition make_fifo :: "string \<Rightarrow> prog \<Rightarrow> prog" where
  "make_fifo name k =
     Call (Mkfifo name) (\<lambda>m. if ret m \<noteq> 0 then Perror ''The following error occurred'' (Exit 0) else k)"

definition make_services :: "nat \<Rightarrow> int list \<Rightarrow> (int list \<Rightarrow> int \<Rightarrow> prog) \<Rightarrow> prog" where
  "make_services n st k =
     for_each [0..<n] (\<lambda>i (st, c) k.
       let name = ''serverfifo'' @ dec (int i) in
       make_fifo name (
       Call (Open name [O_RDWR]) (\<lambda>o'.
       if 10 \<le> i then Undef
       else if ret o' < 0 then Perror ''The following error occurred'' (Exit 0)
       else k (st[i := 0], c + 1))))
     (st, 0) (\<lambda>(st, c). k st c)"

definition service_main :: "string list \<Rightarrow> prog" where
  "service_main argv =
     Out (newline # ''Main Server is starting................'') (
     if length argv < 2 then Undef else
     make_services (nat (atoi (lit (argv ! 1)))) (replicate 10 0) (\<lambda>st count.
     make_fifo ''clientfifo'' (
     make_fifo ''clientfifowrite'' (
     Call (Open ''clientfifo'' [O_RDWR]) (\<lambda>f.
     Call (Open ''clientfifowrite'' [O_RDWR]) (\<lambda>g.
     Call (Pthread_create ''thread_write'' '''') (\<lambda>_.
     Call (Pthread_create ''thread_read'' '''') (\<lambda>_.
     Call (Pthread_join ''writethread'') (\<lambda>_.
     Call (Pthread_join ''readthread'') (\<lambda>_.
     Call (Close (ret f)) (\<lambda>_.
     Call (Close (ret g)) (\<lambda>_. Exit 0))))))))))))"

text \<open>A service prints what comes through its pipe.\<close>

definition service_read_turn :: "int \<Rightarrow> string \<Rightarrow> (string \<Rightarrow> prog) \<Rightarrow> prog" where
  "service_read_turn fd buf again =
     read_into fd buf 100 (\<lambda>buf r.
     if 0 < r then Out ''User: '' (Out (line (c_str buf)) (again buf)) else again buf)"

definition service_reader :: "nat \<Rightarrow> int \<Rightarrow> string \<Rightarrow> prog" where
  "service_reader n fd buf = forever n (service_read_turn fd) buf"

definition service_server_main :: "string list \<Rightarrow> prog" where
  "service_server_main argv =
     (if length argv < 2 then Undef else
     let name = ''serverfifo'' @ dec (atoi (lit (argv ! 1))) in
     Out (line name) (
     Call (Open name [O_RDWR]) (\<lambda>f.
     Call (Open name [O_RDWR]) (\<lambda>g.
     Out (line ''Opened the fifos....servers ready'') (
     Call (Pthread_create ''thread_read'' '''') (\<lambda>_.
     Call (Pthread_join ''readthread'') (\<lambda>_.
     Call (Close (ret f)) (\<lambda>_.
     Call (Close (ret g)) (\<lambda>_. Exit 0)))))))))"

section \<open>Invariant\<close>

lemma first_free_some: "first_free st j n = Some i \<Longrightarrow> j \<le> i \<and> i < j + n \<and> st ! i = 0"
  by (induction n arbitrary: j) (fastforce split: if_splits)+

lemma first_free_none: "first_free st j n = None \<Longrightarrow> j \<le> i \<Longrightarrow> i < j + n \<Longrightarrow> st ! i \<noteq> 0"
proof (induction n arbitrary: j)
  case (Suc n)
  then show ?case by (cases "i = j") (auto split: if_splits)
qed simp

lemma first_free_least: "first_free st j n = Some i \<Longrightarrow> j \<le> l \<Longrightarrow> l < i \<Longrightarrow> st ! l \<noteq> 0"
proof (induction n arbitrary: j)
  case (Suc n)
  then show ?case by (cases "l = j") (auto split: if_splits)
qed simp

lemma pick_bounds: "svc_inv s \<Longrightarrow> 0 \<le> pick s \<and> pick s < count s"
  using first_free_some [of "status s" 0 "nat (count s)"]
  by (auto simp: pick_def svc_inv_def split: option.splits)

lemma svc_inv_init: "0 < n \<Longrightarrow> n \<le> 10 \<Longrightarrow> svc_inv (svc_init n)"
  by (simp add: svc_inv_def svc_init_def)

lemma svc_inv_run: "svc_run s a s' \<Longrightarrow> svc_inv s \<Longrightarrow> svc_inv s'"
proof (induction rule: svc_run.induct)
  case (reads s msg)
  then show ?case by (auto simp: read_turn_def svc_inv_def)
next
  case (writes s)
  then show ?case
    using pick_bounds [of s] by (simp add: write_turn_def svc_inv_def Let_def)
qed

lemma count_run: "svc_run s a s' \<Longrightarrow> count s' = count s"
  by (induction rule: svc_run.induct) (auto simp: read_turn_def write_turn_def Let_def)

lemma svc_inv_reach: "svc_reach s s' \<Longrightarrow> svc_inv s \<Longrightarrow> svc_inv s' \<and> count s' = count s"
  by (induction rule: svc_reach.induct) (auto simp: count_run svc_inv_run)

text \<open>A number other than 0 that is in use stays so.\<close>

lemma busy_run: "svc_run s a s' \<Longrightarrow> 0 < i \<Longrightarrow> i < length (status s) \<Longrightarrow> status s ! i = 1 \<Longrightarrow>
    length (status s') = length (status s) \<and> status s' ! i = 1"
proof (induction rule: svc_run.induct)
  case (writes s)
  then show ?case
    by (cases "i = nat (pick s)") (simp_all add: write_turn_def Let_def)
qed (auto simp: read_turn_def)

lemma busy_reach: "svc_reach s s' \<Longrightarrow> 0 < i \<Longrightarrow> i < length (status s) \<Longrightarrow> status s ! i = 1 \<Longrightarrow>
    length (status s') = length (status s) \<and> status s' ! i = 1"
proof (induction rule: svc_reach.induct)
  case (step s s' a s'')
  then show ?case using busy_run [of s' a s'' i] by simp
qed simp

section \<open>What the main server does\<close>



text \<open>
  A service other than number 0 is never returned: once it is in use
  it stays in use in every state the threads reach, whatever messages the clients send, since
  the reader frees element 0 for every number it is sent.
\<close>

theorem service_never_returned:
  assumes "svc_reach s s'" and "length (status s) = 10" and "0 < i" and "i < 10" and "status s ! i = 1"
  shows "status s' ! i = 1"
  using busy_reach [OF assms(1,3)] assms(2,4,5) by simp

theorem service_never_returned_witness:
  "status (read_turn ''2'' \<lparr>status = [1, 1] @ replicate 8 0, count = 2, start = 1, gotserver = False\<rparr>) ! 1 = 1"
proof (rule service_never_returned)
  show "svc_reach \<lparr>status = [1, 1] @ replicate 8 0, count = 2, start = 1, gotserver = False\<rparr>
      (read_turn ''2'' \<lparr>status = [1, 1] @ replicate 8 0, count = 2, start = 1, gotserver = False\<rparr>)"
    by (rule svc_reach.step [OF svc_reach.refl svc_run.reads])
qed simp_all

text \<open>
  When all services are in use, the writer hands out again the one
  it handed out last: the reply names start, and the table does not change.
\<close>

theorem service_handed_out_twice:
  assumes "svc_inv s" and "gotserver s" and "\<forall>j < nat (count s). status s ! j = 1"
  shows "fst (write_turn s) = Some (reply (start s)) \<and>
    status (snd (write_turn s)) = status s \<and> start (snd (write_turn s)) = start s"
proof -
  have "first_free (status s) 0 (nat (count s)) = None"
  proof (cases "first_free (status s) 0 (nat (count s))")
    case (Some i)
    with first_free_some [OF Some] assms(3) show ?thesis by force
  qed simp
  then have "pick s = start s" by (simp add: pick_def)
  moreover have "status s ! nat (start s) = 1"
    using assms(1,3) by (simp add: svc_inv_def)
  ultimately show ?thesis
    using assms(2) list_update_id [of "status s" "nat (start s)"] by (simp add: write_turn_def Let_def)
qed

theorem service_handed_out_twice_witness:
  "fst (write_turn \<lparr>status = [1, 1] @ replicate 8 0, count = 2, start = 1, gotserver = True\<rparr>) =
      Some (reply (start \<lparr>status = [1, 1] @ replicate 8 0, count = 2, start = 1, gotserver = True\<rparr>)) \<and>
    status (snd (write_turn \<lparr>status = [1, 1] @ replicate 8 0, count = 2, start = 1, gotserver = True\<rparr>)) =
      status \<lparr>status = [1, 1] @ replicate 8 0, count = 2, start = 1, gotserver = True\<rparr> \<and>
    start (snd (write_turn \<lparr>status = [1, 1] @ replicate 8 0, count = 2, start = 1, gotserver = True\<rparr>)) =
      start \<lparr>status = [1, 1] @ replicate 8 0, count = 2, start = 1, gotserver = True\<rparr>"
proof (rule service_handed_out_twice)
  show "\<forall>j < nat (count \<lparr>status = [1, 1] @ replicate 8 0, count = 2, start = 1, gotserver = True\<rparr>).
      status \<lparr>status = [1, 1] @ replicate 8 0, count = 2, start = 1, gotserver = True\<rparr> ! j = 1"
    by (auto simp: less_Suc_eq numeral_2_eq_2)
qed (simp_all add: svc_inv_def)

end
