(* ===== verification/CN_Pipes.thy ===== *)
theory CN_Pipes imports CN_Service begin

text \<open>
  select_servers/multiserver: a main server that hands out the pipes of two services, with a
  limit for each, to clients that ask by name; its clients, with their threads, and a service.
  select_servers/logserver: servers that relay what their users write to a log server; which log
  pipe a server takes is decided by a counter in shared memory.
\<close>

section \<open>What the programs share\<close>

definition open_fifo :: "string \<Rightarrow> (int \<Rightarrow> prog) \<Rightarrow> prog" where
  "open_fifo name k =
     Call (Open name [O_RDWR]) (\<lambda>f.
     if ret f < 0 then Perror ''The following error occurred'' (Exit 0) else k (ret f))"

text \<open>The shared memory; what goes to the standard error is not part of a run.\<close>

definition attach_fds :: "(int \<Rightarrow> prog) \<Rightarrow> prog" where
  "attach_fds k =
     Call (Shmget 300 10000 True) (\<lambda>id.
     if ret id = - 1 then Perror ''shmget: shmget failed'' (Exit 1)
     else Perror (line (''shmget: shmget returned '' @ dec (ret id))) (
       Call (Shmat (ret id)) (\<lambda>shm. k (ret shm))))"

text \<open>The number and the descriptors, one after the other.\<close>

definition publish_fds :: "int \<Rightarrow> int \<Rightarrow> int list \<Rightarrow> prog \<Rightarrow> prog" where
  "publish_fds shm n fds k =
     Call (ShmStore shm 0 n) (\<lambda>_.
     for_each [0..<nat n] (\<lambda>i _ k. arr_get fds (int i) (\<lambda>fd. Call (ShmStore shm (Suc i) fd) (\<lambda>_. k ()))) ()
       (\<lambda>_. k))"

definition take_number :: "int \<Rightarrow> (int \<Rightarrow> prog) \<Rightarrow> prog" where
  "take_number shm k =
     Call (ShmLoad shm 0) (\<lambda>n.
     Out (line (''Current Log fd number:'' @ dec (ret n) @ '' '')) (
     Call (ShmLoad shm 0) (\<lambda>n.
     Call (ShmStore shm 0 (ret n - 1)) (\<lambda>_.
     Call (ShmLoad shm 0) (\<lambda>n. k (ret n))))))"

definition fgets_into :: "string \<Rightarrow> nat \<Rightarrow> (string \<Rightarrow> prog) \<Rightarrow> prog" where
  "fgets_into b n k =
     Call (Fgets (int n)) (\<lambda>a. k (if ret a \<le> 0 then b else overwrite b (lit (take (n - 1) (dat a)))))"

text \<open>strcasecmp(s, t) == 0.\<close>

definition lower :: "char \<Rightarrow> char" where
  "lower c = (if 65 \<le> (of_char c :: nat) \<and> (of_char c :: nat) \<le> 90 then char_of ((of_char c :: nat) + 32) else c)"

definition same_caseless :: "string \<Rightarrow> string \<Rightarrow> bool" where
  "same_caseless s t = (map lower s = map lower t)"

section \<open>The main server\<close>

definition multi_pipes :: "nat \<Rightarrow> (int list \<times> int list \<Rightarrow> prog) \<Rightarrow> prog" where
  "multi_pipes n k =
     for_each [0..<n] (\<lambda>i (fds, wfds) k.
       let name = ''mainfifo'' @ dec (int i); wname = ''mainfifowrite'' @ dec (int i) in
       make_fifo name (make_fifo wname (
       Call (Open name [O_RDWR]) (\<lambda>f.
       if 10 \<le> i then Undef
       else if ret f < 0 then Perror ''The following error occurred'' (Exit 0)
       else open_fifo wname (\<lambda>g. k (fds @ [ret f], wfds @ [g]))))))
     ([], []) k"

text \<open>The state: the message buffer and how many of each service are left.\<close>

definition multi_answer :: "int \<Rightarrow> string \<times> int \<times> int \<Rightarrow> (string \<times> int \<times> int \<Rightarrow> prog) \<Rightarrow> prog" where
  "multi_answer wfd = (\<lambda>(buf, n1, n2) k.
     if same_caseless (c_str buf) (line ''s1'') \<and> 0 < n1 then
       Out (line ''S1 allocated'') (write_str wfd (lit ''S1fifo'') 35 (k (buf, n1 - 1, n2)))
     else if same_caseless (c_str buf) (line ''s2'') \<and> 0 < n2 then
       Out (line ''S2 allocated'') (write_str wfd (lit ''S2fifo'') 35 (k (buf, n1, n2 - 1)))
     else Out (line ''No servers avaliable'') (k (buf, n1, n2)))"

definition multi_serve :: "int \<Rightarrow> int \<Rightarrow> string \<times> int \<times> int \<Rightarrow> (string \<times> int \<times> int \<Rightarrow> prog) \<Rightarrow> prog" where
  "multi_serve fd wfd = (\<lambda>(buf, n1, n2) k.
     Out ''Logged: '' (
     read_into fd buf 100 (\<lambda>buf r.
     if 0 < r then Out (line (c_str buf)) (multi_answer wfd (buf, n1, n2) k) else k (buf, n1, n2))))"

definition multi_turn :: "int list \<Rightarrow> int list \<Rightarrow> string \<times> int \<times> int \<Rightarrow> (string \<times> int \<times> int \<Rightarrow> prog) \<Rightarrow> prog" where
  "multi_turn fds wfds st again =
     Call (Select (fold max fds 0 + 1) fds) (\<lambda>a.
     if 0 < ret a then
       Out (line ''Got message'') (
       for_each [0..<length fds]
         (\<lambda>j st k. if fds ! j \<in> set (selected fds a) then multi_serve (fds ! j) (wfds ! j) st k else k st) st again)
     else again st)"

definition multi_main :: "nat \<Rightarrow> string list \<Rightarrow> string \<Rightarrow> prog" where
  "multi_main n argv buf =
     Out (newline # ''Main Server is starting................'') (
     if length argv < 4 then Undef else
     let number = atoi (lit (argv ! 1)); n1 = atoi (lit (argv ! 2)); n2 = atoi (lit (argv ! 3)) in
     Out (line (''Max clients: '' @ dec number @ '', S1: '' @ dec n1 @ '', S2: '' @ dec n2)) (
     multi_pipes (nat number) (\<lambda>(fds, wfds).
     make_fifo ''S1fifo'' (make_fifo ''S2fifo'' (make_fifo ''S1fifowrite'' (make_fifo ''S2fifowrite'' (
     attach_fds (\<lambda>shm.
     publish_fds shm number fds (
     for_each fds (\<lambda>fd _ k. Out (dec fd @ '':'') (k ())) () (\<lambda>_.
     Out (line (dec (fold max fds 0) @ '' is max'')) (
     Out (newline # ''log fds are created................'') (
     Out (newline # ''Server started..................'') (
     forever n (multi_turn fds wfds) (buf, n1, n2))))))))))))))"

section \<open>Its clients and the services\<close>

text \<open>The variables that the two threads of a client share.\<close>

record client_st =
  cl_fd :: int
  cl_writefd :: int
  cl_got :: bool

definition ask_server :: "int \<Rightarrow> string \<Rightarrow> (string \<Rightarrow> prog) \<Rightarrow> prog" where
  "ask_server fd message k =
     Out (line ''Which server S1 or S2:'') (
     fgets_into message 100 (\<lambda>message.
     Out (line (c_str message)) (write_str fd message 100 (k message))))"

definition send_turn :: "client_st \<Rightarrow> string \<Rightarrow> (string \<Rightarrow> prog) \<Rightarrow> prog" where
  "send_turn s message again =
     (if cl_got s then
        Out (line ''Send a message:'') (
        fgets_into message 100 (\<lambda>message.
        Out (line (c_str message)) (write_str (cl_fd s) message 100 (again message))))
      else again message)"

definition show_message :: "int \<Rightarrow> string \<Rightarrow> (string \<Rightarrow> prog) \<Rightarrow> prog" where
  "show_message fd buf k =
     read_into fd buf 100 (\<lambda>buf r.
     if 0 < r then Out ''Server: '' (Out (line (c_str buf)) (k buf)) else k buf)"

text \<open>The reader's first message names the pipe of the service; 20 bytes hold the other name.\<close>

definition find_server :: "client_st \<Rightarrow> string \<Rightarrow> (string \<Rightarrow> client_st \<Rightarrow> prog) \<Rightarrow> prog" where
  "find_server s buf k =
     show_message (cl_writefd s) buf (\<lambda>buf.
     Out (''Fifo name: '' @ c_str buf @ '' '') (
     Call (Open (c_str buf) [O_RDWR]) (\<lambda>f.
     Call (Open (take 19 (c_str buf @ ''write'')) [O_RDWR]) (\<lambda>g.
     k buf \<lparr>cl_fd = ret f, cl_writefd = ret g, cl_got = True\<rparr>))))"

definition client_reader :: "nat \<Rightarrow> client_st \<Rightarrow> string \<Rightarrow> prog" where
  "client_reader n s buf =
     find_server s buf (\<lambda>buf s. forever n (show_message (cl_writefd s)) buf)"

definition multi_client_main :: prog where
  "multi_client_main =
     attach_fds (\<lambda>shm. take_number shm (\<lambda>logno.
     Call (Open (''mainfifo'' @ dec logno) [O_RDWR]) (\<lambda>f.
     Call (Open (''mainfifowrite'' @ dec logno) [O_RDWR]) (\<lambda>g.
     Call (Pthread_create ''thread_write'' '''') (\<lambda>_.
     Call (Pthread_create ''thread_read'' '''') (\<lambda>_.
     Call (Pthread_join ''writethread'') (\<lambda>_.
     Call (Pthread_join ''readthread'') (\<lambda>_.
     Call (Close (ret f)) (\<lambda>_. Call (Close (ret g)) (\<lambda>_. Exit 0))))))))))"

text \<open>A service: its thread prints what comes through its pipe.\<close>

definition multi_service_thread :: "nat \<Rightarrow> int \<Rightarrow> string \<Rightarrow> prog" where
  "multi_service_thread n fd buf = forever n (service_read_turn fd) buf"

definition multi_service_main :: "string list \<Rightarrow> prog" where
  "multi_service_main argv =
     (if length argv < 2 then Undef else
     Call (Open (argv ! 1) [O_RDWR]) (\<lambda>f.
     Call (Open (take 99 (argv ! 1 @ ''write'')) [O_RDWR]) (\<lambda>g.
     Out (line ''Opened the fifos....servers ready'') (
     Call (Pthread_create ''thread_read'' '''') (\<lambda>_.
     Call (Pthread_join ''readthread'') (\<lambda>_.
     Call (Close (ret f)) (\<lambda>_. Call (Close (ret g)) (\<lambda>_. Exit 0))))))))"

section \<open>The log server and its servers\<close>

text \<open>
  logs.fd has ten elements without initial value, init. The pipes are made for all numbers, but
  the descriptors that are waited for are those below argc - 1; FD_SET needs one below 1024.
\<close>

definition log_pipes :: "nat \<Rightarrow> int list \<Rightarrow> (int list \<Rightarrow> prog) \<Rightarrow> prog" where
  "log_pipes n init k =
     for_each [0..<n] (\<lambda>i fds k.
       let name = ''logfifo'' @ dec (int i) in
       make_fifo name (
       Call (Open name [O_RDWR]) (\<lambda>f.
       if 10 \<le> i then Undef
       else if ret f < 0 then Perror ''The following error occurred'' (Exit 0)
       else k (fds[i := ret f])))
     ) init k"

definition log_turn :: "int list \<Rightarrow> nat \<Rightarrow> nat \<Rightarrow> string \<Rightarrow> (string \<Rightarrow> prog) \<Rightarrow> prog" where
  "log_turn fds number watched buf again =
     Call (Select (fold max (take watched fds) 0 + 1) (take watched fds)) (\<lambda>a.
     for_each (if 0 < ret a then [0..<number] else []) (\<lambda>j buf k. arr_get fds (int j) (\<lambda>fd.
       if fd \<in> set (selected (take watched fds) a) then
         Out ''Logged: '' (read_into fd buf 100 (\<lambda>buf r.
         if 0 < r then Out (line (c_str buf)) (k buf) else k buf))
       else k buf)) buf again)"

definition log_server_main :: "nat \<Rightarrow> int list \<Rightarrow> string \<Rightarrow> string list \<Rightarrow> prog" where
  "log_server_main n init buf argv =
     Out (newline # ''Log Server is starting................'') (
     if length argv < 2 then Undef else
     let number = atoi (lit (argv ! 1)) in
     log_pipes (nat number) init (\<lambda>fds.
     attach_fds (\<lambda>shm.
     publish_fds shm number fds (
     if 10 < length argv - 1 \<or> \<not> list_all (\<lambda>fd. 0 \<le> fd \<and> fd < 1024) (take (length argv - 1) fds) then Undef else
     Out (newline # ''log fds are created................'') (
     Out (newline # ''Server started..................'') (
     forever n (log_turn fds (nat number) (length argv - 1)) buf))))))"

text \<open>A server: what user j writes is printed and passed to the log pipe, whole buffers.\<close>

definition relay_log :: "int \<Rightarrow> nat \<Rightarrow> int \<Rightarrow> string \<Rightarrow> (string \<Rightarrow> prog) \<Rightarrow> prog" where
  "relay_log logfd j fd buf k =
     Out (''User '' @ dec (int j) @ '': '') (
     read_into fd buf 100 (\<lambda>buf r.
     (if 0 < r then Out (line (c_str buf)) else (\<lambda>p. p)) (write_str logfd buf 100 (k buf))))"

definition relay_turn :: "int \<Rightarrow> int list \<Rightarrow> string \<Rightarrow> (string \<Rightarrow> prog) \<Rightarrow> prog" where
  "relay_turn logfd fds buf again =
     Call (Select (fold max fds 0 + 1) fds) (\<lambda>a.
     if ret a < 0 then Perror ''Error: '' (again buf)
     else for_each (if 0 < ret a then [0..<length fds] else [])
       (\<lambda>j buf k. if fds ! j \<in> set (selected fds a) then relay_log logfd j (fds ! j) buf k else k buf) buf again)"

definition relay_main :: "nat \<Rightarrow> string \<Rightarrow> string list \<Rightarrow> prog" where
  "relay_main n buf argv =
     Out (newline # ''Server is starting................'') (
     for_each (tl argv) (\<lambda>name fds k. open_fifo name (\<lambda>f. k (fds @ [f]))) [] (\<lambda>fds.
     attach_fds (\<lambda>shm. take_number shm (\<lambda>logno.
     open_fifo (''logfifo'' @ dec logno) (\<lambda>logfd.
     Out (newline # ''Poll fds are created................'') (
     Out (newline # ''Server started..................'') (
     forever n (relay_turn logfd fds) buf)))))))"

text \<open>A user of such a server; its reader is not started.\<close>

definition user_write_turn :: "int \<Rightarrow> string \<Rightarrow> (string \<Rightarrow> prog) \<Rightarrow> prog" where
  "user_write_turn fd message again =
     Out ''User: '' (
     fgets_into message 100 (\<lambda>message.
     Out (line (c_str message)) (write_str fd message 100 (again message))))"

definition user_writer :: "nat \<Rightarrow> int \<Rightarrow> string \<Rightarrow> prog" where
  "user_writer n fd message =
     Out (newline # line ''Keep typing message'') (forever n (user_write_turn fd) message)"

definition user_reader :: "nat \<Rightarrow> int \<Rightarrow> string \<Rightarrow> prog" where
  "user_reader n writefd buf = forever n (show_message writefd) buf"

definition user_main :: "string list \<Rightarrow> prog" where
  "user_main argv =
     (if length argv < 2 then Undef else
     make_fifo (argv ! 1) (
     let wname = take 49 (argv ! 1 @ ''write'') in
     make_fifo wname (
     Call (Open (argv ! 1) [O_RDWR]) (\<lambda>f.
     Call (Open wname [O_RDWR]) (\<lambda>g.
     Call (Pthread_create ''thread_write'' '''') (\<lambda>_.
     Call (Pthread_join ''writethread'') (\<lambda>_.
     Call (Close (ret f)) (\<lambda>_. Call (Close (ret g)) (\<lambda>_. Exit 0)))))))))"

section \<open>What the main server grants\<close>

text \<open>A request (j, m): client j writes the 100 bytes m. What is left of the services after it.\<close>

definition wants :: "string \<Rightarrow> nat \<times> string \<Rightarrow> bool" where
  "wants name r = same_caseless (c_str (snd r)) (line name)"

definition left :: "int \<times> int \<Rightarrow> nat \<times> string \<Rightarrow> int \<times> int" where
  "left = (\<lambda>(n1, n2) r.
     if wants ''s1'' r \<and> 0 < n1 then (n1 - 1, n2)
     else if wants ''s2'' r \<and> 0 < n2 then (n1, n2 - 1) else (n1, n2))"

text \<open>The answers of a run in which each select finds one client ready.\<close>

primrec request_answers :: "int list \<Rightarrow> int \<times> int \<Rightarrow> (nat \<times> string) list \<Rightarrow> ans list" where
  "request_answers fds n [] = []"
| "request_answers fds n (r # rs) =
     [gets_ints 1 [fds ! fst r], gives (snd r)] @ (if left n r = n then [] else [rets 35]) @
     request_answers fds (left n r) rs"

definition granted :: "int list \<Rightarrow> int \<times> int \<Rightarrow> nat \<times> string \<Rightarrow> (int \<times> string) list" where
  "granted wfds n r =
     (if left n r = n then [] else [(wfds ! fst r, lit (if wants ''s1'' r then ''S1fifo'' else ''S2fifo''))])"

lemma not_both: "wants ''s1'' r \<Longrightarrow> \<not> wants ''s2'' r"
  by (simp add: wants_def same_caseless_def lower_def)

lemma multi_turn_step:
  assumes "distinct fds" "fst r < length fds" "length (snd r) = 100" "length buf = 100"
  shows "payloads (calls (trace (multi_turn fds wfds (buf, n) again)
      ([gets_ints 1 [fds ! fst r], gives (snd r)] @ (if left n r = n then [] else [rets 35]) @ as))) =
    granted wfds n r @ payloads (calls (trace (again (snd r, left n r)) as))"
proof -
  obtain n1 n2 where n: "n = (n1, n2)" by (cases n)
  have ow: "overwrite buf (snd r) = snd r" using assms(3,4) by (simp add: overwrite_def)
  have g: "got 100 (gives (snd r)) = snd r" using assms(3) by simp
  show ?thesis
    using assms ow g not_both [of r]
    by (cases "wants ''s1'' r"; cases "wants ''s2'' r"; cases "0 < n1"; cases "0 < n2")
      (simp_all add: n multi_turn_def for_each_filter selected_only multi_serve_def multi_answer_def
        granted_def left_def wants_def lit_def)
qed

primrec grants :: "int list \<Rightarrow> int \<times> int \<Rightarrow> (nat \<times> string) list \<Rightarrow> (int \<times> string) list" where
  "grants wfds n [] = []"
| "grants wfds n (r # rs) = granted wfds n r @ grants wfds (left n r) rs"

lemma multi_run:
  assumes "distinct fds" "\<forall>r \<in> set rs. fst r < length fds \<and> length (snd r) = 100" "length buf = 100"
  shows "payloads (calls (trace (forever (length rs) (multi_turn fds wfds) (buf, n)) (request_answers fds n rs))) =
    grants wfds n rs"
  using assms(2,3)
proof (induction rs arbitrary: buf n)
  case (Cons r rs)
  then show ?case
    using multi_turn_step [of fds r buf wfds n "forever (length rs) (multi_turn fds wfds)" "request_answers fds (left n r) rs"]
      assms(1) by simp
qed simp

lemma take_positive: "0 < n \<Longrightarrow> take (nat n) (x # xs) = x # take (nat (n - 1)) xs"
  by (cases "nat n") (auto simp: nat_diff_distrib)

lemma grants_service:
  "filter (\<lambda>p. snd p = lit ''S1fifo'') (grants wfds (n1, n2) rs) =
    map (\<lambda>r. (wfds ! fst r, lit ''S1fifo'')) (take (nat n1) (filter (wants ''s1'') rs))"
  "filter (\<lambda>p. snd p = lit ''S2fifo'') (grants wfds (n1, n2) rs) =
    map (\<lambda>r. (wfds ! fst r, lit ''S2fifo'')) (take (nat n2) (filter (wants ''s2'') rs))"
proof (induction rs arbitrary: n1 n2)
  case (Cons r rs)
  have d: "lit ''S1fifo'' \<noteq> lit ''S2fifo''" "lit ''S2fifo'' \<noteq> lit ''S1fifo''" by (simp_all add: lit_def)
  {
    case 1
    show ?case using Cons.IH(1) d
      by (cases "wants ''s1'' r"; cases "0 < n1")
        (auto simp: granted_def left_def take_positive not_both)
  next
    case 2
    show ?case using Cons.IH(2) d not_both [of r]
      by (cases "wants ''s2'' r"; cases "0 < n2")
        (auto simp: granted_def left_def take_positive)
  }
qed simp_all

text \<open>
  C20. The main server of select_servers/multiserver keeps the limits: in a run
  in which each select finds one client with a message of 100 bytes, the pipe of service S1 is
  written to the first n1 of the clients that ask for s1, in their order and to nobody else, the
  pipe of S2 to the first n2 of those that ask for s2, and nothing else is written.
\<close>

theorem multi_grants_first:
  fixes wfds :: "int list" and n1 n2 :: int
  assumes "distinct fds" and "\<forall>r \<in> set rs. fst r < length fds \<and> length (snd r) = 100" and "length buf = 100"
  defines "ps \<equiv> payloads (calls (trace (forever (length rs) (multi_turn fds wfds) (buf, n1, n2))
      (request_answers fds (n1, n2) rs)))"
  shows "filter (\<lambda>p. snd p = lit ''S1fifo'') ps =
      map (\<lambda>r. (wfds ! fst r, lit ''S1fifo'')) (take (nat n1) (filter (wants ''s1'') rs)) \<and>
    filter (\<lambda>p. snd p = lit ''S2fifo'') ps =
      map (\<lambda>r. (wfds ! fst r, lit ''S2fifo'')) (take (nat n2) (filter (wants ''s2'') rs)) \<and>
    set ps \<subseteq> UNIV \<times> {lit ''S1fifo'', lit ''S2fifo''}"
proof -
  have ps: "ps = grants wfds (n1, n2) rs" unfolding ps_def by (rule multi_run [OF assms(1-3)])
  have "set (grants wfds n rs) \<subseteq> UNIV \<times> {lit ''S1fifo'', lit ''S2fifo''}" for n
    by (induction rs arbitrary: n) (auto simp: granted_def)
  then show ?thesis unfolding ps grants_service by simp
qed

theorem multi_grants_first_witness:
  "filter (\<lambda>p. snd p = lit ''S1fifo'') (payloads (calls (trace
      (forever (length [(1::nat, line ''S1'' @ zeros 97), (0, line ''s1'' @ zeros 97)]) (multi_turn [3, 5] [4, 6]) (zeros 100, 1, 0))
      (request_answers [3, 5] (1, 0) [(1, line ''S1'' @ zeros 97), (0, line ''s1'' @ zeros 97)])))) = [(6, lit ''S1fifo'')]"
proof -
  let ?rs = "[(1 :: nat, line ''S1'' @ zeros 97), (0, line ''s1'' @ zeros 97)]"
  have "map lower (line ''S1'') = line ''s1''" "map lower (line ''s1'') = line ''s1''" by code_simp+
  then have w: "wants ''s1'' (j, line ''S1'' @ zeros 97)" "wants ''s1'' (j, line ''s1'' @ zeros 97)" for j
    by (simp_all add: wants_def zeros_def c_str_def same_caseless_def)
  have "filter (\<lambda>p. snd p = lit ''S1fifo'') (payloads (calls (trace
      (forever (length ?rs) (multi_turn [3, 5] [4, 6]) (zeros 100, 1, 0)) (request_answers [3, 5] (1, 0) ?rs)))) =
      map (\<lambda>r. ([4, 6 :: int] ! fst r, lit ''S1fifo'')) (take (nat 1) (filter (wants ''s1'') ?rs))"
    by (rule multi_grants_first [THEN conjunct1]) (simp_all add: length_zeros)
  also have "\<dots> = [(6, lit ''S1fifo'')]" by (simp add: w [simplified])
  finally show ?thesis .
qed

section \<open>The log pipe that nobody reads\<close>

definition only_fd :: "int \<Rightarrow> call \<Rightarrow> bool" where
  "only_fd fd c = (case c of Select m ds \<Rightarrow> ds = [fd] | Read f k \<Rightarrow> f = fd | _ \<Rightarrow> False)"

lemma only_fd_simps [simp]:
  "only_fd fd (Select m ds) = (ds = [fd])" "only_fd fd (Read f k) = (f = fd)"
  by (simp_all add: only_fd_def)

lemma log_turns_read_first:
  assumes "fds \<noteq> []" "number \<le> length fds" "length buf = 100"
  shows "always (only_fd (hd fds)) (forever n (log_turn fds number 1) buf)"
proof (rule always_forever [where I = "\<lambda>b. length b = 100"])
  have hd: "take 1 fds = [hd fds]" using assms(1) by (cases fds) simp_all
  have sel: "fd \<in> set (selected [hd fds] a) \<Longrightarrow> fd = hd fds" for fd a
    by (auto simp: selected_def split: if_splits)
  show "length buf = 100" by (rule assms(3))
  fix s :: string and k' :: "string \<Rightarrow> prog"
  assume s: "length s = 100" and k': "\<And>s'. length s' = 100 \<Longrightarrow> always (only_fd (hd fds)) (k' s')"
  have body: "always (only_fd (hd fds)) (arr_get fds (int j) (\<lambda>fd.
       if fd \<in> set (selected [hd fds] a) then
         Out ''Logged: '' (read_into fd b 100 (\<lambda>buf r.
         if 0 < r then Out (line (c_str buf)) (k buf) else k buf))
       else k b))"
    if "length b = 100" "\<And>b'. length b' = 100 \<Longrightarrow> always (only_fd (hd fds)) (k b')" for j b k a
    using that sel [of "fds ! j" a] by (auto intro!: always_recv(2))
  show "always (only_fd (hd fds)) (log_turn fds number 1 s k')"
    unfolding log_turn_def hd always_simps
    by (intro conjI allI always_for_each [where I = "\<lambda>b. length b = 100"] body) (simp_all add: s k')
qed

text \<open>
  A server takes the log pipe whose number is one less than the counter,
  that is the last one at first, while the log server, started with one argument, waits for and
  reads only the first pipe of its table: whatever the kernel answers, every select of its loop
  is for that descriptor alone and every read is from it, so that with more than one pipe what
  the first server relays is never read.
\<close>

theorem log_pipes_unread:
  assumes "fds \<noteq> []" and "number \<le> length fds" and "length buf = 100"
  shows "list_all (only_fd (hd fds)) (calls (trace (forever n (log_turn fds number 1) buf) as)) \<and>
    calls (trace (take_number shm (\<lambda>logno. open_fifo (''logfifo'' @ dec logno) k))
      [rets i, rets i, rets 0, rets (i - 1), rets fd]) =
    [ShmLoad shm 0, ShmLoad shm 0, ShmStore shm 0 (i - 1), ShmLoad shm 0, Open (''logfifo'' @ dec (i - 1)) [O_RDWR]]"
proof
  show "list_all (only_fd (hd fds)) (calls (trace (forever n (log_turn fds number 1) buf) as))"
    by (rule always_trace [OF log_turns_read_first [OF assms]])
qed (simp add: take_number_def open_fifo_def)

theorem log_pipes_unread_witness:
  "list_all (only_fd 3) (calls (trace (forever 1 (log_turn [3, 4] 2 1) (zeros 100)) [gets_ints 1 [3], gives ''hi'']))"
proof -
  have "list_all (only_fd (hd [3, 4])) (calls (trace (forever 1 (log_turn [3, 4] 2 1) (zeros 100))
      [gets_ints 1 [3], gives ''hi'']))"
    by (rule log_pipes_unread [THEN conjunct1]) (simp_all add: length_zeros)
  then show ?thesis unfolding list.sel .
qed

end
