(* ===== verification/CN_Multi.thy ===== *)
theory CN_Multi imports CN_Pipes begin

text \<open>
  Servers that wait for several sources: multiserver and selectservers/multiserver, which start a
  service for a request; allinone, selectservers/allinone, select_servers/allinoneserver and
  exam/3, which read the keyboard, pipes and the output of programs; with their small helpers.
\<close>

section \<open>multiserver: requests that start a service\<close>

text \<open>All tokens of a string, as repeated calls of strtok give them.\<close>

function (sequential) tokens :: "string \<Rightarrow> string \<Rightarrow> string list" where
  "tokens delims s = (case strtok delims s of None \<Rightarrow> [] | Some (t, r) \<Rightarrow> t # tokens delims r)"
  by pat_completeness auto

lemma length_after_token:
  assumes "strtok delims s = Some (t, r)"
  shows "length r < length s"
proof -
  let ?d = "dropWhile (\<lambda>c. c \<in> set delims) s"
  have ne: "?d \<noteq> []" and r: "r = drop 1 (dropWhile (\<lambda>c. c \<notin> set delims) ?d)"
    using assms by (auto simp: strtok_def Let_def split: if_splits)
  have "hd ?d \<notin> set delims" using hd_dropWhile [OF ne] by simp
  then have "length (dropWhile (\<lambda>c. c \<notin> set delims) ?d) \<le> length (tl ?d)"
    using ne length_dropWhile_le [of "\<lambda>c. c \<notin> set delims" "tl ?d"] by (cases ?d) auto
  moreover have "length ?d \<le> length s" by (rule length_dropWhile_le)
  ultimately show ?thesis using ne r by (cases ?d) auto
qed

termination tokens
  by (relation "measure (\<lambda>(d, s). length s)") (auto simp: length_after_token)

declare tokens.simps [simp del]

text \<open>The child copies the tokens into ten pointers to 20 bytes each, the last one NULL.\<close>

definition exec_request :: "string list \<Rightarrow> prog \<Rightarrow> prog" where
  "exec_request args k =
     (if length args < 10 \<and> list_all (\<lambda>t. length t < 20) args then Call (Execve ''s1'' args) (\<lambda>_. k) else Undef)"

text \<open>A request without a token makes printf and strcmp read a null pointer.\<close>

definition dispatch_turn :: "int \<Rightarrow> string \<Rightarrow> (string \<Rightarrow> prog) \<Rightarrow> prog" where
  "dispatch_turn fd readbuf again =
     Call (Poll [(fd, POLLRDNORM)] 100) (\<lambda>a. error_code (ret a) ''poll error'' (
     if polled POLLRDNORM 0 a then
       read_into fd readbuf 100 (\<lambda>readbuf _.
       Out (line (c_str readbuf)) (
       case strtok ''|'' (c_str readbuf) of None \<Rightarrow> Undef
       | Some (token, rest) \<Rightarrow>
         Out (line token) (
         if token = ''s1'' then
           Call Fork (\<lambda>c.
           if ret c = 0 then Call (Execve ''s1'' []) (\<lambda>_. again (zeros 100)) else again (zeros 100))
         else if token = ''s2'' then
           Call Fork (\<lambda>c.
           if ret c = 0 then exec_request (token # tokens ''|'' rest) (again (zeros 100)) else again (zeros 100))
         else again (zeros 100))))
     else again readbuf))"

definition open_request_fifo :: "(int \<Rightarrow> prog) \<Rightarrow> prog" where
  "open_request_fifo k =
     Call (Mkfifo ''fifo'') (\<lambda>m. error_code (ret m) (line ''making fifo server'') (
     Call (Open ''fifo'' [O_RDONLY, O_NONBLOCK]) (\<lambda>f. error_code (ret f) (line ''opening file1'') (k (ret f)))))"

definition dispatch_main :: "nat \<Rightarrow> prog" where
  "dispatch_main n = open_request_fifo (\<lambda>fd. forever n (dispatch_turn fd) (zeros 100))"

text \<open>The service s1 adds its arguments and writes the result to the client's pipe.\<close>

definition sum_main :: "string list \<Rightarrow> string \<Rightarrow> prog" where
  "sum_main argv buf =
     Out (line ''s1 is called'') (
     Call (Open ''fifoserver'' [O_WRONLY]) (\<lambda>f. error_code (ret f) ''opening file'' (
     if length argv < 3 then Undef else
     let a = atoi (lit (argv ! 1)); b = atoi (lit (argv ! 2)) in
     if \<not> int32 (a + b) then Undef else
     put_str buf (dec (a + b)) (\<lambda>buf.
     write_str (ret f) buf 30 (Call (Close (ret f)) (\<lambda>_. Exit 0))))))"

text \<open>learnstr.c restarts strtok in every turn; it ends the token in the buffer.\<close>

definition learn_turn :: "string \<Rightarrow> (string \<Rightarrow> prog) \<Rightarrow> prog" where
  "learn_turn buf again =
     (case strtok '' '' (c_str buf) of None \<Rightarrow> Exit 0
      | Some (t, r) \<Rightarrow>
        Out (line t) (again (buf[length (takeWhile (\<lambda>c. c = CHR '' '') (c_str buf)) + length t := NUL])))"

definition learn_main :: "nat \<Rightarrow> string \<Rightarrow> prog" where
  "learn_main n buf =
     Call Scanf_str (\<lambda>a. (if ret a = 1 then put_str buf (dat a) else (\<lambda>k. k buf)) (\<lambda>buf.
     forever n learn_turn buf))"

section \<open>selectservers/multiserver\<close>

definition sel_dispatch_turn :: "int \<Rightarrow> string \<Rightarrow> (string \<Rightarrow> prog) \<Rightarrow> prog" where
  "sel_dispatch_turn fd readbuf again =
     Call (Select (fd + 1) [fd]) (\<lambda>a. error_code (ret a) (line ''select not working'') (
     if fd \<in> set (selected [fd] a) then
       read_into fd readbuf 100 (\<lambda>readbuf _.
       Out (line (c_str readbuf)) (
       if c_str readbuf = ''s1'' \<or> c_str readbuf = ''s2'' then
         Call Fork (\<lambda>c.
         if ret c = 0 then Call (Execve ''s1'' []) (\<lambda>_. again (zeros 100)) else again (zeros 100))
       else again (zeros 100)))
     else again readbuf))"

definition sel_dispatch_main :: "nat \<Rightarrow> prog" where
  "sel_dispatch_main n = open_request_fifo (\<lambda>fd. forever n (sel_dispatch_turn fd) (zeros 100))"

definition sel_s1_main :: prog where
  "sel_s1_main =
     Out (line ''s1 is called'') (
     Call (Open ''fifoserver'' [O_WRONLY]) (\<lambda>f. error_code (ret f) ''opening file'' (
     write_str (ret f) (lit ''sending to client'') 30 (Call (Close (ret f)) (\<lambda>_. Exit 0)))))"

section \<open>The client of both\<close>

text \<open>The threads are those of the chat client.\<close>

definition request_client_main :: prog where
  "request_client_main =
     Call (Mkfifo ''fifoserver'') (\<lambda>m. error_code (ret m) (line ''making fifo'') (
     Call (Open ''fifoserver'' [O_RDONLY, O_NONBLOCK]) (\<lambda>g. error_code (ret g) ''opening file'' (
     Out (line ''done first'') (
     Call (Open ''fifo'' [O_WRONLY]) (\<lambda>f. error_code (ret f) ''opening file'' (
     Call (Pthread_create ''reader'' '''') (\<lambda>_.
     Call (Pthread_create ''writer'' '''') (\<lambda>_.
     Call (Pthread_join ''writerthread'') (\<lambda>_. Exit 0))))))))))"

section \<open>allinone: keyboard, pipe, fifo and a program\<close>

text \<open>popen that fails gives fileno a null pointer.\<close>

definition popen_fd :: "string \<Rightarrow> (int \<Rightarrow> prog) \<Rightarrow> prog" where
  "popen_fd command k = Call (Popen command) (\<lambda>f. if ret f < 0 then Undef else k (ret f))"

text \<open>The end of a new pipe whose other end is with a child that runs the program child.\<close>

definition pipe_child :: "(int \<Rightarrow> prog) \<Rightarrow> (int \<Rightarrow> prog) \<Rightarrow> prog" where
  "pipe_child child k =
     Call Pipe (\<lambda>p. error_code (ret p) (line ''Creating the pipe'') (
     arr_get (ints p) 0 (\<lambda>rfd. arr_get (ints p) 1 (\<lambda>wfd.
     Call Fork (\<lambda>c. error_code (ret c) (line ''forking the process'') (
     if ret c = 0 then Call (Close rfd) (\<lambda>_. child wfd) else Call (Close wfd) (\<lambda>_. k rfd)))))))"

definition say_and_exit :: "int \<Rightarrow> prog" where
  "say_and_exit wfd = write_str wfd (lit ''From Child Pipe'') 30 (Exit 0)"

definition open_fifo_source :: "(int \<Rightarrow> prog) \<Rightarrow> prog" where
  "open_fifo_source k =
     Call (Mkfifo ''fifo'') (\<lambda>m. error_code (ret m) (line ''making fifo server'') (
     Call (Open ''fifo'' [O_RDONLY, O_NONBLOCK]) (\<lambda>f. error_code (ret f) (line ''opening file'') (k (ret f)))))"

text \<open>A ready source: read into sz bytes, print them, clear the buffer.\<close>

definition print_source :: "nat \<Rightarrow> int \<Rightarrow> string \<Rightarrow> (string \<Rightarrow> prog) \<Rightarrow> prog" where
  "print_source sz fd readbuf k =
     read_into fd readbuf (int sz) (\<lambda>b _. Out (line (c_str b)) (k (zeros sz)))"

definition sources_turn :: "nat \<Rightarrow> int list \<Rightarrow> string \<Rightarrow> (string \<Rightarrow> prog) \<Rightarrow> prog" where
  "sources_turn sz fds readbuf again =
     Call (Poll (map (\<lambda>fd. (fd, POLLRDNORM)) fds) 100) (\<lambda>a. error_code (ret a) ''poll error'' (
     for_each [0..<length fds]
       (\<lambda>i b k. if polled POLLRDNORM i a then print_source sz (fds ! i) b k else k b) readbuf again))"

definition signalFunc :: "prog \<Rightarrow> prog" where
  "signalFunc k = Out (line ''Siganl caught'') k"

definition allinone_main :: "nat \<Rightarrow> string list \<Rightarrow> prog" where
  "allinone_main n argv =
     Out (line (dec (int (length argv)))) (
     popen_fd ''./popenproc'' (\<lambda>popenfd.
     pipe_child say_and_exit (\<lambda>pfd.
     open_fifo_source (\<lambda>ffd.
     Call (Signal 10 ''signalFunc'') (\<lambda>_.
     forever n (sources_turn 100 [0, pfd, ffd, popenfd]) (zeros 100))))))"

definition fifoproc_main :: prog where
  "fifoproc_main =
     Call (Open ''fifo'' [O_WRONLY]) (\<lambda>f. error_code (ret f) (line ''cannot opne file'') (
     write_str (ret f) (lit (line ''This is from fifo'')) 30 (Call (Close (ret f)) (\<lambda>_. Exit 0))))"

definition popenproc_main :: prog where
  "popenproc_main = Out (line ''This if from popen'') (Exit 0)"

text \<open>
  The server with select puts the first argc - 1 sources into its set, the first time before the
  descriptors are known, when all are 0. The state: the greatest descriptor, the set, the buffer.
\<close>

definition sel_sources_turn :: "nat \<Rightarrow> int list \<Rightarrow> int \<times> int list \<times> string \<Rightarrow> (int \<times> int list \<times> string \<Rightarrow> prog) \<Rightarrow> prog" where
  "sel_sources_turn w fds = (\<lambda>(maxfd, readset, readbuf) again.
     Call (Select (maxfd + 1) readset) (\<lambda>a. error_code (ret a) (line ''select not working'') (
     for_each [0..<length fds]
       (\<lambda>i b k. if fds ! i \<in> set (selected readset a) then print_source 100 (fds ! i) b k else k b) readbuf
       (\<lambda>b. again (fold max (take w fds) maxfd, take w fds, b)))))"

definition sel_allinone_main :: "nat \<Rightarrow> string list \<Rightarrow> prog" where
  "sel_allinone_main n argv =
     (let w = length argv - 1 in
     Out (line (dec (int (length argv)))) (
     if 4 < w then Undef else
     popen_fd ''./popenproc'' (\<lambda>popenfd.
     pipe_child say_and_exit (\<lambda>pfd.
     open_fifo_source (\<lambda>ffd.
     Call (Signal 10 ''signalFunc'') (\<lambda>_.
     forever n (sel_sources_turn w [0, pfd, ffd, popenfd]) (0, replicate (min 1 w) 0, zeros 100)))))))"

section \<open>exam/3: a child and four programs\<close>

definition exam_child :: "int \<Rightarrow> prog" where
  "exam_child wfd =
     Call (Sleep 10) (\<lambda>_. write_str wfd (lit (line ''From process p1'')) 30 (Exit 0))"

definition exam_main :: "nat \<Rightarrow> prog" where
  "exam_main n =
     for_each [2..<6] (\<lambda>i fds k.
       put_str (zeros 15) (''./popen'' @ dec (int i)) (\<lambda>name.
       popen_fd (c_str name) (\<lambda>fd. k (fds @ [fd])))) [] (\<lambda>fds.
     pipe_child exam_child (\<lambda>pfd.
     forever n (sources_turn 30 (pfd # fds)) (zeros 30)))"

definition information_main :: "string \<Rightarrow> prog" where
  "information_main p = Call Scanf_int (\<lambda>_. Out (line (''Information from '' @ p)) (Exit 0))"

section \<open>select_servers/allinoneserver\<close>

text \<open>
  logs.fd[0], which has no initial value, stands for the keyboard: it is duplicated to descriptor
  0 and put into the set, where it must be below 1024.
\<close>

definition show_source :: "int \<Rightarrow> string \<Rightarrow> (string \<Rightarrow> prog) \<Rightarrow> prog" where
  "show_source fd buf k =
     Out ''Logged: '' (
     read_into fd buf 100 (\<lambda>buf r. if 0 < r then Out (newline # line (c_str buf)) (k buf) else k buf))"

definition one_turn :: "int list \<Rightarrow> int \<Rightarrow> string \<Rightarrow> (string \<Rightarrow> prog) \<Rightarrow> prog" where
  "one_turn fds pfd buf again =
     (let readset = fds @ [pfd] in
     Call (Select (fold max readset 0 + 1) readset) (\<lambda>a.
     if 0 < ret a then
       for_each readset (\<lambda>fd buf k. if fd \<in> set (selected readset a) then show_source fd buf k else k buf) buf again
     else again buf))"

definition sig_usr :: "int \<Rightarrow> string \<Rightarrow> prog \<Rightarrow> prog" where
  "sig_usr signo mainfifo2 k =
     (if signo = 10 then
        Out (newline # line ''received SIGUSR1'') (
        Call (Open mainfifo2 [O_RDWR]) (\<lambda>f. write_str (ret f) (lit ''got this from signal'') 21 k))
      else k)"

definition one_main :: "nat \<Rightarrow> int \<Rightarrow> string \<Rightarrow> prog" where
  "one_main n fd0 buf =
     Out (newline # ''Main Server is starting................'') (
     Call (Dup2 fd0 0) (\<lambda>_.
     open_fifo ''mainfifo'' (\<lambda>f1.
     make_fifo ''mainfifo2'' (
     open_fifo ''mainfifo2'' (\<lambda>f2.
     Call Pipe (\<lambda>p. arr_get (ints p) 0 (\<lambda>rfd. arr_get (ints p) 1 (\<lambda>wfd.
     if \<not> (0 \<le> fd0 \<and> fd0 < 1024) then Undef else
     Call Fork (\<lambda>c.
     if ret c < 0 then Out ''Error for fork'' (Exit 0)
     else if 0 < ret c then
       Out (newline # ''Client fds are created................'') (
       Out (newline # ''Server started..................'') (
       forever n (one_turn [fd0, f1, f2] rfd) buf))
     else
       write_str wfd (lit ''This is from pipe'') 18 (
       Call (Signal 10 ''sig_usr'') (\<lambda>_.
       Call (Raise 10) (\<lambda>_. sig_usr 10 ''mainfifo2'' (Exit 0)))))))))))))"

definition one_client_main :: "nat \<Rightarrow> string \<Rightarrow> prog" where
  "one_client_main n message =
     make_fifo ''mainfifo'' (
     Call (Open ''mainfifo'' [O_RDWR]) (\<lambda>f.
     Out (newline # line ''Keep typing message'') (forever n (user_write_turn (ret f)) message)))"

section \<open>select_servers/serviceserver: the client\<close>

text \<open>The variables of the two threads. The message has seven bytes, and fgets may store 100.\<close>

record svc_client =
  sc_fd :: int
  sc_writefd :: int
  sc_got :: bool
  sc_no :: int
  sc_quit :: bool

definition svc_request :: "int \<Rightarrow> (string \<Rightarrow> prog) \<Rightarrow> prog" where
  "svc_request fd k =
     Out (line ''Requesting for a server.............'') (
     Out (line ''server'') (write_str fd (lit ''server'') 7 (k (lit ''server''))))"

definition svc_write_turn :: "svc_client \<Rightarrow> string \<Rightarrow> (svc_client \<Rightarrow> prog) \<Rightarrow> (string \<Rightarrow> prog) \<Rightarrow> prog" where
  "svc_write_turn s message finish again =
     (if sc_got s then
        Out (line ''Send a message:'') (
        Call (Fgets 100) (\<lambda>l.
        (if ret l \<le> 0 then (\<lambda>k. k message) else put_str message (take 99 (dat l))) (\<lambda>message.
        Out (line (c_str message)) (
        if c_str message = line ''quit'' then
          Call (Open ''clientfifo'' [O_RDWR]) (\<lambda>f.
          write_str (ret f) (snprintf message 7 (dec (sc_no s))) 7 (finish (s\<lparr>sc_quit := True, sc_fd := ret f\<rparr>)))
        else write_str (sc_fd s) message 7 (again message)))))
      else again message)"

text \<open>The reply is the name of a pipe and a number; an answer without a number is a null pointer for %s.\<close>

definition svc_connect :: "svc_client \<Rightarrow> string \<Rightarrow> (svc_client \<Rightarrow> prog) \<Rightarrow> prog" where
  "svc_connect s buf k =
     Out (''Fifo name: '' @ c_str buf @ '' '') (
     case strtok ''|'' (c_str buf) of None \<Rightarrow> Undef
     | Some (name, rest) \<Rightarrow>
       Out (line name) (Call (Open name [O_RDWR]) (\<lambda>f.
       case strtok '','' rest of None \<Rightarrow> Undef
       | Some (num, _) \<Rightarrow>
         Out (line num) (Call (Open (take 19 (num @ ''write'')) [O_RDWR]) (\<lambda>g.
         k (s\<lparr>sc_fd := ret f, sc_no := atoi (lit num) + 1, sc_writefd := ret g, sc_got := True\<rparr>))))))"

definition svc_read_turn :: "svc_client \<Rightarrow> string \<Rightarrow> (svc_client \<Rightarrow> prog) \<Rightarrow> prog" where
  "svc_read_turn s buftemp k =
     read_into (sc_writefd s) buftemp 100 (\<lambda>buf r.
     if 0 < r then
       Out ''Server: '' (Out (line (c_str buf)) (svc_connect (s\<lparr>sc_quit := True\<rparr>) buf k))
     else if sc_quit s then svc_connect s buf k else k s)"

text \<open>The thread ends when quit is set; again is given an array without initial value.\<close>

primrec svc_reader :: "nat \<Rightarrow> string \<Rightarrow> svc_client \<Rightarrow> (svc_client \<Rightarrow> prog) \<Rightarrow> prog" where
  "svc_reader 0 junk s finish = Cut"
| "svc_reader (Suc n) junk s finish =
     (if sc_quit s then finish s else svc_read_turn s junk (\<lambda>s. svc_reader n junk s finish))"

definition svc_client_main :: prog where
  "svc_client_main =
     Call (Open ''clientfifo'' [O_RDWR]) (\<lambda>f.
     Call (Open ''clientfifowrite'' [O_RDWR]) (\<lambda>g.
     Call (Pthread_create ''thread_write'' '''') (\<lambda>_.
     Call (Pthread_create ''thread_read'' '''') (\<lambda>_.
     Call (Pthread_join ''writethread'') (\<lambda>_.
     Call (Pthread_join ''readthread'') (\<lambda>_.
     Call (Close (ret f)) (\<lambda>_. Call (Close (ret g)) (\<lambda>_. Exit 0))))))))"

section \<open>select_servers/chatserver: the client\<close>

definition talk_write_turn :: "int \<Rightarrow> string \<Rightarrow> (string \<Rightarrow> prog) \<Rightarrow> prog" where
  "talk_write_turn fd message again =
     Out ''User: '' (fgets_into message 100 (\<lambda>message. write_str fd message 100 (again message)))"

definition talk_writer :: "nat \<Rightarrow> int \<Rightarrow> string \<Rightarrow> prog" where
  "talk_writer n fd message =
     Out (newline # line ''Keep typing message'') (forever n (talk_write_turn fd) message)"

definition talk_read_turn :: "int \<Rightarrow> string \<Rightarrow> (string \<Rightarrow> prog) \<Rightarrow> prog" where
  "talk_read_turn writefd buf again =
     read_into writefd buf 100 (\<lambda>buf r. if 0 < r then Out (line (c_str buf)) (again buf) else again buf)"

definition talk_client_main :: "string list \<Rightarrow> prog" where
  "talk_client_main argv =
     (if length argv < 2 then Undef else
     make_fifo (argv ! 1) (
     let wname = take 49 (argv ! 1 @ ''write'') in
     make_fifo wname (
     Call (Open (argv ! 1) [O_RDWR]) (\<lambda>f.
     Call (Open wname [O_RDWR]) (\<lambda>g.
     Call (Pthread_create ''thread_write'' '''') (\<lambda>_.
     Call (Pthread_create ''thread_read'' '''') (\<lambda>_.
     Call (Pthread_join ''writethread'') (\<lambda>_.
     Call (Pthread_join ''readthread'') (\<lambda>_.
     Call (Close (ret f)) (\<lambda>_. Call (Close (ret g)) (\<lambda>_. Exit 0)))))))))))"

section \<open>Requests that start a service\<close>

text \<open>Decimal numbers have no separator.\<close>

lemma no_bar_digits: "list_all is_digit s \<Longrightarrow> CHR ''|'' \<notin> set s"
  by (auto simp: list_all_iff is_digit_def)

lemma dec_no_bar: "CHR ''|'' \<notin> set (dec i)"
  using no_bar_digits [OF dec_nat_digits] by (auto simp: dec_def)

lemma dec_ne: "dec i \<noteq> []"
  using dec_nat_Cons by (auto simp: dec_def) (metis list.distinct(1))

lemma strtok_word:
  assumes "w \<noteq> []" "c \<notin> set w"
  shows "strtok [c] (w @ c # r) = Some (w, r)" "strtok [c] w = Some (w, [])"
proof -
  have "dropWhile (\<lambda>d. d \<in> set [c]) (w @ s) = w @ s" for s
    using assms by (cases w) auto
  moreover have "takeWhile (\<lambda>d. d \<notin> set [c]) (w @ c # r) = w" "dropWhile (\<lambda>d. d \<notin> set [c]) (w @ c # r) = c # r"
    "takeWhile (\<lambda>d. d \<notin> set [c]) w = w" "dropWhile (\<lambda>d. d \<notin> set [c]) w = []"
    using assms(2) by (auto simp: takeWhile_append dropWhile_append)
  ultimately show "strtok [c] (w @ c # r) = Some (w, r)" "strtok [c] w = Some (w, [])"
    using assms(1) dropWhile_eq_Nil_conv unfolding strtok_def Let_def
    by (metis append_is_Nil_conv drop0 drop_Suc_Cons One_nat_def, metis append_Nil2 drop_Nil)
qed

lemma tokens_dec: "tokens ''|'' (dec a @ ''|'' @ dec b) = [dec a, dec b]"
  using strtok_word [OF dec_ne dec_no_bar, of a] strtok_word [OF dec_ne dec_no_bar, of b]
  by (simp add: tokens.simps) (simp add: tokens.simps strtok_def)

lemma c_str_message:
  assumes "no_nul m" "length m < n"
  shows "c_str (overwrite (zeros n) m) = m"
proof -
  obtain k where "n - length m = Suc k" using assms(2) by (cases "n - length m") auto
  then have "overwrite (zeros n) m = lit m @ zeros k"
    by (simp add: overwrite_def zeros_def lit_def)
  then show ?thesis by (simp add: c_str_lit_append assms(1))
qed

text \<open>
  C29. A client of multiserver that asks for s2|a|b gets a + b: the child that the
  server forks for the request executes s1 with the arguments s2, a and b in decimal, and s1 with
  these arguments writes the sum of a and b, when it is an int, to the client's pipe.
\<close>

theorem request_adds:
  assumes "int32 a" and "int32 b" and "int32 (a + b)" and "0 \<le> ofd" and "length buf = 30"
  shows "final_of (dispatch_turn fd (zeros 100) again)
      [gets_ints 1 [64], gives (''s2|'' @ dec a @ ''|'' @ dec b), rets 0] =
      Waiting (Execve ''s1'' [''s2'', dec a, dec b]) \<and>
    map atoi (sent ofd (calls (trace (sum_main [''s2'', dec a, dec b] buf) [rets ofd, rets 30, rets 0]))) = [a + b]"
proof
  let ?m = "''s2|'' @ dec a @ ''|'' @ dec b"
  have l: "length (dec a) < 12" "length (dec b) < 12" "length (dec (a + b)) < 12"
    using assms(1-3) by (simp_all add: length_dec_int32)
  have "no_nul ?m" using no_nul_dec [of a] no_nul_dec [of b] by (simp add: no_nul_def)
  then have c: "c_str (overwrite (zeros 100) ?m) = ?m" using l by (intro c_str_message) simp_all
  have s: "strtok ''|'' ?m = Some (''s2'', dec a @ ''|'' @ dec b)"
    using strtok_word(1) [of "''s2''" "CHR ''|''" "dec a @ ''|'' @ dec b"] by simp
  have p: "polled POLLRDNORM 0 (gets_ints 1 [64])" by code_simp
  have g: "got 100 (gives ?m) = ?m" using l by simp
  show "final_of (dispatch_turn fd (zeros 100) again) [gets_ints 1 [64], gives ?m, rets 0] =
      Waiting (Execve ''s1'' [''s2'', dec a, dec b])"
    using l p by (simp add: dispatch_turn_def length_zeros g c s tokens_dec exec_request_def del: append.simps)
  have "atoi (lit (dec i)) = i" for i using atoi_dec [of i "[]"] by simp
  then show "map atoi (sent ofd (calls (trace (sum_main [''s2'', dec a, dec b] buf) [rets ofd, rets 30, rets 0]))) = [a + b]"
    using l assms by (simp add: sum_main_def Let_def atoi_sent_int)
qed

theorem request_adds_witness:
  "final_of (dispatch_turn 3 (zeros 100) (\<lambda>_. Cut)) [gets_ints 1 [64], gives (''s2|'' @ dec 4 @ ''|'' @ dec (- 7)), rets 0] =
      Waiting (Execve ''s1'' [''s2'', dec 4, dec (- 7)]) \<and>
    map atoi (sent 5 (calls (trace (sum_main [''s2'', dec 4, dec (- 7)] (zeros 30)) [rets 5, rets 30, rets 0]))) = [4 + - 7]"
  by (rule request_adds) (simp_all add: int32_def length_zeros)

section \<open>Sources that are never read\<close>

definition reads_only :: "int set \<Rightarrow> call \<Rightarrow> bool" where
  "reads_only S c = (case c of Read fd k \<Rightarrow> fd \<in> S | _ \<Rightarrow> True)"

lemma reads_only_simps [simp]:
  "reads_only S (Read fd k) = (fd \<in> S)" "reads_only S (Select m ds)" "reads_only S (Popen f)"
  "reads_only S Pipe" "reads_only S Fork" "reads_only S (Close fd)" "reads_only S (Write fd d k)"
  "reads_only S (Mkfifo f)" "reads_only S (Open f fl)" "reads_only S (Signal g h)"
  by (simp_all add: reads_only_def)

lemma sel_sources_reads:
  assumes "set readset \<subseteq> set (take w fds)" "length buf = 100"
  shows "always (reads_only (set (take w fds))) (forever n (sel_sources_turn w fds) (maxfd, readset, buf))"
proof (rule always_forever [where I = "\<lambda>(maxfd, readset, buf). set readset \<subseteq> set (take w fds) \<and> length buf = 100"])
  let ?S = "set (take w fds)"
  have body: "always (reads_only ?S) (if fds ! i \<in> set (selected rs a) then print_source 100 (fds ! i) b k else k b)"
    if "set rs \<subseteq> ?S" "length b = 100" "\<And>b'. length b' = 100 \<Longrightarrow> always (reads_only ?S) (k b')" for rs i a b k
    using that by (auto simp: print_source_def selected_def length_zeros intro!: always_recv(2) split: if_splits)
  fix s :: "int \<times> int list \<times> string" and k' :: "int \<times> int list \<times> string \<Rightarrow> prog"
  assume s: "case s of (maxfd, readset, buf) \<Rightarrow> set readset \<subseteq> ?S \<and> length buf = 100"
    and k': "\<And>s'. (case s' of (maxfd, readset, buf) \<Rightarrow> set readset \<subseteq> ?S \<and> length buf = 100) \<Longrightarrow> always (reads_only ?S) (k' s')"
  obtain mx rs b where p: "s = (mx, rs, b)" by (cases s)
  have "always (reads_only ?S) (for_each [0..<length fds]
      (\<lambda>i b k. if fds ! i \<in> set (selected rs a) then print_source 100 (fds ! i) b k else k b) b
      (\<lambda>b. k' (fold max (take w fds) mx, take w fds, b)))" for a
    using s p by (intro always_for_each [where I = "\<lambda>b. length b = 100"] body k') auto
  then show "always (reads_only ?S) (sel_sources_turn w fds s k')"
    by (simp add: sel_sources_turn_def p error_code_def)
qed (use assms in simp)

text \<open>
  selectservers/allinone puts as many sources into its set as it has
  arguments, in the order keyboard, pipe, fifo, program: whatever the kernel answers, no run of
  the server without arguments reads anything, and the loop of a server with w arguments reads
  the first w sources only.
\<close>

theorem sel_allinone_deaf:
  assumes "1 \<le> w" and "length buf = 100"
  shows "list_all (reads_only {}) (calls (trace (sel_allinone_main n [name]) as)) \<and>
    list_all (reads_only (set (take w [0, pfd, ffd, popenfd])))
      (calls (trace (forever n (sel_sources_turn w [0, pfd, ffd, popenfd]) (0, [0], buf)) as))"
proof
  have "always (reads_only {}) (forever n (sel_sources_turn 0 fds) (0, [], zeros 100))" for fds
    using sel_sources_reads [of "[]" 0 fds "zeros 100" n 0] by (simp add: length_zeros)
  then have "always (reads_only {}) (sel_allinone_main n [name])"
    by (simp add: sel_allinone_main_def popen_fd_def pipe_child_def say_and_exit_def open_fifo_source_def error_code_def)
  then show "list_all (reads_only {}) (calls (trace (sel_allinone_main n [name]) as))"
    by (rule always_trace)
  have "set [0] \<subseteq> set (take w [0, pfd, ffd, popenfd])" using assms(1) by (cases w) auto
  from always_trace [OF sel_sources_reads [OF this assms(2)]]
  show "list_all (reads_only (set (take w [0, pfd, ffd, popenfd])))
      (calls (trace (forever n (sel_sources_turn w [0, pfd, ffd, popenfd]) (0, [0], buf)) as))" .
qed

theorem sel_allinone_deaf_witness:
  "list_all (reads_only (set (take 2 [0, 4, 6, 3])))
      (calls (trace (forever 1 (sel_sources_turn 2 [0, 4, 6, 3]) (0, [0], zeros 100)) [gets_ints 1 [0], gives ''hi'']))"
  by (rule sel_allinone_deaf [THEN conjunct2]) (simp_all add: length_zeros)

end
