(* ===== verification/CN_Super.thy ===== *)
theory CN_Super imports CN_Sockets begin

text \<open>
  Super-servers: a server that accepts connections and forks a child that becomes a service on
  the connection, with its standard input and output (mid/superserver, mid/inetd, end/dupserver,
  end/selectserver, sockets1/concurrentserver); and end/conserver and end/sockets/server.c, which
  serve their clients themselves with poll. Which descriptors a server still holds is told by the
  monitor of descriptors.
\<close>

section \<open>Becoming a service\<close>

text \<open>execve with a null argument list; where it fails the child goes on as k.\<close>

definition become :: "string \<Rightarrow> int \<Rightarrow> prog \<Rightarrow> prog" where
  "become name nfd k =
     Call (Dup2 nfd 0) (\<lambda>_. Call (Dup2 nfd 1) (\<lambda>_. Call (Execve name []) (\<lambda>_. k)))"

section \<open>mid/superserver\<close>

definition super_turn :: "int \<Rightarrow> unit \<Rightarrow> (unit \<Rightarrow> prog) \<Rightarrow> prog" where
  "super_turn sfd u again =
     Out (line ''camehere'') (
     Call (Select (sfd + 1) [sfd]) (\<lambda>a.
     Out (line ''camehere1'') (
     if sfd \<in> set (selected [sfd] a) then
       Out (line ''camehere2'') (
       Call (Accept sfd) (\<lambda>n.
       Call Fork (\<lambda>c.
       if ret c = 0 then
         Out (line ''from childprocess'') (Call (Close sfd) (\<lambda>_. become ''server1'' (ret n) (again ())))
       else Call Wait (\<lambda>_. Call (Close (ret n)) (\<lambda>_. again ())))))
     else again ())))"

definition super_main :: "nat \<Rightarrow> prog" where
  "super_main n =
     Call (Socket AF_INET SOCK_STREAM 0) (\<lambda>s.
     Call (Bind (ret s) (any_addr 8002)) (\<lambda>_.
     Call (Listen (ret s) 3) (\<lambda>_. forever n (super_turn (ret s)) ())))"

definition super_service_main :: "string \<Rightarrow> prog" where
  "super_service_main buffer =
     Out (line ''server1 got forked'') (
     recv_into 0 buffer 30 (\<lambda>buffer _.
     Out (line (c_str buffer)) (send_str 1 (lit ''from server1 to client'') 60 (Exit 0))))"

definition super_client_main :: "string \<Rightarrow> prog" where
  "super_client_main buffer =
     Call (Socket AF_INET SOCK_STREAM 0) (\<lambda>s.
     Call (Connect (ret s) (any_addr 8002)) (\<lambda>_.
     send_str (ret s) (lit ''from client to server'') 30 (
     recv_into (ret s) buffer 60 (\<lambda>buffer _. Out (line (c_str buffer)) (Exit 0)))))"

section \<open>mid/inetd\<close>

text \<open>The child's loop uses the variable of the loop around it, so that it leaves that loop.\<close>

definition inetd_turn :: "int list \<Rightarrow> unit \<Rightarrow> (unit \<Rightarrow> prog) \<Rightarrow> prog" where
  "inetd_turn sfds u again =
     Call (Select 1024 sfds) (\<lambda>a.
     for_each [0..<3] (\<lambda>i _ k.
       arr_get sfds (int i) (\<lambda>sfd.
       if sfd \<in> set (selected sfds a) then
         Call (Accept sfd) (\<lambda>n.
         put_str (zeros 30) (''server'' @ dec (int i + 1)) (\<lambda>name.
         Out (line (''servnamebuffer '' @ c_str name)) (
         Call Fork (\<lambda>c.
         if ret c = 0 then
           Out (line ''child process entered'') (
           for_each sfds (\<lambda>sfd _ k. Call (Close sfd) (\<lambda>_. k ())) ()
             (\<lambda>_. become (c_str name) (ret n) (again ())))
         else Call (Close (ret n)) (\<lambda>_. k ())))))
       else k ())) () again)"

definition inetd_main :: "nat \<Rightarrow> prog" where
  "inetd_main n =
     for_each [0..<3] (\<lambda>i sfds k.
       Call (Socket AF_INET SOCK_STREAM 0) (\<lambda>s.
       Call (Setsockopt (ret s) SO_REUSEADDR) (\<lambda>r.
       (if ret r < 0 then Out (line (line ''sock'')) else (\<lambda>p. p)) (
       Call (Bind (ret s) (any_addr (8000 + int i))) (\<lambda>_.
       Call (Listen (ret s) 3) (\<lambda>_. k (sfds @ [ret s])))))))
     [] (\<lambda>sfds. forever n (inetd_turn sfds) ())"

text \<open>The services; server1 uses an unbounded scanf of a word.\<close>

definition inetd_server1_turn :: "string \<Rightarrow> (string \<Rightarrow> prog) \<Rightarrow> prog" where
  "inetd_server1_turn buffer again =
     Call Scanf_str (\<lambda>a.
     (if ret a = 1 then put_str buffer (dat a) else (\<lambda>k. k buffer)) (\<lambda>buffer.
     Out (line (c_str buffer)) (write_str 1 (lit ''from server1 to client'') 30 (again buffer))))"

definition inetd_server1_main :: "nat \<Rightarrow> string \<Rightarrow> prog" where
  "inetd_server1_main n buffer = forever n inetd_server1_turn buffer"

definition inetd_service_turn :: "string \<Rightarrow> string \<Rightarrow> (string \<Rightarrow> prog) \<Rightarrow> prog" where
  "inetd_service_turn name buffer again =
     Call (Sleep 3) (\<lambda>_.
     Call (Fgets 30) (\<lambda>l.
     let buffer = (if ret l \<le> 0 then buffer else overwrite buffer (lit (take 29 (dat l)))) in
     Out (line (c_str buffer)) (
     write_str 1 (lit (''from '' @ name @ '' to client'')) 30 (again buffer))))"

definition inetd_service_main :: "string \<Rightarrow> nat \<Rightarrow> string \<Rightarrow> prog" where
  "inetd_service_main name n buffer =
     Out (line (name @ '' got forked'')) (forever n (inetd_service_turn name) buffer)"

definition inetd_client_main :: "nat \<Rightarrow> string list \<Rightarrow> string \<Rightarrow> prog" where
  "inetd_client_main n argv buffer =
     (if length argv < 2 then Undef else
     Call (Socket AF_INET SOCK_STREAM 0) (\<lambda>s.
     Call (Connect (ret s) (any_addr (atoi (lit (argv ! 1))))) (\<lambda>_.
     forever n (\<lambda>buffer again.
       write_str (ret s) (lit ''from client to server'') 30 (
       read_into (ret s) buffer 30 (\<lambda>buffer _.
       Out ''client:'' (Out (line (c_str buffer)) (again buffer))))) buffer)))"

section \<open>end/dupserver\<close>

definition dup_turn :: "int \<Rightarrow> unit \<Rightarrow> (unit \<Rightarrow> prog) \<Rightarrow> prog" where
  "dup_turn sfd u again =
     Call (Accept sfd) (\<lambda>n. Call Fork (\<lambda>f.
     if ret f = 0 then become ''server1'' (ret n) (again ()) else again ()))"

definition dup_listen :: "(int \<Rightarrow> prog) \<Rightarrow> prog" where
  "dup_listen k =
     noted (Socket AF_INET SOCK_STREAM 0) ''socket'' (\<lambda>sfd.
     Call (Setsockopt sfd SO_REUSEADDR) (\<lambda>r.
     (if ret r < 0 then Out (line (line ''sock'')) else (\<lambda>p. p)) (
     noted (Bind sfd (any_addr 8000)) ''bind'' (\<lambda>_.
     noted (Listen sfd 4) ''listen'' (\<lambda>_. k sfd)))))"

definition dup_main :: "nat \<Rightarrow> prog" where
  "dup_main n = dup_listen (\<lambda>sfd. forever n (dup_turn sfd) ())"

definition dup_service_main :: "string \<Rightarrow> prog" where
  "dup_service_main buffer =
     Call (Sleep 2) (\<lambda>_.
     Out (line ''came here'') (
     Call Scanf_str (\<lambda>a.
     (if ret a = 1 then put_str buffer (dat a) else (\<lambda>k. k buffer)) (\<lambda>buffer.
     Out (line (c_str buffer)) (Out (line ''hai from server1'') (Exit 0))))))"

definition dup_client_main :: "string \<Rightarrow> prog" where
  "dup_client_main buffer =
     noted (Socket AF_INET SOCK_STREAM 0) ''socket'' (\<lambda>nfd.
     noted (Connect nfd (any_addr 8000)) ''accept'' (\<lambda>_.
     send_str nfd (lit ''iahfrom client'') 30 (
     recv_into nfd buffer 30 (\<lambda>buffer _. Out (line (c_str buffer)) (Exit 0)))))"

section \<open>end/selectserver\<close>

text \<open>rep puts all descriptors into the set before every select; max_fd starts at 0.\<close>

definition sel_server_turn :: "int list \<Rightarrow> unit \<Rightarrow> (unit \<Rightarrow> prog) \<Rightarrow> prog" where
  "sel_server_turn fds u again =
     Call (Select (fold max fds 0 + 1) fds) (\<lambda>a. error_perror (ret a) ''select'' (
     for_each fds (\<lambda>fd _ k.
       if fd \<in> set (selected fds a) then
         noted (Accept fd) ''accpet'' (\<lambda>nfd.
         Call Fork (\<lambda>f. if ret f = 0 then become ''server1'' nfd (k ()) else k ()))
       else k ()) () again))"

definition sel_server_main :: "nat \<Rightarrow> prog" where
  "sel_server_main n =
     Call (Signal 10 ''handler_func'') (\<lambda>_.
     Call Getpid (\<lambda>p. Out (line (dec (ret p))) (
     for_each [0..<3] (\<lambda>i fds k.
       noted (Socket AF_INET SOCK_STREAM 0) ''socket'' (\<lambda>fd.
       noted (Bind fd (any_addr (8000 + int i))) ''bind'' (\<lambda>_.
       noted (Listen fd 4) ''listen'' (\<lambda>_. k (fds @ [fd])))))
     [] (\<lambda>fds. forever n (sel_server_turn fds) ()))))"

definition sel_client_main :: "string \<Rightarrow> prog" where
  "sel_client_main buffer =
     noted (Socket AF_INET SOCK_STREAM 0) ''socket'' (\<lambda>nfd.
     noted (Connect nfd (any_addr 8000)) ''accept'' (\<lambda>_.
     send_str nfd (lit ''hai from client'') 30 (
     recv_into nfd buffer 30 (\<lambda>buffer _. Out (line (c_str buffer)) (Exit 0)))))"

section \<open>sockets1/concurrentserver\<close>

text \<open>error prints and ends the program; the request is read behind what the buffer held.\<close>

definition conc_choice :: "string \<Rightarrow> (string \<Rightarrow> string \<Rightarrow> string \<Rightarrow> prog) \<Rightarrow> prog" where
  "conc_choice request k =
     (if request = line ''1'' then Out (line ''Service 1 selected'') (k ''./lower'' ''./s1'' ''Exceing lower'')
      else if request = line ''2'' then Out (line ''Service 2 selected'') (k ''./upper'' ''./s2'' ''Exceing lower'')
      else Out (line ''Invalid choice'') (Exit 0))"

definition conc_turn :: "int \<Rightarrow> string \<Rightarrow> (string \<Rightarrow> prog) \<Rightarrow> prog" where
  "conc_turn sfd buffer again =
     Call (Accept sfd) (\<lambda>n. let nsfd = ret n in
     read_into nsfd buffer 100 (\<lambda>buffer _.
     conc_choice (c_str buffer) (\<lambda>program arg0 message.
     Call Fork (\<lambda>p.
     if ret p = 0 then
       Call (Close sfd) (\<lambda>_.
       Call (Dup2 nsfd 0) (\<lambda>_. Call (Dup2 nsfd 1) (\<lambda>_.
       Call (Close nsfd) (\<lambda>_.
       Out (line message) (
       Call (Execve program [arg0]) (\<lambda>_. Out (line ''Failed'') (again (zeros 250))))))))
     else if 0 < ret p then Call (Close nsfd) (\<lambda>_. again buffer)
     else again buffer))))"

definition conc_main :: "nat \<Rightarrow> string list \<Rightarrow> prog" where
  "conc_main n argv =
     (if length argv < 2 then Undef else
     Call (Socket AF_INET SOCK_STREAM 0) (\<lambda>s.
     if ret s < 0 then Perror ''Socket not initilizated'' (Exit 1) else
     Call (Bind (ret s) (any_addr (atoi (lit (argv ! 1))))) (\<lambda>b.
     if ret b < 0 then Perror ''Error on binding: '' (Exit 1) else
     Call (Listen (ret s) 5) (\<lambda>_. forever n (conc_turn (ret s)) (zeros 250)))))"

definition conc_service_main :: "nat \<Rightarrow> string \<Rightarrow> prog" where
  "conc_service_main n reply =
     forever n (\<lambda>_ again.
       Call Scanf_str (\<lambda>a.
       (if ret a = 1 then put_str (zeros 100) (dat a) else (\<lambda>k. k (zeros 100))) (\<lambda>_.
       Out (line reply) (again ())))) ()"

section \<open>end/conserver and end/sockets: polling for clients\<close>

text \<open>
  The test is of fd against revents, instead of events; the entries behind the listening socket
  have no initial value, and are waited for nevertheless. The state: the table and client_count.
\<close>

definition con_ready :: "(int \<times> int) list \<Rightarrow> nat \<Rightarrow> ans \<Rightarrow> bool" where
  "con_ready fdp i a = (fst (fdp ! i) AND revent i a \<noteq> 0)"

definition con_accept :: "int \<Rightarrow> int \<Rightarrow> (int \<times> int) list \<times> int \<Rightarrow> (int \<Rightarrow> prog \<Rightarrow> prog) \<Rightarrow>
    ((int \<times> int) list \<times> int \<Rightarrow> prog) \<Rightarrow> prog" where
  "con_accept sfd events = (\<lambda>(fdp, client_count) check k.
     Call (Accept sfd) (\<lambda>n. check (ret n) (
     arr_set fdp client_count (ret n, events) (\<lambda>fdp. k (fdp, client_count + 1)))))"

definition con_serve :: "string \<Rightarrow> int \<Rightarrow> (unit \<Rightarrow> prog) \<Rightarrow> prog" where
  "con_serve buffer fd k =
     Out (line ''me reached main'') (
     recv_into fd buffer 30 (\<lambda>buffer _.
     Out (line (c_str buffer)) (send_str fd (lit ''hai from server'') 30 (k ()))))"

definition con_turn :: "string \<Rightarrow> int \<Rightarrow> (int \<times> int) list \<times> int \<Rightarrow> ((int \<times> int) list \<times> int \<Rightarrow> prog) \<Rightarrow> prog" where
  "con_turn buffer sfd = (\<lambda>(fdp, client_count) again.
     Call (Poll fdp 100) (\<lambda>a. error_perror (ret a) ''poll'' (
     Out (line ''reached mid poll'') (
     Call (Sleep 2) (\<lambda>_.
     if con_ready fdp 0 a then
       Out (line ''reached'') (con_accept sfd 1 (fdp, client_count) (\<lambda>_ p. p) again)
     else
       Out (line ''me reached'') (
       for_each [1..<nat client_count] (\<lambda>i _ k.
         if con_ready fdp i a then con_serve buffer (fst (fdp ! i)) k else k ()) ()
         (\<lambda>_. again (fdp, client_count))))))))"

definition con_main :: "nat \<Rightarrow> string \<Rightarrow> (int \<times> int) list \<Rightarrow> prog" where
  "con_main n buffer junk =
     dup_listen (\<lambda>sfd.
     Out (line ''reached before poll'') (
     forever n (con_turn buffer sfd) (junk[0 := (sfd, 1)], 1)))"

definition con_client_main :: "nat \<Rightarrow> string \<Rightarrow> prog" where
  "con_client_main n buffer =
     noted (Socket AF_INET SOCK_STREAM 0) ''socket'' (\<lambda>nfd.
     noted (Connect nfd (any_addr 8000)) ''accept'' (\<lambda>_.
     forever n (\<lambda>buffer again.
       send_str nfd (lit ''hai from client'') 30 (
       recv_into nfd buffer 30 (\<lambda>buffer _. Out (line (c_str buffer)) (again buffer)))) buffer))"

text \<open>end/sockets/server.c only accepts; its thread function is not used.\<close>

definition hold_turn :: "int \<Rightarrow> (int \<times> int) list \<times> int \<Rightarrow> ((int \<times> int) list \<times> int \<Rightarrow> prog) \<Rightarrow> prog" where
  "hold_turn sfd = (\<lambda>(fdp, client_count) again.
     Call (Poll fdp 0) (\<lambda>a. error_perror (ret a) ''poll'' (
     if con_ready fdp 0 a then
       con_accept sfd POLLRDNORM (fdp, client_count) (\<lambda>v. error_perror v ''accept'') again
     else again (fdp, client_count))))"

definition hold_main :: "nat \<Rightarrow> (int \<times> int) list \<Rightarrow> prog" where
  "hold_main n junk =
     noted (Socket AF_INET SOCK_STREAM 0) ''socket'' (\<lambda>sfd.
     noted (Setsockopt sfd SO_REUSEADDR) ''calling sockpot'' (\<lambda>_.
     noted (Bind sfd (any_addr 8000)) ''bind'' (\<lambda>_.
     noted (Listen sfd 5) ''listen'' (\<lambda>_.
     forever n (hold_turn sfd) (junk[0 := (sfd, POLLRDNORM)], 1)))))"

section \<open>Which descriptors the servers hold\<close>

text \<open>The descriptors held after a run, from those held before it.\<close>

fun held :: "int set \<Rightarrow> obs list \<Rightarrow> int set" where
  "held S [] = S"
| "held S (Did c a # t) = held (fd_upd S c a) t"
| "held S (Printed s # t) = held S t"

lemma super_turn_held:
  assumes "fd \<notin> S" "0 \<le> fd" "sfd \<in> S"
  shows "held S (trace (super_turn sfd u again) ([gets_ints 1 [sfd], rets fd, rets 77, rets 77, rets 0] @ as)) =
    held S (trace (again ()) as)"
  using assms by (simp add: super_turn_def selected_def)

lemma dup_turn_held:
  "0 \<le> fd \<Longrightarrow> held S (trace (dup_turn sfd u again) ([rets fd, rets 77] @ as)) =
    held (insert fd S) (trace (again ()) as)"
  by (simp add: dup_turn_def)

text \<open>
  C19. The parents of two super-servers after the clients fds, where every fork
  succeeds: that of mid/superserver holds what it held before, since it closes each connection
  that it has handed to a child, while that of end/dupserver holds every connection it ever
  accepted.
\<close>

theorem superservers_hold:
  assumes "sfd \<in> S" and "\<forall>fd \<in> set fds. 0 \<le> fd \<and> fd \<notin> S"
  shows "held S (trace (forever (length fds) (super_turn sfd) ())
      (concat (map (\<lambda>fd. [gets_ints 1 [sfd], rets fd, rets 77, rets 77, rets 0]) fds))) = S \<and>
    held S (trace (forever (length fds) (dup_turn sfd) ()) (concat (map (\<lambda>fd. [rets fd, rets 77]) fds))) =
      S \<union> set fds"
proof
  show "held S (trace (forever (length fds) (super_turn sfd) ())
      (concat (map (\<lambda>fd. [gets_ints 1 [sfd], rets fd, rets 77, rets 77, rets 0]) fds))) = S"
    using assms
  proof (induction fds)
    case (Cons fd fds)
    then show ?case
      using super_turn_held [of fd S sfd "()" "forever (length fds) (super_turn sfd)"] by simp
  qed simp
  have "held S (trace (forever (length fds) (dup_turn sfd) ()) (concat (map (\<lambda>fd. [rets fd, rets 77]) fds))) =
      S \<union> set fds" if "\<forall>fd \<in> set fds. 0 \<le> fd" for S
    using that
  proof (induction fds arbitrary: S)
    case (Cons fd fds)
    then show ?case
      using dup_turn_held [of fd S sfd "()" "forever (length fds) (dup_turn sfd)"] by simp
  qed simp
  with assms(2) show "held S (trace (forever (length fds) (dup_turn sfd) ())
      (concat (map (\<lambda>fd. [rets fd, rets 77]) fds))) = S \<union> set fds" by blast
qed

theorem superservers_hold_witness:
  "held {0, 1, 2, 3} (trace (forever (length [4, 5 :: int]) (dup_turn 3) ())
      (concat (map (\<lambda>fd. [rets fd, rets 77]) [4, 5]))) = {0, 1, 2, 3} \<union> set [4, 5]"
  by (rule superservers_hold [THEN conjunct2]) simp_all

section \<open>A server that is deaf on even descriptors\<close>

lemma and_one_even: "even (fd :: int) \<Longrightarrow> fd AND 1 = 0"
  by (simp add: and_one_eq even_iff_mod_2_eq_zero)

lemma con_not_ready:
  assumes "even (fst (fdp ! i))" "revent i a = 0 \<or> revent i a = 1"
  shows "\<not> con_ready fdp i a"
  using assms(2) and_one_even [OF assms(1)] unfolding con_ready_def by (elim disjE) simp_all

text \<open>
  end/conserver tests the descriptor against the events that happened:
  when its socket has an even descriptor and poll reports POLLIN, 1, or nothing for it, however
  often, the server never accepts a client, and it only polls and sleeps.
\<close>

theorem conserver_needs_odd:
  assumes "even sfd" and "fst (fdp ! 0) = sfd" and "\<forall>p \<in> set ps. revent 0 p = 0 \<or> revent 0 p = 1"
  shows "calls (trace (forever (length ps) (con_turn buffer sfd) (fdp, 1)) (concat (map (\<lambda>p. [p, rets 0]) ps))) =
    concat (map (\<lambda>p. [Poll fdp 100, Sleep 2]) ps)"
  using assms(3)
proof (induction ps)
  case (Cons p ps)
  have "\<not> con_ready fdp 0 p" using Cons.prems assms(1,2) by (intro con_not_ready) simp_all
  then show ?case using Cons by (simp add: con_turn_def error_perror_def)
qed simp

theorem conserver_needs_odd_witness:
  "calls (trace (forever (length [gets_ints 1 [1]]) (con_turn (zeros 30) 4) ([(4, 1), (0, 0)], 1))
      (concat (map (\<lambda>p. [p, rets 0]) [gets_ints 1 [1]]))) =
    concat (map (\<lambda>p. [Poll [(4, 1), (0, 0)] 100, Sleep 2]) [gets_ints 1 [1]])"
  by (rule conserver_needs_odd) (simp_all add: revent_def)

end
