(* ===== verification/CN_Ftp.thy ===== *)
theory CN_Ftp imports CN_Pipes begin

text \<open>
  Clients and servers that exchange texts: ftp/active and ftp/passive with end/sockets/client.c,
  where a server sends the words of a file, run against a model of the C library's file; and the
  UDP programs of mid/udp and end/udp.
\<close>

section \<open>ftp: a server that sends the words of a file\<close>

text \<open>
  The loop of both servers: until the end of the file has been seen, read a word into 255 bytes,
  without a limit, and send the whole buffer. fopen that fails gives feof a null pointer.
\<close>

definition word_turn :: "int \<Rightarrow> int \<Rightarrow> string \<Rightarrow> (string \<Rightarrow> prog) \<Rightarrow> prog" where
  "word_turn fp fd buf again =
     Call (Feof fp) (\<lambda>e.
     if ret e \<noteq> 0 then Exit 0
     else Call (Fscanf fp) (\<lambda>a.
       (if ret a = 1 then put_str buf (dat a) else (\<lambda>k. k buf)) (\<lambda>buf.
       Call (Sleep 1) (\<lambda>_. send_str fd buf 255 (again buf)))))"

definition send_words :: "nat \<Rightarrow> string \<Rightarrow> string \<Rightarrow> int \<Rightarrow> prog" where
  "send_words n name buf fd =
     Call (Fopen name) (\<lambda>f. if ret f = 0 then Undef else forever n (word_turn (ret f) fd) buf)"

definition ftp_listen :: "int \<Rightarrow> (int \<Rightarrow> prog) \<Rightarrow> prog" where
  "ftp_listen p k =
     noted (Socket AF_INET SOCK_STREAM 0) ''socket'' (\<lambda>sfd.
     noted (Setsockopt sfd SO_REUSEADDR) ''calling sockpot'' (\<lambda>_.
     noted (Bind sfd (any_addr p)) ''bind'' (\<lambda>_.
     noted (Listen sfd 5) ''listen'' (\<lambda>_. k sfd))))"

definition active_server_main :: "nat \<Rightarrow> string \<Rightarrow> string \<Rightarrow> prog" where
  "active_server_main n buffer buf =
     ftp_listen 8000 (\<lambda>sfd.
     noted (Accept sfd) ''accept'' (\<lambda>nfd.
     recv_into nfd buffer 30 (\<lambda>buffer _. let p = atoi buffer in
     Out (line (''PORT:'' @ dec p)) (
     recv_into nfd buffer 30 (\<lambda>buffer _.
     Out (line (''File Name:'' @ c_str buffer)) (
     Call (Close nfd) (\<lambda>_.
     Call (Socket AF_INET SOCK_STREAM 0) (\<lambda>s.
     noted (Connect (ret s) (any_addr p)) ''connect'' (\<lambda>_.
     send_words n (c_str buffer) buf (ret s))))))))))"

text \<open>The second listening socket is not checked, and its option is set on any result.\<close>

definition passive_server_main :: "nat \<Rightarrow> string \<Rightarrow> string \<Rightarrow> prog" where
  "passive_server_main n buffer buf =
     ftp_listen 8000 (\<lambda>sfd.
     noted (Accept sfd) ''accept'' (\<lambda>nfd.
     send_int nfd buffer 8050 30 (\<lambda>buffer.
     recv_into nfd buffer 30 (\<lambda>buffer _.
     Out (line (''File Name:'' @ c_str buffer)) (
     Call (Close nfd) (\<lambda>_. Call (Close sfd) (\<lambda>_.
     Call (Socket AF_INET SOCK_STREAM 0) (\<lambda>s. let newsfd = ret s in
     noted (Setsockopt newsfd SO_REUSEADDR) ''calling sockpot'' (\<lambda>_.
     noted (Bind newsfd (any_addr 8050)) ''bind'' (\<lambda>_.
     noted (Listen newsfd 5) ''listen'' (\<lambda>_.
     noted (Accept newsfd) ''accept'' (\<lambda>newnfd.
     send_words n (c_str buffer) buf newnfd))))))))))))"

definition ftp_thread :: "nat \<Rightarrow> int \<Rightarrow> string \<Rightarrow> prog" where
  "ftp_thread n nfd buffer =
     Out (line ''created'') (
     forever n (\<lambda>buffer again.
       recv_into nfd buffer 30 (\<lambda>buffer _.
       Out (line (c_str buffer)) (
       Call (Sleep 2) (\<lambda>_. send_str nfd (lit ''hello from server'') 30 (again buffer))))) buffer)"

text \<open>The clients print what arrives. In end/sockets/client.c the second port lacks htons.\<close>

definition show_words :: "nat \<Rightarrow> int \<Rightarrow> string \<Rightarrow> prog" where
  "show_words n nfd buf =
     forever n (\<lambda>buf again. recv_into nfd buf 255 (\<lambda>buf _. Out (line (c_str buf)) (again buf))) buf"

definition ftp_connect :: "int \<Rightarrow> (int \<Rightarrow> prog) \<Rightarrow> prog" where
  "ftp_connect p k =
     Call (Socket AF_INET SOCK_STREAM 0) (\<lambda>s.
     noted (Connect (ret s) (any_addr p)) ''connect'' (\<lambda>_. k (ret s)))"

definition send_port_and_name :: "int \<Rightarrow> string \<Rightarrow> string \<Rightarrow> (string \<Rightarrow> prog) \<Rightarrow> prog" where
  "send_port_and_name nfd namebuf buffer k =
     send_int nfd namebuf 8040 30 (\<lambda>_.
     put_str buffer ''sample.txt'' (\<lambda>buffer. send_str nfd buffer 30 (k buffer)))"

definition accept_data :: "addr \<Rightarrow> (int \<Rightarrow> prog) \<Rightarrow> prog" where
  "accept_data addr k =
     Call (Socket AF_INET SOCK_STREAM 0) (\<lambda>s. let newsfd = ret s in
     error_perror newsfd ''socket'' (
     noted (Setsockopt newsfd SO_REUSEADDR) ''calling sockpot'' (\<lambda>_.
     noted (Bind newsfd addr) ''bind'' (\<lambda>_.
     noted (Listen newsfd 5) ''listen'' (\<lambda>_.
     noted (Accept newsfd) ''accept'' k)))))"

definition active_client_main :: "nat \<Rightarrow> string \<Rightarrow> string \<Rightarrow> string \<Rightarrow> prog" where
  "active_client_main n namebuf buffer buf =
     ftp_connect 8000 (\<lambda>nfd.
     send_port_and_name nfd namebuf buffer (\<lambda>_.
     Call (Close nfd) (\<lambda>_.
     accept_data (any_addr 8040) (\<lambda>nfd.
     Out (line ''FILE contents:'') (show_words n nfd buf)))))"

definition raw_port_client_main :: "nat \<Rightarrow> string \<Rightarrow> string \<Rightarrow> string \<Rightarrow> prog" where
  "raw_port_client_main n namebuf buffer buf =
     ftp_connect 8000 (\<lambda>nfd.
     send_port_and_name nfd namebuf buffer (\<lambda>_.
     accept_data (Inet (word_of_int 8040) 0) (\<lambda>nfd.
     Out (line ''FILE contents:'') (show_words n nfd buf))))"

definition passive_client_main :: "nat \<Rightarrow> string \<Rightarrow> string \<Rightarrow> string \<Rightarrow> prog" where
  "passive_client_main n portbuf buffer buf =
     ftp_connect 8000 (\<lambda>nfd.
     recv_into nfd portbuf 30 (\<lambda>portbuf _. let p = atoi portbuf in
     Out (line (''PORT:'' @ dec p)) (
     put_str buffer ''sample.txt'' (\<lambda>buffer. send_str nfd buffer 30 (
     Call (Close nfd) (\<lambda>_.
     Call (Sleep 2) (\<lambda>_.
     ftp_connect p (\<lambda>nfd. show_words n nfd buf))))))))"

section \<open>UDP: mid/udp and end/udp\<close>

definition upper :: "char \<Rightarrow> char" where
  "upper c = (if 97 \<le> (of_char c :: nat) \<and> (of_char c :: nat) \<le> 122 then char_of ((of_char c :: nat) - 32) else c)"

text \<open>The address that a recvfrom stores: the port and the host of the answer.\<close>

definition sender :: "addr \<Rightarrow> ans \<Rightarrow> addr" where
  "sender old a = (case ints a of p # h # _ \<Rightarrow> Inet (word_of_int p) (word_of_int h) | _ \<Rightarrow> old)"

definition localhost :: "int \<Rightarrow> addr" where
  "localhost p = Inet (htons_int p) 0x0100007F"

definition udp_server_turn :: "int \<Rightarrow> string \<times> addr \<Rightarrow> (string \<times> addr \<Rightarrow> prog) \<Rightarrow> prog" where
  "udp_server_turn sock = (\<lambda>(buffer, from) again.
     Out (line ''d1'') (
     Call (Recvfrom sock 1024) (\<lambda>a.
     store 1024 buffer a (\<lambda>buffer.
     Out (line ''d2'') (
     let n = nat (ret a - 1); buffer = map upper (take n buffer) @ drop n buffer; from = sender from a in
     Call (Sendto sock buffer (ret a) from) (\<lambda>_. again (buffer, from)))))))"

definition udp_server_main :: "nat \<Rightarrow> string \<Rightarrow> addr \<Rightarrow> prog" where
  "udp_server_main n buffer from =
     Call (Socket AF_INET SOCK_DGRAM 0) (\<lambda>s.
     Call (Bind (ret s) (localhost 7891)) (\<lambda>_. forever n (udp_server_turn (ret s)) (buffer, from)))"

definition udp_client_turn :: "int \<Rightarrow> string \<Rightarrow> (string \<Rightarrow> prog) \<Rightarrow> prog" where
  "udp_client_turn sock buffer again =
     Out (line ''Type a sentence to send to server:'') (
     fgets_into buffer 1024 (\<lambda>buffer.
     Out (''You typed: '' @ c_str buffer) (
     Call (Sendto sock buffer (int (length (c_str buffer)) + 1) (localhost 7891)) (\<lambda>_.
     Call (Recvfrom sock 1024) (\<lambda>a.
     store 1024 buffer a (\<lambda>buffer.
     Out (line (''Received from server: '' @ c_str buffer)) (again buffer)))))))"

definition udp_client_main :: "nat \<Rightarrow> string \<Rightarrow> prog" where
  "udp_client_main n buffer =
     Call (Socket AF_INET SOCK_DGRAM 0) (\<lambda>s. forever n (udp_client_turn (ret s)) buffer)"

definition hai_server_main :: "string \<Rightarrow> addr \<Rightarrow> prog" where
  "hai_server_main buffer from =
     noted (Socket AF_INET SOCK_DGRAM 0) ''socket'' (\<lambda>usfd.
     noted (Bind usfd (any_addr 8000)) ''bind'' (\<lambda>_.
     Out (line ''check1'') (
     Call (Recvfrom usfd 30) (\<lambda>a.
     store 30 buffer a (\<lambda>buffer.
     Out (line (c_str buffer)) (
     Call (Sendto usfd (lit ''hai from server'') 30 (sender from a)) (\<lambda>_. Exit 0)))))))"

text \<open>The host is printed as a signed 32-bit number.\<close>

definition hai_client_main :: "string \<Rightarrow> addr \<Rightarrow> prog" where
  "hai_client_main buffer from =
     noted (Socket AF_INET SOCK_DGRAM 0) ''socket'' (\<lambda>usfd.
     Call (Sendto usfd (lit ''hai from client'') 30 (any_addr 8000)) (\<lambda>_.
     Call (Recvfrom usfd 30) (\<lambda>a.
     store 30 buffer a (\<lambda>buffer.
     Out (line (c_str buffer)) (
     Out (line (dec (case sender from a of Inet p h \<Rightarrow> sint h | _ \<Rightarrow> 0))) (Exit 0))))))"

section \<open>A file that is read word by word\<close>

text \<open>
  The C library's file: what has not been read, and the flag that feof reports, which is set when
  a reading call meets the end. fscanf("%s") skips white space, reads a word and looks at the
  character behind it. What a run sends is collected.
\<close>

record word_file =
  unread :: string
  at_end :: bool
  log :: "string list"

definition word_kernel :: "call \<Rightarrow> word_file \<Rightarrow> ans \<times> word_file" where
  "word_kernel c s = (case c of
     Feof f \<Rightarrow> (rets (of_bool (at_end s)), s)
   | Fscanf f \<Rightarrow>
       (let t = dropWhile is_space (unread s); w = takeWhile (\<lambda>c. \<not> is_space c) t;
            r = dropWhile (\<lambda>c. \<not> is_space c) t
        in if t = [] then (rets (- 1), s\<lparr>unread := [], at_end := True\<rparr>)
           else (\<lparr>ret = 1, dat = w, ints = []\<rparr>, s\<lparr>unread := r, at_end := (r = [])\<rparr>))
   | Send fd obj n \<Rightarrow> (rets n, s\<lparr>log := log s @ [take (nat n) obj]\<rparr>)
   | _ \<Rightarrow> (rets 0, s))"

definition word :: "string \<Rightarrow> bool" where
  "word w = (w \<noteq> [] \<and> list_all (\<lambda>c. \<not> is_space c) w \<and> no_nul w \<and> length w < 255)"

text \<open>The text of a file: words, each with the blanks behind it.\<close>

definition blank :: "string \<Rightarrow> bool" where
  "blank s = list_all is_space s"

fun file_text :: "(string \<times> string) list \<Rightarrow> string" where
  "file_text [] = []"
| "file_text ((w, s) # ws) = w @ s @ file_text ws"

lemma after_word:
  assumes "word w" "blank s" "s @ r = [] \<or> is_space (hd (s @ r))"
  shows "dropWhile is_space (w @ s @ r) = w @ s @ r"
    "takeWhile (\<lambda>c. \<not> is_space c) (w @ s @ r) = w" "dropWhile (\<lambda>c. \<not> is_space c) (w @ s @ r) = s @ r"
proof -
  have w: "w \<noteq> []" "\<forall>c \<in> set w. \<not> is_space c" using assms(1) by (auto simp: word_def list_all_iff)
  then show "dropWhile is_space (w @ s @ r) = w @ s @ r" by (cases w) auto
  show "takeWhile (\<lambda>c. \<not> is_space c) (w @ s @ r) = w" "dropWhile (\<lambda>c. \<not> is_space c) (w @ s @ r) = s @ r"
    using w(2) assms(3) by (cases "s @ r"; auto simp: takeWhile_append dropWhile_append)+
qed

lemma skip_blank:
  assumes "blank s" "word w"
  shows "dropWhile is_space (s @ w @ r) = w @ r"
proof -
  have "dropWhile is_space (s @ w @ r) = dropWhile is_space (w @ r)"
    using assms(1) by (auto simp: blank_def list_all_iff dropWhile_append)
  also have "\<dots> = w @ r" using assms(2) by (cases w) (auto simp: word_def)
  finally show ?thesis .
qed

text \<open>One turn that finds a word, and the one that finds only blanks.\<close>

lemma word_turn_word:
  assumes "word w" "blank s0" "s @ r = [] \<or> is_space (hd (s @ r))" "blank s" "length buf = 255"
  shows "run word_kernel (word_turn fp fd buf again) \<lparr>unread = s0 @ w @ s @ r, at_end = False, log = l\<rparr> =
    run word_kernel (again (overwrite buf (lit w)))
      \<lparr>unread = s @ r, at_end = (s @ r = []), log = l @ [overwrite buf (lit w)]\<rparr>"
proof -
  have d: "dropWhile is_space (s0 @ w @ s @ r) = w @ s @ r" by (rule skip_blank [OF assms(2,1)])
  note a = after_word(2,3) [OF assms(1,4,3)]
  have n: "length w < length buf" "w \<noteq> []" using assms(1,5) by (auto simp: word_def)
  have "take 255 (overwrite buf (lit w)) = overwrite buf (lit w)"
    using n assms(5) by (simp add: length_overwrite length_lit)
  then show ?thesis
    using n by (simp add: word_turn_def word_kernel_def d a Let_def send_str_def split: prod.split)
qed

lemma word_turn_blank:
  assumes "blank s" "length buf = 255"
  shows "run word_kernel (word_turn fp fd buf again) \<lparr>unread = s, at_end = False, log = l\<rparr> =
    run word_kernel (again buf) \<lparr>unread = [], at_end = True, log = l @ [buf]\<rparr>"
proof -
  have "dropWhile is_space s = []" using assms(1) by (simp add: blank_def list_all_iff)
  then show ?thesis
    using assms(2) by (simp add: word_turn_def word_kernel_def Let_def send_str_def split: prod.split)
qed

lemma word_turn_end:
  "run word_kernel (word_turn fp fd buf again) \<lparr>unread = s, at_end = True, log = l\<rparr> =
    ([], Exited 0, \<lparr>unread = s, at_end = True, log = l\<rparr>)"
  by (simp add: word_turn_def word_kernel_def)

text \<open>Blanks stand between any two words, and may stand at the start and at the end.\<close>

definition well_separated :: "(string \<times> string) list \<Rightarrow> bool" where
  "well_separated ws =
     (list_all (\<lambda>(w, s). word w \<and> blank s) ws \<and> list_all (\<lambda>(w, s). s \<noteq> []) (butlast ws))"

lemma well_separated_Cons:
  "well_separated ((w, s) # ws) = (word w \<and> blank s \<and> (ws \<noteq> [] \<longrightarrow> s \<noteq> []) \<and> well_separated ws)"
  by (cases ws) (auto simp: well_separated_def)

lemma blank_hd: "blank s \<Longrightarrow> s \<noteq> [] \<Longrightarrow> is_space (hd (s @ r))"
  by (cases s) (auto simp: blank_def)

definition words_sent :: "(string \<times> string) list \<Rightarrow> string list" where
  "words_sent ws = map fst ws @ (if snd (last ws) = [] then [] else [fst (last ws)])"

lemma words_run:
  assumes "well_separated ws" "ws \<noteq> []" "blank s0" "length buf = 255" "length ws + 2 \<le> n"
  shows "\<exists>msgs u. run word_kernel (forever n (word_turn fp fd) buf)
      \<lparr>unread = s0 @ file_text ws, at_end = False, log = l\<rparr> =
      ([], Exited 0, \<lparr>unread = u, at_end = True, log = l @ msgs\<rparr>) \<and>
    map c_str msgs = words_sent ws \<and> list_all (\<lambda>m. length m = 255) msgs"
  using assms
proof (induction ws arbitrary: s0 buf l n)
  case (Cons p ws)
  obtain w s where p: "p = (w, s)" by (cases p)
  from Cons.prems(5) obtain m where n: "n = Suc (Suc (Suc m))" by (cases n; cases "n - 1"; cases "n - 2") auto
  note ws = Cons.prems(1) [unfolded p well_separated_Cons]
  let ?b = "overwrite buf (lit w)"
  have lw: "length ?b = 255" "c_str ?b = w"
    using ws Cons.prems(4) by (auto simp: word_def length_overwrite length_lit c_str_overwrite_lit)
  have first: "run word_kernel (forever n (word_turn fp fd) buf) \<lparr>unread = s0 @ file_text (p # ws), at_end = False, log = l\<rparr> =
      run word_kernel (forever (Suc (Suc m)) (word_turn fp fd) ?b)
        \<lparr>unread = s @ file_text ws, at_end = (s @ file_text ws = []), log = l @ [?b]\<rparr>"
    unfolding n forever.simps(2) [of "Suc (Suc m)"] p file_text.simps
    using ws Cons.prems(3,4) blank_hd [of s "file_text ws"]
    by (cases "s = []"; intro word_turn_word) (auto simp: well_separated_def)
  show ?case
  proof (cases "ws = []")
    case True
    show ?thesis
    proof (cases "s = []")
      case True
      with first \<open>ws = []\<close> lw show ?thesis by (auto simp: word_turn_end words_sent_def p)
    next
      case False
      with ws have "run word_kernel (forever (Suc (Suc m)) (word_turn fp fd) ?b)
          \<lparr>unread = s, at_end = False, log = l @ [?b]\<rparr> =
          ([], Exited 0, \<lparr>unread = [], at_end = True, log = (l @ [?b]) @ [?b]\<rparr>)"
        by (simp add: word_turn_blank [OF _ lw(1)] word_turn_end)
      with first False \<open>ws = []\<close> lw show ?thesis
        by (intro exI [of _ "[?b, ?b]"] exI [of _ "[]"]) (simp add: words_sent_def p del: forever.simps)
    qed
  next
    case False
    with ws have ne: "s \<noteq> []" by simp
    from Cons.IH [of s ?b "Suc (Suc m)" "l @ [?b]"] ws False lw Cons.prems(5) n
    obtain msgs u where m: "run word_kernel (forever (Suc (Suc m)) (word_turn fp fd) ?b)
          \<lparr>unread = s @ file_text ws, at_end = False, log = l @ [?b]\<rparr> =
          ([], Exited 0, \<lparr>unread = u, at_end = True, log = (l @ [?b]) @ msgs\<rparr>)"
      "map c_str msgs = words_sent ws" "list_all (\<lambda>m. length m = 255) msgs"
      by (auto simp del: forever.simps)
    with first ne lw False show ?thesis
      by (intro exI [of _ "?b # msgs"] exI [of _ u]) (simp add: words_sent_def p del: forever.simps)
  qed
qed simp

lemma shows_messages:
  "list_all (\<lambda>m. length m = 255) msgs \<Longrightarrow> length buf = 255 \<Longrightarrow>
    printed (trace (show_words (length msgs) nfd buf) (map gives msgs)) = map (\<lambda>m. line (c_str m)) msgs"
  unfolding show_words_def
  by (induction msgs arbitrary: buf) (simp_all add: overwrite_def)

text \<open>
  C11. What the client of ftp prints: the server, run on a file of words of less
  than 255 characters, with at least two turns more than words, sends messages and exits, and the
  client that is given these messages prints the words of the file, one to a line and in order,
  and the last one once more when anything stands behind it, as the newline of a text file does:
  the server asks for the end of the file before it reads.
\<close>

theorem ftp_words_arrive:
  assumes "well_separated ws" and "ws \<noteq> []" and "blank s0" and "length ws + 2 \<le> n"
    and "length buf = 255" and "length buf' = 255"
  shows "\<exists>msgs u. run word_kernel (forever n (word_turn fp fd) buf)
      \<lparr>unread = s0 @ file_text ws, at_end = False, log = []\<rparr> =
      ([], Exited 0, \<lparr>unread = u, at_end = True, log = msgs\<rparr>) \<and>
    printed (trace (show_words (length msgs) nfd buf') (map gives msgs)) =
      map line (map fst ws @ (if snd (last ws) = [] then [] else [fst (last ws)]))"
proof -
  from words_run [OF assms(1-3,5,4), of fp fd "[]"] obtain msgs u where
    m: "run word_kernel (forever n (word_turn fp fd) buf)
      \<lparr>unread = s0 @ file_text ws, at_end = False, log = []\<rparr> =
      ([], Exited 0, \<lparr>unread = u, at_end = True, log = msgs\<rparr>)"
    "map c_str msgs = words_sent ws" "list_all (\<lambda>m. length m = 255) msgs" by auto
  have "map (\<lambda>m. line (c_str m)) msgs = map line (words_sent ws)"
    unfolding m(2) [symmetric] by simp
  with m shows_messages [OF m(3) assms(6), of nfd] show ?thesis
    unfolding words_sent_def by (intro exI [of _ msgs] exI [of _ u]) simp
qed

theorem ftp_words_arrive_witness:
  "\<exists>msgs u. run word_kernel (forever 4 (word_turn 9 5) (zeros 255))
      \<lparr>unread = ''hello'' @ '' '' @ ''world'' @ [newline], at_end = False, log = []\<rparr> =
      ([], Exited 0, \<lparr>unread = u, at_end = True, log = msgs\<rparr>) \<and>
    printed (trace (show_words (length msgs) 6 (zeros 255)) (map gives msgs)) =
      map line [''hello'', ''world'', ''world'']"
proof -
  have "well_separated [(''hello'', '' ''), (''world'', [newline])]"
    by (simp add: well_separated_def word_def blank_def is_space_def no_nul_def)
  from ftp_words_arrive [OF this _ _ _ length_zeros length_zeros, of "[]" 4 9 5 6] show ?thesis
    by (simp add: blank_def del: forever.simps)
qed

section \<open>A sentence in upper case\<close>

lemma upper_no_nul: "no_nul s \<Longrightarrow> no_nul (map upper s)"
proof -
  have "upper c \<noteq> NUL" if "c \<noteq> NUL" for c
  proof
    assume u: "upper c = NUL"
    show False
    proof (cases "97 \<le> (of_char c :: nat) \<and> (of_char c :: nat) \<le> 122")
      case True
      then have "(of_char c :: nat) - 32 < 256" by linarith
      with True have "(of_char (upper c) :: nat) = of_char c - 32" by (simp add: upper_def)
      with True u show False by simp
    next
      case False
      with u that show False by (simp add: upper_def)
    qed
  qed
  then show "no_nul s \<Longrightarrow> no_nul (map upper s)" by (auto simp: no_nul_def list_all_iff)
qed

text \<open>
  C25. A sentence of fewer than 1023 characters that is typed at the UDP client
  comes back in upper case: the client sends the sentence with its NUL to the server's port, the
  server sends a datagram it gets in upper case to the sender, the last byte as it is, and the
  client prints the sentence in upper case.
\<close>

theorem udp_echoes_upper:
  assumes "no_nul s" and "length s < 1023" and "length buffer = 1024" and "length buffer' = 1024"
    and "length (lit s) = k"
  shows "calls (trace (udp_client_turn sock buffer again) [\<lparr>ret = 1, dat = s, ints = []\<rparr>, rets (int k)]) =
      [Fgets 1024, Sendto sock (overwrite buffer (lit s)) (int k) (localhost 7891)] \<and>
    take k (overwrite buffer (lit s)) = lit s \<and>
    (\<exists>b. calls (trace (udp_server_turn sock' (buffer', from) again')
        [\<lparr>ret = int k, dat = lit s, ints = [p, h]\<rparr>, rets (int k)]) =
        [Recvfrom sock' 1024, Sendto sock' b (int k) (Inet (word_of_int p) (word_of_int h))] \<and>
      take k b = lit (map upper s)) \<and>
    take 3 (printed (trace (udp_client_turn sock buffer again)
        [\<lparr>ret = 1, dat = s, ints = []\<rparr>, rets (int k), gives (lit (map upper s))])) =
      [line ''Type a sentence to send to server:'', ''You typed: '' @ s, line (''Received from server: '' @ map upper s)]"
proof -
  have k: "k = Suc (length s)" "length (lit s) \<le> 1024" using assms(2,5) by (simp_all add: length_lit)
  have c: "c_str (overwrite buffer (lit s)) = s" by (rule c_str_overwrite_lit [OF assms(1)])
  have c': "c_str (overwrite (overwrite buffer (lit s)) (lit (map upper s))) = map upper s"
    by (rule c_str_overwrite_lit [OF upper_no_nul [OF assms(1)]])
  have l: "length (overwrite buffer (lit s)) = 1024" "length (overwrite buffer' (lit s)) = 1024"
    using k assms(3,4) by (simp_all add: length_overwrite)
  have t: "take k (overwrite buffer (lit s)) = lit s" using assms(5) by (simp add: overwrite_def)
  have g: "got 1024 \<lparr>ret = int k, dat = lit s, ints = [p, h]\<rparr> = lit s"
    using k by (simp add: got_def length_lit)
  have g': "got 1024 (gives (lit (map upper s))) = lit (map upper s)" using k by (simp add: length_lit)
  let ?o = "overwrite buffer' (lit s)"
  let ?b = "map upper (take (length s) ?o) @ drop (length s) ?o"
  have "take (length s) ?o = s" "take (Suc (length s)) ?o = s @ [NUL]"
    by (simp_all add: overwrite_def lit_def)
  then have b: "take k ?b = lit (map upper s)"
    by (simp add: k(1) overwrite_def lit_def)
  have tk: "take 1023 s = s" using assms(2) by simp
  have srv: "calls (trace (udp_server_turn sock' (buffer', from) again')
        [\<lparr>ret = int k, dat = lit s, ints = [p, h]\<rparr>, rets (int k)]) =
        [Recvfrom sock' 1024, Sendto sock' ?b (int k) (Inet (word_of_int p) (word_of_int h))]"
    using assms(4) k g l by (simp add: udp_server_turn_def Let_def sender_def)
  show ?thesis
    using t srv b c c' l g' tk k(1) assms(3)
    by (intro conjI exI [of _ ?b]) (simp_all add: udp_client_turn_def fgets_into_def)
qed

theorem udp_echoes_upper_witness:
  "take 3 (printed (trace (udp_client_turn 3 (zeros 1024) (\<lambda>_. Cut))
      [\<lparr>ret = 1, dat = ''hi'', ints = []\<rparr>, rets (int 3), gives (lit (map upper ''hi''))])) =
    [line ''Type a sentence to send to server:'', ''You typed: '' @ ''hi'', line (''Received from server: '' @ ''HI'')]"
proof -
  have "map upper ''hi'' = ''HI''" by code_simp
  with udp_echoes_upper [of "''hi''" "zeros 1024" "zeros 1024" 3 3 "\<lambda>_. Cut"] show ?thesis
    by (simp add: length_zeros no_nul_def length_lit)
qed

end
