(* ===== verification/CN_Threads.thy ===== *)
theory CN_Threads imports CN_Sockets begin

text \<open>
  Threads that are handed the address of main's descriptor variable: mid/multithreaded, and the
  services of mid/tss; mid/prethreaded, whose threads accept themselves. A process is main, the
  variable and its threads, all programs; the step relation interleaves them. The monitor below
  says how main treats the variable; the locale derives what its threads can serve, in every
  interleaving and when every thread reads the variable before the next client is accepted.
\<close>

section \<open>mid/multithreaded\<close>

definition mt_serve :: "nat \<Rightarrow> string \<Rightarrow> int \<Rightarrow> prog" where
  "mt_serve n buffer nfd =
     Out (line (''The nfd: '' @ dec nfd)) (
     forever n (\<lambda>buffer again.
       recv_into nfd buffer 30 (\<lambda>buffer _.
       Out (line (''server :'' @ c_str buffer)) (
       Call (Sleep 4) (\<lambda>_. send_str nfd (lit ''from server:'') 30 (again buffer))))) buffer)"

definition mt_thread :: "nat \<Rightarrow> string \<Rightarrow> prog" where
  "mt_thread n buffer = Call Getvar (\<lambda>v. mt_serve n buffer (ret v))"

definition mt_turn :: "int \<Rightarrow> int \<Rightarrow> (int \<Rightarrow> prog) \<Rightarrow> prog" where
  "mt_turn sfd clients_count again =
     Call (Accept sfd) (\<lambda>a. Call (Setvar (ret a)) (\<lambda>_.
     error_print (ret a) ''accept error'' (
     if 5 \<le> clients_count then Undef
     else Call (Pthread_create ''thread_func'' ''&nfd'') (\<lambda>_. again (clients_count + 1)))))"

definition mt_listen :: "(int \<Rightarrow> prog) \<Rightarrow> prog" where
  "mt_listen k =
     tried (Socket AF_INET SOCK_STREAM 0) ''sock error'' (\<lambda>sfd.
     tried (Setsockopt sfd SO_REUSEADDR) ''opt error'' (\<lambda>_.
     tried (Bind sfd (any_addr 8000)) ''bind error'' (\<lambda>_.
     tried (Listen sfd 5) ''listen error'' (\<lambda>_. k sfd))))"

definition mt_main :: "nat \<Rightarrow> prog" where
  "mt_main n = mt_listen (\<lambda>sfd. forever n (mt_turn sfd) 0)"

definition mt_client_turn :: "int \<Rightarrow> string \<Rightarrow> (string \<Rightarrow> prog) \<Rightarrow> prog" where
  "mt_client_turn nfd buf again =
     send_str nfd (lit ''from client:'') 30 (
     recv_into nfd buf 30 (\<lambda>buf _. Out (line (''client:'' @ c_str buf)) (again buf)))"

definition mt_client_main :: "nat \<Rightarrow> string \<Rightarrow> prog" where
  "mt_client_main n buf =
     tried (Socket AF_INET SOCK_STREAM 0) ''sock erorr'' (\<lambda>nfd.
     tried (Connect nfd (any_addr 8000)) ''accept error'' (\<lambda>_.
     forever n (mt_client_turn nfd) buf))"

section \<open>mid/prethreaded\<close>

text \<open>The threads share the listening socket, which does not change.\<close>

definition pre_thread :: "nat \<Rightarrow> string \<Rightarrow> prog" where
  "pre_thread n buf =
     Call Getvar (\<lambda>v. let sfd = ret v in
     Out (line (dec sfd)) (
     tried (Accept sfd) ''accept error'' (\<lambda>nfd.
     forever n (\<lambda>buf again.
       recv_into nfd buf 30 (\<lambda>buf _.
       Call (Sleep 3) (\<lambda>_. send_str nfd (lit ''from server:'') 30 (again buf)))) buf)))"

text \<open>pthread_join is given the addresses of the handles; main ends when these calls return.\<close>

definition pre_main :: prog where
  "pre_main = mt_listen (\<lambda>sfd.
     Call (Setvar sfd) (\<lambda>_.
     for_each [0..<5] (\<lambda>i _ k. Call (Pthread_create ''thread_func'' ''&sfd'') (\<lambda>_. k ())) () (\<lambda>_.
     for_each [0..<5] (\<lambda>i _ k. Call (Pthread_join (''&threads['' @ dec (int i) @ '']'')) (\<lambda>_. k ())) () (\<lambda>_.
     Exit 0))))"

definition pre_client_main :: "nat \<Rightarrow> string \<Rightarrow> prog" where
  "pre_client_main n buf = mt_client_main n buf"

section \<open>mid/tss: the services\<close>

text \<open>error_func prints the message without a line break, and exits.\<close>

definition out_exit :: "int \<Rightarrow> string \<Rightarrow> prog \<Rightarrow> prog" where
  "out_exit v message k = (if v < 0 then Out message (Exit 1) else k)"

definition or_out_exit :: "call \<Rightarrow> string \<Rightarrow> (int \<Rightarrow> prog) \<Rightarrow> prog" where
  "or_out_exit c message k = Call c (\<lambda>a. out_exit (ret a) message (k (ret a)))"

definition tss_serve :: "string \<Rightarrow> nat \<Rightarrow> string \<Rightarrow> int \<Rightarrow> prog" where
  "tss_serve reply n namebuffer nfd =
     Out (line ''thread started'') (
     forever n (\<lambda>namebuffer again.
       recv_into nfd namebuffer 30 (\<lambda>namebuffer _.
       Out (line (''got from client'' @ c_str namebuffer)) (
       send_str nfd (lit reply) 30 (again namebuffer)))) namebuffer)"

definition tss_thread :: "string \<Rightarrow> nat \<Rightarrow> string \<Rightarrow> prog" where
  "tss_thread reply n namebuffer = Call Getvar (\<lambda>v. tss_serve reply n namebuffer (ret v))"

text \<open>With two clients a further one is disconnected.\<close>

definition tss_service_turn :: "(int \<Rightarrow> prog \<Rightarrow> prog) \<Rightarrow> (int \<Rightarrow> string) \<Rightarrow> int \<Rightarrow> int \<Rightarrow> (int \<Rightarrow> prog) \<Rightarrow> prog" where
  "tss_service_turn peer full sfd clients_no again =
     Call (Accept sfd) (\<lambda>a. Call (Setvar (ret a)) (\<lambda>_. let nfd = ret a in
     out_exit nfd ''error in accept'' (
     if 2 \<le> clients_no then Out (full clients_no) (Call (Close nfd) (\<lambda>_. again clients_no))
     else Out (line ''client accepted'') (
       peer nfd (Call (Pthread_create ''func'' ''&nfd'') (\<lambda>_. again (clients_no + 1)))))))"

definition tss_listen :: "int \<Rightarrow> (int \<Rightarrow> prog) \<Rightarrow> prog" where
  "tss_listen p k =
     or_out_exit (Socket AF_INET SOCK_STREAM 0) ''error in socket call'' (\<lambda>sfd.
     or_out_exit (Setsockopt sfd SO_REUSEADDR) ''calling sockpot'' (\<lambda>_.
     or_out_exit (Bind sfd (any_addr p)) ''error in bind'' (\<lambda>_.
     or_out_exit (Listen sfd 3) ''error in listening'' (\<lambda>_. k sfd))))"

definition disconnecting :: string where
  "disconnecting = ''max clients reached : Disconnectinf''"

text \<open>service2.c asks for the peer's port before it creates the thread.\<close>

definition show_peer :: "int \<Rightarrow> prog \<Rightarrow> prog" where
  "show_peer nfd k =
     Call (Getpeername nfd) (\<lambda>p.
     Out (line (''the client port is'' @ dec (case ints p of [] \<Rightarrow> 0 | i # _ \<Rightarrow> i))) k)"

definition service1_main :: "nat \<Rightarrow> prog" where
  "service1_main n = tss_listen 9000 (\<lambda>sfd.
     Out (line ''server1 forked'') (forever n (tss_service_turn (\<lambda>_ k. k) (\<lambda>_. line disconnecting) sfd) 0))"

definition service2_main :: "nat \<Rightarrow> prog" where
  "service2_main n = tss_listen 9001 (\<lambda>sfd.
     forever n (tss_service_turn show_peer (\<lambda>c. line (disconnecting @ dec c)) sfd) 0)"

definition service3_main :: "nat \<Rightarrow> prog" where
  "service3_main n = tss_listen 9002 (\<lambda>sfd.
     forever n (tss_service_turn (\<lambda>_ k. k) (\<lambda>_. line disconnecting) sfd) 0)"

section \<open>A process and its threads\<close>

text \<open>
  The variable, main and the threads; and, to speak of a run, the results of main's accept calls,
  the values the variable had when the threads were created, and whether a client was accepted
  since the last thread was created.
\<close>

record process =
  main_of :: prog
  var_of :: int
  threads_of :: "prog list"
  results_of :: "int list"
  made_of :: "int list"
  fresh_of :: bool

definition local_call :: "call \<Rightarrow> bool" where
  "local_call c = (case c of Accept _ \<Rightarrow> False | Setvar _ \<Rightarrow> False | Getvar \<Rightarrow> False
     | Pthread_create _ _ \<Rightarrow> False | _ \<Rightarrow> True)"

definition alive :: "process \<Rightarrow> bool" where
  "alive s = (case main_of s of Exit _ \<Rightarrow> False | _ \<Rightarrow> True)"

text \<open>A step of a thread, where the variable has the value v.\<close>

inductive thread_step :: "int \<Rightarrow> prog \<Rightarrow> prog \<Rightarrow> bool" where
  out: "thread_step v (Out t p) p"
| perror: "thread_step v (Perror t p) p"
| get: "thread_step v (Call Getvar k) (k (rets v))"
| call: "local_call c \<Longrightarrow> thread_step v (Call c k) (k a)"

inductive_simps thread_step_simps [simp]:
  "thread_step v (Out t p) p'" "thread_step v (Perror t p) p'" "thread_step v (Call c k) p'"
  "thread_step v (Exit n) p'" "thread_step v Undef p'" "thread_step v Diverge p'" "thread_step v Cut p'"

text \<open>A step of main or of a thread; a thread starts as func. The end of main is the end of all.\<close>

inductive step :: "prog \<Rightarrow> process \<Rightarrow> process \<Rightarrow> bool" for func where
  main_out: "main_of s = Out t p \<Longrightarrow> step func s (s\<lparr>main_of := p\<rparr>)"
| main_perror: "main_of s = Perror t p \<Longrightarrow> step func s (s\<lparr>main_of := p\<rparr>)"
| main_accept: "main_of s = Call (Accept fd) k \<Longrightarrow>
    step func s (s\<lparr>main_of := k a, results_of := results_of s @ [ret a], fresh_of := True\<rparr>)"
| main_set: "main_of s = Call (Setvar v) k \<Longrightarrow> step func s (s\<lparr>main_of := k a, var_of := v\<rparr>)"
| main_create: "main_of s = Call (Pthread_create f x) k \<Longrightarrow>
    step func s (s\<lparr>main_of := k a, threads_of := threads_of s @ [func],
      made_of := made_of s @ [var_of s], fresh_of := False\<rparr>)"
| main_call: "main_of s = Call c k \<Longrightarrow> local_call c \<Longrightarrow> step func s (s\<lparr>main_of := k a\<rparr>)"
| thread: "alive s \<Longrightarrow> i < length (threads_of s) \<Longrightarrow> thread_step (var_of s) (threads_of s ! i) p \<Longrightarrow>
    step func s (s\<lparr>threads_of := (threads_of s)[i := p]\<rparr>)"

inductive_cases stepE: "step func s s'"

text \<open>A thread that has not read the variable yet.\<close>

definition pending :: "prog \<Rightarrow> bool" where
  "pending p = (case p of Call c k \<Rightarrow> (case c of Getvar \<Rightarrow> True | _ \<Rightarrow> False) | _ \<Rightarrow> False)"

text \<open>A prompt step accepts no client while a thread is pending.\<close>

definition prompt_step :: "prog \<Rightarrow> process \<Rightarrow> process \<Rightarrow> bool" where
  "prompt_step func s s' = (step func s s' \<and>
     (results_of s' \<noteq> results_of s \<longrightarrow> list_all (\<lambda>p. \<not> pending p) (threads_of s)))"

definition start :: "prog \<Rightarrow> int \<Rightarrow> process" where
  "start main junk = \<lparr>main_of = main, var_of = junk, threads_of = [], results_of = [], made_of = [],
     fresh_of = False\<rparr>"

section \<open>How main uses the variable\<close>

text \<open>
  The monitor of main: the results of accept, the variable, the number of threads and whether a
  client was accepted since the last thread was created. The variable is only set to the last
  result, before the thread for it is created, and at most cap threads are created.
\<close>

record handoff =
  h_results :: "int list"
  h_var :: int
  h_count :: nat
  h_fresh :: bool

definition handoff_ok :: "nat \<Rightarrow> handoff \<Rightarrow> call \<Rightarrow> bool" where
  "handoff_ok cap m c = (case c of
     Setvar v \<Rightarrow> h_fresh m \<and> h_results m \<noteq> [] \<and> v = last (h_results m)
   | Pthread_create f x \<Rightarrow> h_count m < cap \<and> h_results m \<noteq> [] \<and> h_var m = last (h_results m)
   | Getvar \<Rightarrow> False
   | _ \<Rightarrow> True)"

definition handoff_upd :: "handoff \<Rightarrow> call \<Rightarrow> ans \<Rightarrow> handoff" where
  "handoff_upd m c a = (case c of
     Accept fd \<Rightarrow> m\<lparr>h_results := h_results m @ [ret a], h_fresh := True\<rparr>
   | Setvar v \<Rightarrow> m\<lparr>h_var := v\<rparr>
   | Pthread_create f x \<Rightarrow> m\<lparr>h_count := h_count m + 1, h_fresh := False\<rparr>
   | _ \<Rightarrow> m)"

text \<open>A program that uses no socket but fd.\<close>

definition only_fd :: "int \<Rightarrow> call \<Rightarrow> bool" where
  "only_fd fd c = (list_all (\<lambda>d. d = fd) (uses c) \<and> local_call c)"

definition serves :: "int \<Rightarrow> prog \<Rightarrow> bool" where
  "serves fd p = always (only_fd fd) p"

lemma handoff_upd_simps [simp]:
  "handoff_upd m (Accept fd) a = m\<lparr>h_results := h_results m @ [ret a], h_fresh := True\<rparr>"
  "handoff_upd m (Setvar v) a = m\<lparr>h_var := v\<rparr>"
  "handoff_upd m (Pthread_create f x) a = m\<lparr>h_count := h_count m + 1, h_fresh := False\<rparr>"
  "local_call c \<Longrightarrow> handoff_upd m c a = m"
  by (auto simp: handoff_upd_def local_call_def split: call.splits)

lemma handoff_ok_simps [simp]:
  "handoff_ok cap m (Setvar v) = (h_fresh m \<and> h_results m \<noteq> [] \<and> v = last (h_results m))"
  "handoff_ok cap m (Pthread_create f x) =
     (h_count m < cap \<and> h_results m \<noteq> [] \<and> h_var m = last (h_results m))"
  "handoff_ok cap m (Accept fd)"
  "local_call c \<Longrightarrow> handoff_ok cap m c"
  by (auto simp: handoff_ok_def local_call_def split: call.splits)

lemma local_calls [simp]:
  "local_call (Close fd)" "local_call (Getpeername fd)" "local_call (Sleep n)" "local_call (Recv fd n)"
  "local_call (Send fd b n)" "local_call (Listen fd n)" "local_call (Bind fd ad)"
  "local_call (Setsockopt fd so)" "local_call (Socket x y z)"
  "\<not> local_call Getvar"
  by (simp_all add: local_call_def)

lemma serves_simps [simp]:
  "serves fd (Out t p) = serves fd p" "serves fd (Perror t p) = serves fd p"
  "serves fd (Call c k) = (only_fd fd c \<and> (\<forall>a. serves fd (k a)))"
  by (simp_all add: serves_def)

lemma serves_not_pending: "serves fd p \<Longrightarrow> \<not> pending p"
  by (cases p) (auto simp: pending_def only_fd_def local_call_def split: call.splits)

lemma pending_simps [simp]: "\<not> pending (Out t p)" "\<not> pending (Perror t p)" "pending (Call Getvar k)"
  "local_call c \<Longrightarrow> \<not> pending (Call c k)"
  by (auto simp: pending_def local_call_def split: call.splits)

lemma serves_step: "thread_step v p p' \<Longrightarrow> serves fd p \<Longrightarrow> serves fd p'"
  by (induction rule: thread_step.induct) (auto simp: only_fd_def)

section \<open>The interface of a threaded server\<close>

text \<open>
  The contract of main and its thread function: main uses the variable as the monitor has it and
  creates at most cap threads; a thread reads the variable first, and then uses only the
  descriptor it has read.
\<close>

locale threaded =
  fixes main :: prog and func :: prog and body :: "ans \<Rightarrow> prog" and cap :: nat
  assumes main_hands_off: "obeys (handoff_ok cap) handoff_upd
      \<lparr>h_results = [], h_var = v, h_count = 0, h_fresh = False\<rparr> main"
    and func_reads: "func = Call Getvar body"
    and body_serves: "serves (ret a) (body a)"
begin

definition state :: "process \<Rightarrow> handoff" where
  "state s = \<lparr>h_results = results_of s, h_var = var_of s, h_count = length (threads_of s), h_fresh = fresh_of s\<rparr>"

definition main_inv :: "process \<Rightarrow> bool" where
  "main_inv s = (obeys (handoff_ok cap) handoff_upd (state s) (main_of s) \<and>
     length (threads_of s) \<le> cap \<and> length (made_of s) = length (threads_of s) \<and>
     set (made_of s) \<subseteq> set (results_of s) \<and> (threads_of s \<noteq> [] \<longrightarrow> var_of s \<in> set (results_of s)))"

text \<open>Every thread is pending or serves the result of an accept.\<close>

definition inv :: "process \<Rightarrow> bool" where
  "inv s = (main_inv s \<and>
     (\<forall>p \<in> set (threads_of s). p = func \<or> (\<exists>fd \<in> set (results_of s). serves fd p)))"

lemma inv_start: "inv (start main junk)"
  using main_hands_off [of junk] by (simp add: inv_def main_inv_def state_def start_def)

lemma main_inv_step:
  assumes "step func s s'" "main_inv s"
  shows "main_inv s'"
  using assms by (cases rule: stepE) (auto simp: main_inv_def state_def)

lemma func_step: "thread_step v func p \<Longrightarrow> serves v p"
  using body_serves [of "rets v"] by (auto simp: func_reads)

lemma inv_step:
  assumes "step func s s'" "inv s"
  shows "inv s'"
proof -
  have m: "main_inv s'" using main_inv_step assms by (simp add: inv_def)
  from assms(1) show ?thesis
  proof (cases rule: step.cases)
    case (thread i p)
    from assms(2) thread have "threads_of s ! i = func \<or> (\<exists>fd \<in> set (results_of s). serves fd (threads_of s ! i))"
      by (simp add: inv_def)
    moreover have "var_of s \<in> set (results_of s)" using assms(2) thread by (auto simp: inv_def main_inv_def)
    ultimately have "\<exists>fd \<in> set (results_of s). serves fd p"
      using thread func_step serves_step by blast
    with assms(2) m thread show ?thesis
      by (auto simp: inv_def dest!: set_update_subset_insert [THEN subsetD])
  qed (use assms(2) m in \<open>auto simp: inv_def\<close>)
qed

lemma reachable_inv: "rtranclp (step func) (start main junk) s \<Longrightarrow> inv s"
  by (induction rule: rtranclp_induct) (auto simp: inv_start intro: inv_step)

text \<open>Prompt runs: a thread is pending with its own client in the variable, or serves it.\<close>

definition own :: "process \<Rightarrow> nat \<Rightarrow> bool" where
  "own s i = (threads_of s ! i = func \<and> var_of s = made_of s ! i \<or> serves (made_of s ! i) (threads_of s ! i))"

definition prompt_inv :: "process \<Rightarrow> bool" where
  "prompt_inv s = (main_inv s \<and> (fresh_of s \<longrightarrow> list_all (\<lambda>p. \<not> pending p) (threads_of s)) \<and>
     (\<forall>i < length (threads_of s). own s i))"

lemma not_pending_serves: "own s i \<Longrightarrow> \<not> pending (threads_of s ! i) \<Longrightarrow> serves (made_of s ! i) (threads_of s ! i)"
  unfolding own_def using func_reads by auto

lemma prompt_inv_step:
  assumes "prompt_step func s s'" "prompt_inv s"
  shows "prompt_inv s'"
proof -
  from assms(1) have st: "step func s s'" by (simp add: prompt_step_def)
  then have m: "main_inv s'" using main_inv_step assms(2) by (simp add: prompt_inv_def)
  from st show ?thesis
  proof (cases rule: step.cases)
    case (main_accept fd k a)
    with assms m show ?thesis by (auto simp: prompt_inv_def prompt_step_def own_def)
  next
    case (main_set v k a)
    then have "fresh_of s" using assms(2) by (simp add: prompt_inv_def main_inv_def state_def)
    then have "serves (made_of s ! i) (threads_of s ! i)" if "i < length (threads_of s)" for i
      using assms(2) that not_pending_serves [of s i] by (simp add: prompt_inv_def list_all_length)
    with assms(2) m main_set show ?thesis by (auto simp: prompt_inv_def own_def)
  next
    case (main_create f x k a)
    with assms(2) m show ?thesis
      by (auto simp: prompt_inv_def own_def main_inv_def nth_append less_Suc_eq)
  next
    case (thread i p)
    then have p: "serves (made_of s ! i) p"
      using assms(2) func_step [of "var_of s" p] serves_step by (auto simp: prompt_inv_def own_def)
    have "own s' j" if "j < length (threads_of s')" for j
      using assms(2) thread p that by (cases "i = j") (auto simp: prompt_inv_def own_def)
    moreover have "list_all (\<lambda>p. \<not> pending p) (threads_of s')" if "fresh_of s'"
      using assms(2) thread p that
      by (auto simp: prompt_inv_def list_all_iff serves_not_pending dest!: set_update_subset_insert [THEN subsetD])
    ultimately show ?thesis using m thread by (simp add: prompt_inv_def)
  qed (use assms(2) m in \<open>auto simp: prompt_inv_def own_def\<close>)
qed

lemma prompt_inv_start: "prompt_inv (start main junk)"
  using inv_start by (simp add: prompt_inv_def inv_def) (simp add: start_def)

lemma prompt_reachable: "rtranclp (prompt_step func) (start main junk) s \<Longrightarrow> prompt_inv s"
  by (induction rule: rtranclp_induct) (auto simp: prompt_inv_start intro: prompt_inv_step)

lemma serve_accepted:
  "rtranclp (step func) (start main junk) s \<Longrightarrow> length (threads_of s) \<le> cap \<and>
    (\<forall>p \<in> set (threads_of s). p = func \<or> (\<exists>fd \<in> set (results_of s). serves fd p))"
  using reachable_inv by (simp add: inv_def main_inv_def)

lemma serve_own:
  "rtranclp (prompt_step func) (start main junk) s \<Longrightarrow> i < length (threads_of s) \<Longrightarrow>
    threads_of s ! i = func \<and> var_of s = made_of s ! i \<or> serves (made_of s ! i) (threads_of s ! i)"
  using prompt_reachable [of junk s] by (simp add: prompt_inv_def own_def)

end

section \<open>The servers keep the contract\<close>

lemma obeys_local [simp]:
  "local_call c \<Longrightarrow> obeys (handoff_ok cap) handoff_upd m (Call c k) = (\<forall>a. obeys (handoff_ok cap) handoff_upd m (k a))"
  by simp

lemma obeys_out_exit [simp]:
  "obeys ok upd m (out_exit v s k) = (0 \<le> v \<longrightarrow> obeys ok upd m k)"
  by (simp add: out_exit_def)

lemma obeys_checks:
  assumes "local_call c" "\<And>r. obeys (handoff_ok cap) handoff_upd m (k r)"
  shows "obeys (handoff_ok cap) handoff_upd m (or_out_exit c msg k)"
    "obeys (handoff_ok cap) handoff_upd m (tried c msg k)"
  using assms by (simp_all add: or_out_exit_def tried_def)

definition counts :: "int \<Rightarrow> handoff \<Rightarrow> bool" where
  "counts c m = (int (h_count m) = c)"

lemma mt_turn_obeys:
  assumes "counts c m" "\<And>c' m'. counts c' m' \<Longrightarrow> obeys (handoff_ok 5) handoff_upd m' (k c')"
  shows "obeys (handoff_ok 5) handoff_upd m (mt_turn sfd c k)"
  using assms by (simp add: mt_turn_def counts_def)

lemma tss_turn_obeys:
  assumes "counts c m" "\<And>c' m'. counts c' m' \<Longrightarrow> obeys (handoff_ok 2) handoff_upd m' (k c')"
    and "\<And>fd m k. obeys (handoff_ok 2) handoff_upd m k \<Longrightarrow> obeys (handoff_ok 2) handoff_upd m (peer fd k)"
  shows "obeys (handoff_ok 2) handoff_upd m (tss_service_turn peer full sfd c k)"
  using assms(1,2) by (simp add: tss_service_turn_def counts_def Let_def) (auto intro!: assms(3))

lemma show_peer_obeys:
  "obeys (handoff_ok cap) handoff_upd m k \<Longrightarrow> obeys (handoff_ok cap) handoff_upd m (show_peer fd k)"
  by (simp add: show_peer_def)

lemma mt_main_obeys: "h_count m = 0 \<Longrightarrow> obeys (handoff_ok 5) handoff_upd m (mt_main n)"
  unfolding mt_main_def mt_listen_def
  by (intro obeys_checks obeys_forever_inv [where R = counts] mt_turn_obeys)
    (auto simp: counts_def)

lemma tss_mains_obey:
  assumes "h_count m = 0"
  shows "obeys (handoff_ok 2) handoff_upd m (service1_main n)"
    "obeys (handoff_ok 2) handoff_upd m (service2_main n)"
    "obeys (handoff_ok 2) handoff_upd m (service3_main n)"
proof -
  have loop: "obeys (handoff_ok 2) handoff_upd m (forever n (tss_service_turn peer full sfd) 0)"
    if "\<And>fd m k. obeys (handoff_ok 2) handoff_upd m k \<Longrightarrow> obeys (handoff_ok 2) handoff_upd m (peer fd k)"
    for peer full sfd
    by (rule obeys_forever_inv [where R = counts]) (use assms that tss_turn_obeys in \<open>auto simp: counts_def\<close>)
  show "obeys (handoff_ok 2) handoff_upd m (service1_main n)"
    "obeys (handoff_ok 2) handoff_upd m (service2_main n)"
    "obeys (handoff_ok 2) handoff_upd m (service3_main n)"
    unfolding service1_main_def service2_main_def service3_main_def tss_listen_def
    by (auto intro!: obeys_checks loop show_peer_obeys)
qed

lemma serve_loops:
  "serves fd (mt_serve n b fd)" "serves fd (tss_serve r n b fd)"
  unfolding mt_serve_def tss_serve_def serves_def
  by (auto intro!: always_forever [where I = "\<lambda>_. True"] simp: recv_into_def store_def Let_def only_fd_def)

interpretation mt: threaded "mt_main n" "mt_thread n' b" "\<lambda>v. mt_serve n' b (ret v)" 5 for n n' b
  by unfold_locales (simp_all add: mt_main_obeys mt_thread_def serve_loops)

interpretation svc1: threaded "service1_main n" "tss_thread r n' b" "\<lambda>v. tss_serve r n' b (ret v)" 2 for n r n' b
  by unfold_locales (simp_all add: tss_mains_obey tss_thread_def serve_loops)

interpretation svc2: threaded "service2_main n" "tss_thread r n' b" "\<lambda>v. tss_serve r n' b (ret v)" 2 for n r n' b
  by unfold_locales (simp_all add: tss_mains_obey tss_thread_def serve_loops)

interpretation svc3: threaded "service3_main n" "tss_thread r n' b" "\<lambda>v. tss_serve r n' b (ret v)" 2 for n r n' b
  by unfold_locales (simp_all add: tss_mains_obey tss_thread_def serve_loops)

section \<open>A scheduler\<close>

text \<open>
  One step chosen by a schedule: of main with an answer, or of a thread with one. What it drives
  is a run of the step relation.
\<close>

definition main_step :: "prog \<Rightarrow> ans \<Rightarrow> process \<Rightarrow> process option" where
  "main_step func a s = (case main_of s of
     Out t p \<Rightarrow> Some (s\<lparr>main_of := p\<rparr>)
   | Perror t p \<Rightarrow> Some (s\<lparr>main_of := p\<rparr>)
   | Call c k \<Rightarrow> (case c of
       Accept fd \<Rightarrow> Some (s\<lparr>main_of := k a, results_of := results_of s @ [ret a], fresh_of := True\<rparr>)
     | Setvar v \<Rightarrow> Some (s\<lparr>main_of := k a, var_of := v\<rparr>)
     | Pthread_create f x \<Rightarrow> Some (s\<lparr>main_of := k a, threads_of := threads_of s @ [func],
         made_of := made_of s @ [var_of s], fresh_of := False\<rparr>)
     | Getvar \<Rightarrow> None
     | _ \<Rightarrow> Some (s\<lparr>main_of := k a\<rparr>))
   | _ \<Rightarrow> None)"

definition get_step :: "nat \<Rightarrow> process \<Rightarrow> process option" where
  "get_step i s = (if alive s \<and> i < length (threads_of s) then
     (case threads_of s ! i of Call c k \<Rightarrow> (case c of Getvar \<Rightarrow>
        Some (s\<lparr>threads_of := (threads_of s)[i := k (rets (var_of s))]\<rparr>) | _ \<Rightarrow> None) | _ \<Rightarrow> None)
   else None)"

fun drive :: "prog \<Rightarrow> (ans + nat) list \<Rightarrow> process \<Rightarrow> process option" where
  "drive func [] s = Some s"
| "drive func (Inl a # cs) s = Option.bind (main_step func a s) (drive func cs)"
| "drive func (Inr i # cs) s = Option.bind (get_step i s) (drive func cs)"

lemma main_step_step: "main_step func a s = Some s' \<Longrightarrow> step func s s'"
  unfolding main_step_def
  by (auto split: prog.splits call.splits intro: step.intros main_call simp: local_call_def)

lemma get_step_step: "get_step i s = Some s' \<Longrightarrow> step func s s'"
  unfolding get_step_def
  by (auto split: if_splits prog.splits call.splits intro!: step.thread)

lemma drive_steps: "drive func cs s = Some s' \<Longrightarrow> rtranclp (step func) s s'"
proof (induction cs arbitrary: s)
  case (Cons c cs)
  then show ?case
    by (cases c) (auto simp: bind_eq_Some_conv intro: converse_rtranclp_into_rtranclp
      dest!: main_step_step get_step_step [where func = func])
qed simp

lemma threads_stay: "step func s s' \<Longrightarrow> threads_of s' = [] \<Longrightarrow> threads_of s = []"
  by (cases rule: step.cases) auto

lemma threads_stay_run: "rtranclp (step func) s s' \<Longrightarrow> threads_of s' = [] \<Longrightarrow> threads_of s = []"
  by (induction rule: rtranclp_induct) (auto dest: threads_stay)

text \<open>Before the first thread every step is prompt.\<close>

lemma drive_prompt:
  "drive func cs s = Some s' \<Longrightarrow> threads_of s' = [] \<Longrightarrow> rtranclp (prompt_step func) s s'"
proof (induction cs arbitrary: s)
  case (Cons c cs)
  then obtain s1 where s1: "step func s s1" "drive func cs s1 = Some s'"
    by (cases c) (auto simp: bind_eq_Some_conv dest!: main_step_step get_step_step [where func = func])
  have "threads_of s = []"
    using threads_stay_run [OF drive_steps [OF s1(2)] Cons.prems(2)] threads_stay [OF s1(1)] by simp
  with s1 Cons show ?case by (auto simp: prompt_step_def intro: converse_rtranclp_into_rtranclp)
qed simp

section \<open>What the threads serve\<close>

text \<open>A schedule for main alone: it accepts client 5; with one step more the thread is created.\<close>

definition one_client :: "(ans + nat) list" where
  "one_client = map (\<lambda>r. Inl (rets r)) [3, 0, 0, 0, 0, 5, 0, 0]"

definition one_thread :: "nat \<Rightarrow> string \<Rightarrow> string \<Rightarrow> process" where
  "one_thread n reply buffer = the (drive (tss_thread reply 1 buffer) (one_client @ [Inl (rets 0)]) (start (service1_main (Suc n)) 0))"

lemma one_thread_eq:
  "drive (tss_thread reply 1 buffer) one_client (start (service1_main (Suc n)) 0) =
     Some \<lparr>main_of = Call (Pthread_create ''func'' ''&nfd'') (\<lambda>_. forever n (tss_service_turn (\<lambda>_ k. k) (\<lambda>_. line disconnecting) 3) 1),
       var_of = 5, threads_of = [], results_of = [5], made_of = [], fresh_of = True\<rparr>"
  "one_thread n reply buffer = \<lparr>main_of = forever n (tss_service_turn (\<lambda>_ k. k) (\<lambda>_. line disconnecting) 3) 1,
     var_of = 5, threads_of = [tss_thread reply 1 buffer], results_of = [5], made_of = [5], fresh_of = False\<rparr>"
  by (simp_all add: one_thread_def one_client_def start_def service1_main_def tss_listen_def or_out_exit_def out_exit_def
      main_step_def alive_def tss_service_turn_def)

lemma one_thread_prompt:
  "rtranclp (prompt_step (tss_thread reply 1 buffer)) (start (service1_main (Suc n)) 0) (one_thread n reply buffer)"
proof -
  let ?s = "\<lparr>main_of = Call (Pthread_create ''func'' ''&nfd'') (\<lambda>_. forever n (tss_service_turn (\<lambda>_ k. k) (\<lambda>_. line disconnecting) 3) 1),
       var_of = 5, threads_of = [], results_of = [5], made_of = [], fresh_of = True\<rparr>"
  have "rtranclp (prompt_step (tss_thread reply 1 buffer)) (start (service1_main (Suc n)) 0) ?s"
    by (rule drive_prompt [OF one_thread_eq(1)]) simp
  moreover have "step (tss_thread reply 1 buffer) ?s (one_thread n reply buffer)"
    by (rule main_step_step [of _ "rets 0"]) (simp add: main_step_def one_thread_eq)
  then have "prompt_step (tss_thread reply 1 buffer) ?s (one_thread n reply buffer)" by (simp add: prompt_step_def)
  ultimately show ?thesis by (rule rtranclp.rtrancl_into_rtrancl)
qed

lemma one_thread_step:
  "rtranclp (step (tss_thread reply 1 buffer)) (start (service1_main (Suc n)) 0) (one_thread n reply buffer)"
  using one_thread_prompt by (rule rtranclp_mono [THEN predicate2D, rotated]) (auto simp: prompt_step_def)

text \<open>
  C10. However main and the threads of a time service are interleaved,
  and whatever the kernel answers, there are at most two threads, and each of them either has
  not read the variable yet or uses no descriptor but one that an accept of main returned.
\<close>

theorem tss_threads_serve_accepted:
  assumes "rtranclp (step (tss_thread reply n' buffer)) (start main junk) s"
    and "main \<in> {service1_main n, service2_main n, service3_main n}"
  shows "length (threads_of s) \<le> 2 \<and>
    (\<forall>p \<in> set (threads_of s). p = tss_thread reply n' buffer \<or> (\<exists>fd \<in> set (results_of s). serves fd p))"
  using assms svc1.serve_accepted svc2.serve_accepted svc3.serve_accepted by blast

theorem tss_threads_serve_accepted_witness:
  "length (threads_of (one_thread 2 ''ok'' ''buffer'')) \<le> 2 \<and> threads_of (one_thread 2 ''ok'' ''buffer'') \<noteq> []"
  using tss_threads_serve_accepted [OF one_thread_step [of "''ok''" "''buffer''" 2], of 3] by (simp add: one_thread_eq)



text \<open>
  C38. Without that the threads race: there is a run of service1 in
  which clients 5 and 6 are accepted and a thread is made for each, client 7 is disconnected,
  and then both threads serve descriptor 7, which main has closed, and neither 5 nor 6.
\<close>

definition racing :: "(ans + nat) list" where
  "racing = map (\<lambda>r. Inl (rets r)) [3, 0, 0, 0, 0, 5, 0, 0, 0, 6, 0, 0, 0, 7, 0, 0, 0] @ [Inr 0, Inr 1]"

theorem threads_share_last_client:
  "\<exists>s. rtranclp (step (tss_thread reply 1 buffer)) (start (service1_main (Suc (Suc (Suc (Suc n))))) junk) s \<and>
    results_of s = [5, 6, 7] \<and> made_of s = [5, 6] \<and>
    threads_of s = [tss_serve reply 1 buffer 7, tss_serve reply 1 buffer 7]"
proof -
  have "\<exists>s. drive (tss_thread reply 1 buffer) racing (start (service1_main (Suc (Suc (Suc (Suc n))))) junk) = Some s \<and>
    results_of s = [5, 6, 7] \<and> made_of s = [5, 6] \<and>
    threads_of s = [tss_serve reply 1 buffer 7, tss_serve reply 1 buffer 7]"
    by (simp add: racing_def start_def service1_main_def tss_listen_def or_out_exit_def out_exit_def
      main_step_def get_step_def alive_def tss_service_turn_def tss_thread_def)
  then show ?thesis using drive_steps by blast
qed

end
