(* ===== verification/CN_Pairs.thy ===== *)
theory CN_Pairs imports CN_Cascade CN_Pipes CN_Threads begin

text \<open>
  Clients and servers that exchange one message or echo messages: sockets, sockets1,
  mid/socketbasic, mid/permserver, end/unixsock and unixsockets/basic; and the programs that pass
  descriptors to another process: unixsockets/tss and unixsockets/printserver.
\<close>

section \<open>sockets and sockets1/concurrentserver: the text-book pair\<close>

text \<open>error prints the message and ends the program.\<close>

definition or_error :: "int \<Rightarrow> call \<Rightarrow> string \<Rightarrow> (ans \<Rightarrow> prog) \<Rightarrow> prog" where
  "or_error code c message k = Call c (\<lambda>a. if ret a < 0 then Perror message (Exit code) else k a)"

text \<open>The host's address is the first integer of the answer of gethostbyname.\<close>

definition connect_host :: "string list \<Rightarrow> (int \<Rightarrow> prog) \<Rightarrow> prog" where
  "connect_host argv k =
     (if length argv < 3 then Perror (line ''usage'') (Exit 0) else
     let portno = atoi (lit (argv ! 2)) in
     or_error 0 (Socket AF_INET SOCK_STREAM 0) ''ERROR opening socket'' (\<lambda>s.
     Call (Gethostbyname (argv ! 1)) (\<lambda>h.
     if ret h = 0 then Perror (line ''ERROR, no such host'') (Exit 0) else
     arr_get (ints h) 0 (\<lambda>address.
     or_error 0 (Connect (ret s) (Inet (htons_int portno) (word_of_int address))) ''ERROR connecting'' (\<lambda>_.
     k (ret s))))))"

definition message_client_main :: "string list \<Rightarrow> prog" where
  "message_client_main argv =
     connect_host argv (\<lambda>sockfd.
     Out ''Please enter the message: '' (
     fgets_into (zeros 256) 255 (\<lambda>buffer.
     or_error 0 (Write sockfd buffer (int (length (c_str buffer)))) ''ERROR writing to socket'' (\<lambda>_.
     Call (Read sockfd 255) (\<lambda>a. store 255 (zeros 256) a (\<lambda>buffer.
     if ret a < 0 then Perror ''ERROR reading from socket'' (Exit 0) else
     Out (line (c_str buffer)) (Call (Close sockfd) (\<lambda>_. Exit 0))))))))"

definition message_server_main :: "string list \<Rightarrow> prog" where
  "message_server_main argv =
     (if length argv < 2 then Perror (line ''ERROR, no port provided'') (Exit 1) else
     or_error 1 (Socket AF_INET SOCK_STREAM 0) ''ERROR opening socket'' (\<lambda>s.
     or_error 1 (Bind (ret s) (any_addr (atoi (lit (argv ! 1))))) ''ERROR on binding'' (\<lambda>_.
     Call (Listen (ret s) 5) (\<lambda>_.
     or_error 1 (Accept (ret s)) ''ERROR on accept'' (\<lambda>n.
     Call (Read (ret n) 255) (\<lambda>a. store 255 (zeros 256) a (\<lambda>buffer.
     if ret a < 0 then Perror ''ERROR reading from socket'' (Exit 1) else
     Out (line (''Here is the message: '' @ c_str buffer)) (
     or_error 1 (Write (ret n) ''I got your message'' 18) ''ERROR writing to socket'' (\<lambda>_.
     Call (Close (ret n)) (\<lambda>_. Call (Close (ret s)) (\<lambda>_. Exit 0)))))))))))"

definition service_client_turn :: "int \<Rightarrow> unit \<Rightarrow> (unit \<Rightarrow> prog) \<Rightarrow> prog" where
  "service_client_turn sockfd u again =
     fgets_into (zeros 256) 255 (\<lambda>buffer.
     or_error 0 (Write sockfd buffer (int (length (c_str buffer)))) ''ERROR writing to socket'' (\<lambda>_.
     if c_str buffer = line ''exit'' then Call (Close sockfd) (\<lambda>_. Exit 0) else
     read_into sockfd (zeros 256) 255 (\<lambda>buffer n.
     if 0 < n then Out (line (c_str buffer)) (again ()) else again ())))"

definition service_client_main :: "nat \<Rightarrow> string list \<Rightarrow> prog" where
  "service_client_main n argv =
     connect_host argv (\<lambda>sockfd.
     Out (line ''Send service number:'' @ line ''1.Lower'' @ line ''2.Upper'') (
     forever n (service_client_turn sockfd) ()))"

text \<open>In sockets1/iss/client.c error takes the value and does not look at it.\<close>

definition iss_client_main :: "string list \<Rightarrow> prog" where
  "iss_client_main argv =
     (if length argv < 3 then Undef else
     Call (Socket AF_INET SOCK_STREAM 0) (\<lambda>_. Perror ''creating socket'' (Exit 0)))"

section \<open>sockets1: an echo server\<close>

text \<open>print_error exits with the value that is negative.\<close>

definition or_print_error :: "call \<Rightarrow> string \<Rightarrow> (int \<Rightarrow> prog) \<Rightarrow> prog" where
  "or_print_error c message k = Call c (\<lambda>a. if ret a < 0 then Perror message (Exit (ret a)) else k (ret a))"

definition loopback :: "int \<Rightarrow> addr" where
  "loopback p = Inet (htons_int p) 0x0100007F"

definition clean :: "int \<Rightarrow> int \<Rightarrow> prog \<Rightarrow> prog" where
  "clean nsfd sfd k =
     Out (line ''Shutting down server.'') (Call (Shutdown nsfd) (\<lambda>_. Call (Shutdown sfd) (\<lambda>_. k)))"

definition echo_turn :: "int \<Rightarrow> string \<Rightarrow> (string \<Rightarrow> prog) \<Rightarrow> prog" where
  "echo_turn nsfd buffer again =
     recv_into nsfd buffer 256 (\<lambda>buffer read_size.
     if 0 < read_size then
       Out (line (''Message:'' @ c_str buffer)) (
       or_print_error (Send nsfd buffer 256) ''Failed to send message to client'' (\<lambda>_. again (zeros 256)))
     else Out (line ''Client disconnected'') (Exit 0))"

text \<open>The pointer that inet_ntoa returns is printed as a number, ptr.\<close>

definition echo_server_main :: "nat \<Rightarrow> int \<Rightarrow> string \<Rightarrow> prog" where
  "echo_server_main n ptr buffer =
     Call (Signal 2 ''clean'') (\<lambda>g.
     (if ret g = - 1 then Out (line ''Error in catching SIGINT'') else (\<lambda>p. p)) (
     or_print_error (Socket AF_INET SOCK_STREAM 0) ''error opening socket'' (\<lambda>sfd.
     or_print_error (Setsockopt sfd SO_REUSEADDR) ''setsockopt(SO_REUSEADDR) failed'' (\<lambda>_.
     or_print_error (Bind sfd (loopback 8888)) ''Failed to bind.'' (\<lambda>_.
     Call (Listen sfd 3) (\<lambda>_.
     Out (line ''Server is listening for connections.'') (
     or_print_error (Accept sfd) ''Failed in accepting connection'' (\<lambda>nsfd.
     Out (line (''Accepted connection from '' @ dec ptr)) (
     forever n (echo_turn nsfd) buffer)))))))))"

text \<open>gets has no limit; at the end of the input it leaves the buffer as it is.\<close>

definition echo_client_turn :: "int \<Rightarrow> string \<times> string \<Rightarrow> (string \<times> string \<Rightarrow> prog) \<Rightarrow> prog" where
  "echo_client_turn sfd = (\<lambda>(buffer, buffer1) again.
     Call Gets (\<lambda>g. (if 0 < ret g then put_str buffer (dat g) else (\<lambda>k. k buffer)) (\<lambda>buffer.
     if c_str buffer = ''exit'' then Exit 1 else
     or_print_error (Send sfd buffer 256) ''Failed to send message to server'' (\<lambda>_.
     Call (Recv sfd 256) (\<lambda>a. store 256 buffer1 a (\<lambda>buffer1.
     if ret a < 0 then Perror ''Failed to receive a reply from the server'' (Exit (ret a)) else
     Out (line (''Server:'' @ c_str buffer1)) (again (zeros 256, zeros 256))))))))"

definition echo_client_main :: "nat \<Rightarrow> string \<times> string \<Rightarrow> prog" where
  "echo_client_main n buffers =
     or_print_error (Socket AF_INET SOCK_STREAM 0) ''error opening socket'' (\<lambda>sfd.
     or_print_error (Connect sfd (loopback 8888)) ''could not connect to server.'' (\<lambda>_.
     Out (line ''connected to server'') (forever n (echo_client_turn sfd) buffers)))"

section \<open>One message each way\<close>

text \<open>mid/socketbasic, whose error_func prints only; mid/permserver stops after listen.\<close>

definition or_out :: "call \<Rightarrow> string \<Rightarrow> (int \<Rightarrow> prog) \<Rightarrow> prog" where
  "or_out c message k = Call c (\<lambda>a. (if ret a < 0 then Out message else (\<lambda>p. p)) (k (ret a)))"

definition basic_server_main :: "string \<Rightarrow> prog" where
  "basic_server_main buffer =
     or_out (Socket AF_INET SOCK_STREAM 0) ''error in socket call'' (\<lambda>sfd.
     or_out (Bind sfd (any_addr 8000)) ''error in bind'' (\<lambda>_.
     or_out (Listen sfd 3) ''error in listening'' (\<lambda>_.
     or_out (Accept sfd) ''error in accept'' (\<lambda>nsfd.
     recv_into nsfd buffer 30 (\<lambda>buffer _.
     Out (line (c_str buffer)) (
     Call (Sleep 10) (\<lambda>_. send_str nsfd (lit ''that was awesome from server'') 30 (Exit 0))))))))"

definition basic_client_main :: "string \<Rightarrow> prog" where
  "basic_client_main buffer =
     Call (Socket AF_INET SOCK_STREAM 0) (\<lambda>s.
     Call (Connect (ret s) (any_addr 8000)) (\<lambda>_.
     send_str (ret s) (lit ''that was aweosome'') 30 (
     recv_into (ret s) buffer 30 (\<lambda>buffer _. Out (line (c_str buffer)) (Exit 0)))))"

definition perm_server_main :: prog where
  "perm_server_main =
     tried (Socket AF_INET SOCK_STREAM 0) ''socket call error'' (\<lambda>sfd.
     tried (Bind sfd (any_addr 8000)) ''bind error'' (\<lambda>_.
     tried (Listen sfd 3) ''listen error'' (\<lambda>_. Exit 0)))"

definition unix_hai_server_main :: "string \<Rightarrow> prog" where
  "unix_hai_server_main buffer =
     noted (Socket AF_UNIX SOCK_STREAM 0) ''socket'' (\<lambda>usfd.
     Call (Unlink ''echo_socket'') (\<lambda>_.
     noted (Bind usfd (UnixPath ''echo_socket'')) ''bind'' (\<lambda>_.
     noted (Listen usfd 4) ''listen'' (\<lambda>_.
     noted (Accept usfd) ''accept'' (\<lambda>nfd.
     recv_into nfd buffer 30 (\<lambda>buffer _.
     Out (line (c_str buffer)) (send_str nfd (lit ''hai from server'') 30 (Exit 0))))))))"

definition unix_hai_client_main :: "string \<Rightarrow> prog" where
  "unix_hai_client_main buffer =
     Call (Socket AF_UNIX SOCK_STREAM 0) (\<lambda>s.
     noted (Connect (ret s) (UnixPath ''echo_socket'')) ''coonect'' (\<lambda>_.
     send_str (ret s) (lit ''hai from client'') 30 (
     recv_into (ret s) buffer 30 (\<lambda>buffer _. Out (line (c_str buffer)) (Exit 0)))))"

text \<open>unixsockets/basic: server.c and producer.c, client.c and p2.c have the same code.\<close>

definition unix_basic_server_main :: "string \<Rightarrow> prog" where
  "unix_basic_server_main buffer =
     unix_socket (\<lambda>sfd.
     Call (Unlink ''echo_socket'') (\<lambda>_.
     unix_listen sfd ''echo_socket'' (
     must (Accept sfd) ''accept error'' (\<lambda>nfd.
     recv_into nfd buffer 30 (\<lambda>buffer _.
     Out (line (c_str buffer)) (
     send_str nfd (lit ''hello from server'') 30 (
     Call (Close nfd) (\<lambda>_. Call (Close sfd) (\<lambda>_. Exit 0)))))))))"

definition unix_basic_client_main :: "string \<Rightarrow> prog" where
  "unix_basic_client_main buffer =
     unix_socket (\<lambda>sfd.
     unix_connect sfd ''echo_socket'' ''From client to server'' (
     recv_into sfd buffer 30 (\<lambda>buffer _.
     Out (line (c_str buffer)) (Call (Close sfd) (\<lambda>_. Exit 0)))))"

section \<open>unixsockets/tss: connections passed to a time server\<close>

definition pass_turn :: "int \<Rightarrow> int \<Rightarrow> string \<Rightarrow> (string \<Rightarrow> prog) \<Rightarrow> prog" where
  "pass_turn sfd sfds buffer again =
     must (Accept sfd) ''accept error'' (\<lambda>nfd.
     recv_into nfd buffer 30 (\<lambda>buffer _.
     Out (line (c_str buffer)) (send_file_descriptor sfds nfd (\<lambda>_. again buffer))))"

definition pass_main :: "nat \<Rightarrow> string \<Rightarrow> prog" where
  "pass_main n buffer =
     unix_socket (\<lambda>sfds.
     unix_connect sfds ''echo_socket'' ''From mainserver to server'' (
     unix_socket (\<lambda>sfd.
     Call (Unlink ''main_echo_socket'') (\<lambda>_.
     unix_listen sfd ''main_echo_socket'' (forever n (pass_turn sfd sfds) buffer)))))"

text \<open>The threads get the address of the one variable fd; there is room for three.\<close>

definition time_thread :: "nat \<Rightarrow> string \<Rightarrow> prog" where
  "time_thread n namebuffer =
     Call Getvar (\<lambda>v.
     Out (line ''thread started'') (forever n (serve_turn ''sending from server1'' (ret v)) namebuffer))"

definition time_turn :: "int \<Rightarrow> int \<Rightarrow> (int \<Rightarrow> prog) \<Rightarrow> prog" where
  "time_turn nfd clients_no again =
     recv_file_descriptor nfd (\<lambda>fd. Call (Setvar fd) (\<lambda>_.
     Out (line (''the descriptor is '' @ dec fd)) (
     Out (line ''client accepted'') (
     if 3 \<le> clients_no then Undef
     else Call (Pthread_create ''func'' ''&fd'') (\<lambda>_. again (clients_no + 1))))))"

definition time_main :: "nat \<Rightarrow> string \<Rightarrow> prog" where
  "time_main n buffer =
     unix_socket (\<lambda>sfd.
     Call (Unlink ''echo_socket'') (\<lambda>_.
     unix_listen sfd ''echo_socket'' (
     must (Accept sfd) ''accept error'' (\<lambda>nfd.
     recv_into nfd buffer 30 (\<lambda>buffer _.
     Out (line (c_str buffer)) (forever n (time_turn nfd) 0))))))"

definition time_client_main :: "nat \<Rightarrow> string \<Rightarrow> prog" where
  "time_client_main n buffer =
     unix_socket (\<lambda>sfd.
     unix_connect sfd ''main_echo_socket'' ''From client to mainserver'' (
     forever n (client_turn sfd) buffer))"

section \<open>unixsockets/printserver: a file shared by two processes\<close>

text \<open>
  The scanf pattern starts with the words parent bytes?; when they are not typed nbytes keeps its
  value. read takes nbytes as an unsigned long.
\<close>

definition share_turn :: "string \<Rightarrow> int \<Rightarrow> int \<times> string \<Rightarrow> (int \<times> string \<Rightarrow> prog) \<Rightarrow> prog" where
  "share_turn name fd = (\<lambda>(nbytes, buffer) again.
     scan_int nbytes (\<lambda>nbytes.
     read_into fd buffer (nbytes mod 2 ^ 64) (\<lambda>buffer _.
     Out (line (name @ '' :'' @ c_str buffer)) (Call (Sleep 3) (\<lambda>_. again (nbytes, buffer))))))"

definition share_child :: "nat \<Rightarrow> int \<Rightarrow> string \<Rightarrow> prog" where
  "share_child n nbytes buffer =
     Call (Sleep 5) (\<lambda>_.
     Out (line ''child process'') (
     tried (Socket AF_UNIX SOCK_STREAM 0) ''socket error'' (\<lambda>sfd.
     tried (Connect sfd (UnixPath ''echo_socket'')) ''connect error'' (\<lambda>_.
     recv_file_descriptor sfd (\<lambda>fd.
     Out (line (''fd is child: '' @ dec fd)) (
     forever n (share_turn ''child'' fd) (nbytes, buffer)))))))"

definition share_parent :: "nat \<Rightarrow> int \<Rightarrow> string \<Rightarrow> prog" where
  "share_parent n nbytes buffer =
     Out (line ''parent process'') (
     Call (Open ''sample.txt'' [O_RDWR]) (\<lambda>f. let fd = ret f in
     Out (line (''fd parent:'' @ dec fd)) (
     tried (Socket AF_UNIX SOCK_STREAM 0) ''socket error'' (\<lambda>sfd.
     Call (Unlink ''echo_socket'') (\<lambda>_.
     tried (Bind sfd (UnixPath ''echo_socket'')) ''bind error'' (\<lambda>_.
     tried (Listen sfd 5) ''listen error'' (\<lambda>_.
     tried (Accept sfd) ''accept error'' (\<lambda>nfd.
     send_file_descriptor nfd fd (\<lambda>_.
     forever n (share_turn ''parent'' fd) (nbytes, buffer))))))))))"

definition share_main :: "nat \<Rightarrow> int \<Rightarrow> string \<Rightarrow> prog" where
  "share_main n nbytes buffer =
     Call Fork (\<lambda>c. if ret c = 0 then share_child n nbytes buffer else share_parent n nbytes buffer)"

definition p1_main :: "string \<Rightarrow> prog" where
  "p1_main buffer =
     tried (Socket AF_UNIX SOCK_STREAM 0) ''socket error'' (\<lambda>sfd.
     Call (Unlink ''echo_socket1'') (\<lambda>_.
     tried (Bind sfd (UnixPath ''echo_socket1'')) ''bind error'' (\<lambda>_.
     tried (Listen sfd 5) ''listen error'' (\<lambda>_.
     tried (Accept sfd) ''accept error'' (\<lambda>nfd.
     recv_into nfd buffer 30 (\<lambda>buffer _.
     Out (line (c_str buffer)) (send_str nfd (lit ''hello from server'') 30 (Exit 0))))))))"

text \<open>
  server.c builds a message with the descriptor and does not send it, and reads a descriptor, junk,
  out of a buffer that nothing was received into. Its pauses of half seconds are given in whole ones.
\<close>

definition read_on :: "int \<Rightarrow> string \<Rightarrow> (string \<Rightarrow> prog) \<Rightarrow> prog" where
  "read_on fd buffer again =
     Call (Read fd 256) (\<lambda>a. store 256 buffer a (\<lambda>buffer.
     if 0 < ret a then write_str 1 buffer (ret a) (again buffer)
     else Out (line ''Done!'') (Call (Close fd) (\<lambda>_. Exit 0))))"

definition print_main :: "nat \<Rightarrow> int \<Rightarrow> string \<Rightarrow> prog" where
  "print_main n junk buffer =
     Call (Socketpair AF_UNIX SOCK_STREAM 0) (\<lambda>sv.
     arr_get (ints sv) 0 (\<lambda>sv0. arr_get (ints sv) 1 (\<lambda>sv1.
     Call Fork (\<lambda>pid.
     if 0 < ret pid then
       Out (line ''Parent at work'') (
       Call (Close sv1) (\<lambda>_.
       Call (Open ''sample.txt'' [O_RDONLY]) (\<lambda>f.
       (if ret f < 0 then Out (line ''unable to open file'') else (\<lambda>p. p)) (
       Call (Close (ret f)) (\<lambda>_.
       Call (Sleep 1) (\<lambda>_. Out (line ''Parent exits'') (Exit 0)))))))
     else
       Out (line ''Child at play'') (
       Call (Close sv0) (\<lambda>_.
       Call (Sleep 0) (\<lambda>_.
       Out (line (''Extracted fd '' @ dec junk)) (
       Out (line (''Read '' @ dec junk @ ''!'')) (
       read_into junk buffer 256 (\<lambda>buffer _.
       Out (line (c_str buffer)) (forever n (read_on junk) buffer)))))))))))"

section \<open>The echo\<close>

text \<open>A message that is typed at the client of sockets1 comes back, for every message in turn.\<close>

lemma c_str_typed: "no_nul s \<Longrightarrow> length s < 256 \<Longrightarrow> c_str (overwrite (zeros 256) (lit s)) = s"
  by (rule c_str_overwrite_lit)

text \<open>
  C26. For messages of fewer than 256 characters other than exit, one after the other,
  the echo client of sockets1 sends each in a buffer of 256 bytes; the server, which is given
  these buffers, prints the messages and sends the same buffers back; and the client that is
  given them prints the messages that were typed.
\<close>

theorem echo_returns:
  assumes "\<forall>s \<in> set ms. no_nul s \<and> length s < 256 \<and> s \<noteq> ''exit''"
  defines "bufs \<equiv> map (\<lambda>s. overwrite (zeros 256) (lit s)) ms"
  shows "sent sfd (calls (trace (forever (length ms) (echo_client_turn sfd) (zeros 256, zeros 256))
      (concat (map (\<lambda>s. [\<lparr>ret = 1, dat = s, ints = []\<rparr>, rets 256, gives (overwrite (zeros 256) (lit s))]) ms)))) = bufs \<and>
    printed (trace (forever (length ms) (echo_turn nsfd) (zeros 256))
      (concat (map (\<lambda>b. [gives b, rets 256]) bufs))) = map (\<lambda>s. line (''Message:'' @ s)) ms \<and>
    sent nsfd (calls (trace (forever (length ms) (echo_turn nsfd) (zeros 256))
      (concat (map (\<lambda>b. [gives b, rets 256]) bufs)))) = bufs \<and>
    printed (trace (forever (length ms) (echo_client_turn sfd) (zeros 256, zeros 256))
      (concat (map (\<lambda>s. [\<lparr>ret = 1, dat = s, ints = []\<rparr>, rets 256, gives (overwrite (zeros 256) (lit s))]) ms))) =
      map (\<lambda>s. line (''Server:'' @ s)) ms"
proof -
  have ow: "overwrite (zeros 256) (overwrite (zeros 256) (lit s)) = overwrite (zeros 256) (lit s)"
    "length (overwrite (zeros 256) (lit s)) = 256" if "length s < 256" for s
    using that by (simp_all add: overwrite_def length_zeros length_lit)
  show ?thesis using assms(1) unfolding bufs_def
    by (induction ms)
      (simp_all add: echo_client_turn_def echo_turn_def or_print_error_def c_str_typed ow length_zeros)
qed

theorem echo_returns_witness:
  "printed (trace (forever (length [''hi'']) (echo_client_turn 3) (zeros 256, zeros 256))
      (concat (map (\<lambda>s. [\<lparr>ret = 1, dat = s, ints = []\<rparr>, rets 256, gives (overwrite (zeros 256) (lit s))]) [''hi'']))) =
    map (\<lambda>s. line (''Server:'' @ s)) [''hi'']"
  by (rule echo_returns [THEN conjunct2, THEN conjunct2, THEN conjunct2]) (simp_all add: no_nul_def)

text \<open>The fourth connection that is passed to the time server overruns its array of threads.\<close>

lemma time_server_fourth:
  "final_of (time_turn nfd 3 again) [passed fd, rets 0] = Undefined"
  by (simp add: time_turn_def)

end
