(* ===== verification/CN_Rpc.thy ===== *)
theory CN_Rpc imports CN_Sockets begin

text \<open>
  The small remote procedures: rpc/arraysum, rpc/square and end/rpc/add with their clients, and
  list_client.c with list_server.c, which sum a linked list. A server procedure keeps its result
  in a static variable; it is a program that goes on with the variable's new value. The stubs that
  rpcgen generates are the two calls Clnt_create and Clnt_call.
\<close>

section \<open>Sums of arrays\<close>

text \<open>The array has a fixed number of elements; the sum of ints must be an int.\<close>

record numbers =
  amount :: int
  nums :: "int list"

definition add_int :: "int \<Rightarrow> int \<Rightarrow> (int \<Rightarrow> prog) \<Rightarrow> prog" where
  "add_int a b k = (if int32 (a + b) then k (a + b) else Undef)"

definition sum_loop :: "numbers \<Rightarrow> int \<Rightarrow> (int \<Rightarrow> prog) \<Rightarrow> prog" where
  "sum_loop argp result k =
     for_each [0..<nat (amount argp)] (\<lambda>i r k. arr_get (nums argp) (int i) (\<lambda>x. add_int r x k)) result k"

definition arraysum_svc :: "numbers \<Rightarrow> int \<Rightarrow> (int \<Rightarrow> prog) \<Rightarrow> prog" where
  "arraysum_svc argp result k =
     Out (line (''Got a request of size '' @ dec (amount argp))) (sum_loop argp result k)"

definition add_svc :: "numbers \<Rightarrow> int \<Rightarrow> (int \<Rightarrow> prog) \<Rightarrow> prog" where
  "add_svc argp result k = Out (line (dec (amount argp))) (sum_loop argp 0 k)"

definition square_svc :: "int \<Rightarrow> int \<Rightarrow> (int \<Rightarrow> prog) \<Rightarrow> prog" where
  "square_svc num result k =
     Out (line (''Got a request Number '' @ dec num)) (if int32 (num * num) then k (num * num) else Undef)"

section \<open>Their clients\<close>

text \<open>
  A client that cannot be created ends the program; a call that fails gives a null pointer, which
  is read.
\<close>

definition with_client :: "string list \<Rightarrow> int \<Rightarrow> prog \<Rightarrow> prog" where
  "with_client argv program k =
     (case argv of [] \<Rightarrow> Undef
      | [name] \<Rightarrow> Out (line (''usage: '' @ name @ '' server_host'')) (Exit 1)
      | name # host # _ \<Rightarrow>
          Call (Clnt_create host program 1) (\<lambda>c. if ret c = 0 then Perror host (Exit 1) else k))"

definition call_1 :: "int list \<Rightarrow> (int \<Rightarrow> prog) \<Rightarrow> prog" where
  "call_1 args k =
     Call (Clnt_call 1 [] args) (\<lambda>a. if ret a = 0 then Perror ''call failed'' Undef else arr_get (ints a) 0 k)"

definition scan_nums :: "numbers \<Rightarrow> (numbers \<Rightarrow> prog) \<Rightarrow> prog" where
  "scan_nums arg k =
     read_ints (nat (amount arg)) (nums arg) (\<lambda>xs. k (arg\<lparr>nums := xs\<rparr>))"

definition arraysum_client :: "numbers \<Rightarrow> string list \<Rightarrow> prog" where
  "arraysum_client arg argv =
     with_client argv 0x1fffffff (
     Out ''Enter Array Size: '' (
     scan_int (amount arg) (\<lambda>n.
     Out ''Enter Numbers: '' (
     scan_nums (arg\<lparr>amount := n\<rparr>) (\<lambda>arg.
     call_1 (amount arg # nums arg) (\<lambda>s. Out (line (''Sum: '' @ dec s)) (Exit 0)))))))"

definition add_client :: "numbers \<Rightarrow> string list \<Rightarrow> prog" where
  "add_client arg argv =
     with_client argv 0x1fffffff (
     scan_int (amount arg) (\<lambda>n.
     scan_nums (arg\<lparr>amount := n\<rparr>) (\<lambda>arg.
     call_1 (amount arg # nums arg) (\<lambda>s. Out (line (dec s)) (Exit 0)))))"

definition square_client :: "int \<Rightarrow> string list \<Rightarrow> prog" where
  "square_client num argv =
     with_client argv 0x1fffffff (
     Out (''Enter Number: '' @ [newline]) (
     scan_int num (\<lambda>num. call_1 [num] (\<lambda>s. Out (line (dec s)) (Exit 0)))))"

section \<open>A linked list\<close>

text \<open>
  The nodes that malloc gave, by address: the number x and the next node; the field y is not used.
  free is the next address.
  add_list_1_svc walks the list in n steps at most.
\<close>

record store =
  cells :: "nat \<rightharpoonup> int \<times> nat option"
  free :: nat

partial_function (option) last_node :: "(nat \<rightharpoonup> int \<times> nat option) \<Rightarrow> nat \<Rightarrow> nat option" where
  "last_node h a =
     (case h a of None \<Rightarrow> None
      | Some (x, None) \<Rightarrow> Some a
      | Some (x, Some b) \<Rightarrow> last_node h b)"

definition new_node :: "int \<Rightarrow> store \<Rightarrow> nat \<times> store" where
  "new_node x st = (free st, \<lparr>cells = (cells st)(free st \<mapsto> (x, None)), free = free st + 1\<rparr>)"

definition mknode :: "int \<Rightarrow> nat option \<times> store \<Rightarrow> (nat option \<times> store) option" where
  "mknode x = (\<lambda>(head, st). let (a, st') = new_node x st in
     case head of None \<Rightarrow> Some (Some a, st')
     | Some h \<Rightarrow>
       (case last_node (cells st) h of None \<Rightarrow> None
        | Some l \<Rightarrow> Some (head, st'\<lparr>cells := (cells st')(l \<mapsto> (fst (the (cells st l)), Some a))\<rparr>)))"

definition list_nodes :: "(nat option \<times> store) option" where
  "list_nodes = Option.bind (mknode 1 (None, \<lparr>cells = Map.empty, free = 0\<rparr>)) (\<lambda>s.
     Option.bind (mknode 2 s) (\<lambda>s. Option.bind (mknode 102 s) (mknode 40)))"

primrec sum_nodes :: "nat \<Rightarrow> (nat \<rightharpoonup> int \<times> nat option) \<Rightarrow> nat option \<Rightarrow> int \<Rightarrow> (int \<Rightarrow> prog) \<Rightarrow> prog" where
  "sum_nodes 0 h temp result k = Cut"
| "sum_nodes (Suc n) h temp result k =
     (case temp of None \<Rightarrow> k result
      | Some a \<Rightarrow> (case h a of None \<Rightarrow> Undef
        | Some (x, next) \<Rightarrow>
            add_int result x (\<lambda>result. Out (dec x @ '', '') (sum_nodes n h next result k))))"

definition add_list_svc :: "nat \<Rightarrow> (nat \<rightharpoonup> int \<times> nat option) \<Rightarrow> nat option \<Rightarrow> (int \<Rightarrow> prog) \<Rightarrow> prog" where
  "add_list_svc n h argp k =
     Out ''Numbers are: { '' (sum_nodes n h argp 0 (\<lambda>result. Out (line ''}'') (k result)))"

text \<open>The client sends the list by its contents, from its head on.\<close>

fun contents :: "nat \<Rightarrow> (nat \<rightharpoonup> int \<times> nat option) \<Rightarrow> nat option \<Rightarrow> int list" where
  "contents 0 h p = []"
| "contents (Suc n) h None = []"
| "contents (Suc n) h (Some a) = (case h a of None \<Rightarrow> [] | Some (x, next) \<Rightarrow> x # contents n h next)"

definition list_client :: "string list \<Rightarrow> prog" where
  "list_client argv =
     with_client argv 0x2fffffff (
     case list_nodes of None \<Rightarrow> Undef
     | Some (head, st) \<Rightarrow>
         call_1 (contents (free st) (cells st) head) (\<lambda>s. Out (line (''Sum is : '' @ dec s)) (Exit 0)))"

section \<open>Sums\<close>

definition sums_are_ints :: "int \<Rightarrow> int list \<Rightarrow> bool" where
  "sums_are_ints r xs = (\<forall>i \<le> length xs. int32 (r + sum_list (take i xs)))"

lemma sums_are_ints_Cons: "sums_are_ints r (x # xs) = (int32 r \<and> sums_are_ints (r + x) xs)"
proof
  assume s: "sums_are_ints r (x # xs)"
  then have "int32 (r + sum_list (take 0 (x # xs)))" unfolding sums_are_ints_def by blast
  moreover have "int32 (r + x + sum_list (take i xs))" if "i \<le> length xs" for i
    using s [unfolded sums_are_ints_def, rule_format, of "Suc i"] that by (simp add: add.assoc)
  ultimately show "int32 r \<and> sums_are_ints (r + x) xs" by (simp add: sums_are_ints_def)
next
  assume s: "int32 r \<and> sums_are_ints (r + x) xs"
  show "sums_are_ints r (x # xs)" unfolding sums_are_ints_def
  proof (intro allI impI)
    show "int32 (r + sum_list (take i (x # xs)))" if "i \<le> length (x # xs)" for i
      using s that by (cases i) (simp_all add: sums_are_ints_def add.assoc)
  qed
qed

lemma sums_are_ints_Nil: "sums_are_ints r [] = int32 r"
  by (simp add: sums_are_ints_def)

lemma sums_are_ints_hd: "sums_are_ints r xs \<Longrightarrow> int32 r"
  by (simp add: sums_are_ints_def) (metis add_0_right le0 sum_list.Nil take_0)

lemma for_each_sum:
  assumes "i + n \<le> length xs" "sums_are_ints r (take n (drop i xs))"
  shows "for_each [i..<i + n] (\<lambda>i r k. arr_get xs (int i) (\<lambda>x. add_int r x k)) r k =
    k (r + sum_list (take n (drop i xs)))"
  using assms
proof (induction n arbitrary: i r)
  case (Suc n)
  then have d: "drop i xs = xs ! i # drop (Suc i) xs" by (simp add: Cons_nth_drop_Suc)
  have r: "int32 r" "sums_are_ints (r + xs ! i) (take n (drop (Suc i) xs))"
    using Suc.prems(2) by (simp_all add: d sums_are_ints_Cons)
  have "[i..<i + Suc n] = i # [Suc i..<Suc i + n]" by (simp add: upt_conv_Cons)
  then show ?case
    using Suc.IH [of "Suc i" "r + xs ! i"] Suc.prems(1) r sums_are_ints_hd [OF r(2)]
    by (simp add: add_int_def d add.assoc)
qed simp

text \<open>The requests of a run are well-formed: the numbers they ask for are in the array.\<close>

definition request_of :: "numbers \<Rightarrow> int list" where
  "request_of q = take (nat (amount q)) (nums q)"

lemma sum_loop_eq:
  assumes "amount q \<le> int (length (nums q))" "sums_are_ints r (request_of q)"
  shows "sum_loop q r k = k (r + sum_list (request_of q))"
  using for_each_sum [of 0 "nat (amount q)" "nums q" r k] assms by (simp add: sum_loop_def request_of_def)

text \<open>A server that answers requests one after the other: the static variable and the replies.\<close>

definition serve_requests :: "(numbers \<Rightarrow> int \<Rightarrow> (int \<Rightarrow> prog) \<Rightarrow> prog) \<Rightarrow> numbers list \<Rightarrow> (int \<times> int list \<Rightarrow> prog) \<Rightarrow> prog" where
  "serve_requests svc qs k =
     for_each qs (\<lambda>q (r, replies) k. svc q r (\<lambda>r. k (r, replies @ [r]))) (0, []) k"

lemma sums_are_ints_append:
  "sums_are_ints r (xs @ ys) \<Longrightarrow> sums_are_ints r xs \<and> sums_are_ints (r + sum_list xs) ys"
proof (induction xs arbitrary: r)
  case Nil
  then show ?case using sums_are_ints_hd [OF Nil [simplified]] by (simp add: sums_are_ints_def)
next
  case (Cons x xs)
  then show ?case using Cons.IH [of "r + x"] by (simp add: sums_are_ints_Cons add.assoc)
qed

definition request_sum :: "numbers \<Rightarrow> int" where
  "request_sum q = sum_list (request_of q)"

definition fits :: "numbers \<Rightarrow> bool" where
  "fits q = (amount q \<le> int (length (nums q)))"

lemma serve_arraysum:
  assumes "\<forall>q \<in> set qs. fits q" "sums_are_ints r (concat (map request_of qs))"
  shows "final_of (for_each qs (\<lambda>q (r, replies) k. arraysum_svc q r (\<lambda>r. k (r, replies @ [r]))) (r, rs) k) as =
    final_of (k (r + sum_list (map request_sum qs),
      rs @ map (\<lambda>i. r + sum_list (take (Suc i) (map request_sum qs))) [0..<length qs])) as"
  using assms
proof (induction qs arbitrary: r rs)
  case (Cons q qs)
  from sums_are_ints_append [of r "request_of q"] Cons.prems(2)
  have s: "sums_are_ints r (request_of q)" "sums_are_ints (r + request_sum q) (concat (map request_of qs))"
    by (simp_all add: request_sum_def)
  have "amount q \<le> int (length (nums q))" using Cons.prems(1) by (simp add: fits_def)
  from sum_loop_eq [OF this s(1)] Cons.IH [OF _ s(2), of "rs @ [r + request_sum q]"] Cons.prems(1)
  show ?case
    by (simp add: arraysum_svc_def request_sum_def map_upt_Suc add.assoc del: upt_Suc)
qed simp

lemma serve_add:
  assumes "\<forall>q \<in> set qs. fits q \<and> sums_are_ints 0 (request_of q)"
  shows "\<exists>r'. final_of (for_each qs (\<lambda>q (r, replies) k. add_svc q r (\<lambda>r. k (r, replies @ [r]))) (r, rs) k) as =
    final_of (k (r', rs @ map request_sum qs)) as"
  using assms
proof (induction qs arbitrary: r rs)
  case Nil
  show ?case by auto
next
  case (Cons q qs)
  have "amount q \<le> int (length (nums q))" "sums_are_ints 0 (request_of q)"
    using Cons.prems by (simp_all add: fits_def)
  from sum_loop_eq [OF this] Cons.IH [of "request_sum q" "rs @ [request_sum q]"] Cons.prems
  show ?case by (simp add: add_svc_def request_sum_def)
qed

text \<open>
  C30. Of the two servers that sum arrays, that of rpc/arraysum never resets its
  static variable: to the requests qs it replies with the sums of all numbers it was sent so far,
  while the server of end/rpc replies with the sum of each request; as long as all these sums are
  ints and the requests ask for numbers that are in their arrays.
\<close>

theorem arraysum_accumulates:
  assumes "\<forall>q \<in> set qs. fits q \<and> sums_are_ints 0 (request_of q)"
    and "sums_are_ints 0 (concat (map request_of qs))"
  shows "final_of (serve_requests arraysum_svc qs (\<lambda>(r, replies). P replies)) as =
      final_of (P (map (\<lambda>i. sum_list (take (Suc i) (map request_sum qs))) [0..<length qs])) as \<and>
    final_of (serve_requests add_svc qs (\<lambda>(r, replies). P replies)) as = final_of (P (map request_sum qs)) as"
  using serve_arraysum [of qs 0 "[]" "\<lambda>(r, replies). P replies" as] serve_add [of qs 0 "[]" "\<lambda>(r, replies). P replies" as] assms
  by (auto simp: serve_requests_def)

theorem arraysum_accumulates_witness:
  "final_of (serve_requests arraysum_svc [\<lparr>amount = 2, nums = [3, 4]\<rparr>, \<lparr>amount = 1, nums = [5]\<rparr>]
      (\<lambda>(r, replies). Exit (last replies))) [] = Exited 12 \<and>
   final_of (serve_requests add_svc [\<lparr>amount = 2, nums = [3, 4]\<rparr>, \<lparr>amount = 1, nums = [5]\<rparr>]
      (\<lambda>(r, replies). Exit (last replies))) [] = Exited 5"
proof -
  have s: "sums_are_ints 0 [3, 4]" "sums_are_ints 0 [5]" "sums_are_ints 0 [3, 4, 5]"
    by (simp_all add: sums_are_ints_Cons sums_are_ints_Nil int32_def)
  show ?thesis
    using arraysum_accumulates [of "[\<lparr>amount = 2, nums = [3, 4]\<rparr>, \<lparr>amount = 1, nums = [5]\<rparr>]" "\<lambda>rs. Exit (last rs)" "[]"] s
    by (simp add: fits_def request_of_def request_sum_def)
qed

section \<open>The linked list\<close>

text \<open>The nodes of a list, with their addresses.\<close>

fun nodes :: "(nat \<rightharpoonup> int \<times> nat option) \<Rightarrow> nat option \<Rightarrow> (nat \<times> int) list \<Rightarrow> bool" where
  "nodes h p [] = (p = None)"
| "nodes h p ((a, x) # l) = (p = Some a \<and> (\<exists>n. h a = Some (x, n) \<and> nodes h n l))"

definition valid_list :: "nat option \<times> store \<Rightarrow> (nat \<times> int) list \<Rightarrow> bool" where
  "valid_list = (\<lambda>(p, st) l. nodes (cells st) p l \<and> distinct (map fst l) \<and> (\<forall>a \<in> fst ` set l. a < free st))"

lemma last_node_eq:
  "nodes h (Some a) l \<Longrightarrow> last_node h a = Some (fst (last l)) \<and> h (fst (last l)) = Some (snd (last l), None)"
proof (induction l arbitrary: a)
  case (Cons c l)
  obtain b x where c: "c = (b, x)" by (cases c)
  with Cons.prems obtain n where n: "b = a" "h a = Some (x, n)" "nodes h n l" by auto
  show ?case
  proof (cases n)
    case None
    with n(3) have "l = []" by (cases l) auto
    with None n c show ?thesis by (simp add: last_node.simps)
  next
    case (Some d)
    with n(3) have "l \<noteq> []" by auto
    with Some Cons.IH [of d] n c show ?thesis by (simp add: last_node.simps)
  qed
qed simp

lemma nodes_snoc:
  assumes "nodes h p l" "l \<noteq> []" "distinct (map fst l)" "b \<notin> fst ` set l"
  shows "nodes (h(b \<mapsto> (y, None), fst (last l) \<mapsto> (snd (last l), Some b))) p (l @ [(b, y)])"
  using assms
proof (induction l arbitrary: p)
  case (Cons c l)
  obtain a x where c: "c = (a, x)" by (cases c)
  show ?case
  proof (cases "l = []")
    case True
    with Cons.prems c show ?thesis by auto
  next
    case False
    have "a \<noteq> fst (last l)" "a \<noteq> b" using Cons.prems(3,4) False c by auto
    with Cons False c show ?thesis by auto
  qed
qed simp

text \<open>
  C16. mknode refines appending to a list: on a list in memory, with distinct
  addresses below the next free one, it ends, and gives the list with the number at the end in the
  node that malloc gave; the other nodes keep their addresses and numbers.
\<close>

theorem mknode_appends:
  assumes "valid_list (head, st) l"
  shows "\<exists>s. mknode x (head, st) = Some s \<and> valid_list s (l @ [(free st, x)])"
proof (cases l)
  case Nil
  with assms show ?thesis by (auto simp: valid_list_def mknode_def new_node_def)
next
  case (Cons c l')
  note v = assms [unfolded valid_list_def, simplified]
  obtain a where head: "head = Some a" using v Cons by (cases c) auto
  let ?l = "fst (last l)"
  have last: "last_node (cells st) a = Some ?l" "cells st ?l = Some (snd (last l), None)"
    using last_node_eq [of "cells st" a l] v head by auto
  have ne: "l \<noteq> []" using Cons by simp
  have "?l \<noteq> free st" using v last_in_set [OF ne] by fastforce
  moreover have fresh: "free st \<notin> fst ` set l" using v by fastforce
  ultimately have "valid_list (head, \<lparr>cells = (cells st)(free st \<mapsto> (x, None), ?l \<mapsto> (snd (last l), Some (free st))), free = Suc (free st)\<rparr>)
      (l @ [(free st, x)])"
    using nodes_snoc [of "cells st" head l "free st" x] v ne by (fastforce simp: valid_list_def)
  then show ?thesis using last by (simp add: mknode_def new_node_def head)
qed

theorem mknode_appends_witness:
  "\<exists>s. mknode 7 (None, \<lparr>cells = Map.empty, free = 0\<rparr>) = Some s \<and> valid_list s [(0, 7)]"
  using mknode_appends [of None "\<lparr>cells = Map.empty, free = 0\<rparr>" "[]" 7] by (simp add: valid_list_def)

lemma sum_nodes_eq:
  assumes "nodes h p l" "length l < n" "sums_are_ints r (map snd l)"
  shows "final_of (sum_nodes n h p r k) as = final_of (k (r + sum_list (map snd l))) as"
  using assms
proof (induction l arbitrary: p n r)
  case Nil
  then show ?case by (cases n) simp_all
next
  case (Cons c l)
  obtain a x m where c: "c = (a, x)" "n = Suc m" using Cons.prems(2) by (cases c; cases n) auto
  with Cons.prems obtain q where q: "p = Some a" "h a = Some (x, q)" "nodes h q l" by auto
  have s: "sums_are_ints (r + x) (map snd l)" using Cons.prems(3) by (simp add: c sums_are_ints_Cons)
  from Cons.IH [OF q(3) _ s, of m] Cons.prems(2) c q sums_are_ints_hd [OF s]
  show ?case by (simp add: add_int_def add.assoc)
qed

lemma add_list_svc_sum:
  assumes "valid_list (p, st) l" "length l < n" "sums_are_ints 0 (map snd l)"
  shows "final_of (add_list_svc n (cells st) p k) as = final_of (k (sum_list (map snd l))) as"
  using assms sum_nodes_eq [of "cells st" p l n 0] by (simp add: add_list_svc_def valid_list_def)

text \<open>The four nodes that the client makes.\<close>

lemma list_client_nodes:
  "map_option (\<lambda>(head, st). contents (free st) (cells st) head) list_nodes = Some [1, 2, 102, 40]"
  by (simp add: list_nodes_def mknode_def new_node_def last_node.simps eval_nat_numeral)

end
