(* ===== verification/CN_Xdr.thy ===== *)
theory CN_Xdr imports CN_Nfs CN_Rpc "HOL-Library.Monad_Syntax" begin

text \<open>
  The XDR filters that rpcgen generated: rpc/nfs/nfs_xdr.c, end/rpc/add_xdr.c and
  rpc/square/square_xdr.c. A filter works on a stream in the direction of its x_op field. The
  primitive filters are library code and parameters of the model, with the external form that
  their documentation gives them as the laws of a locale. The lemmas show that each generated
  filter writes one byte string for a value, reads the value back from it, and that the inline
  and the call by call branches of xdr_numbers write the same bytes.
\<close>

section \<open>Streams\<close>

datatype xdr_op = XDR_ENCODE | XDR_DECODE | XDR_FREE

text \<open>The bytes written so far and the room behind them, or the bytes that are left to read.\<close>

record xdr =
  x_op :: xdr_op
  x_data :: string
  x_handy :: nat

definition encoder :: "nat \<Rightarrow> xdr" where
  "encoder room = \<lparr>x_op = XDR_ENCODE, x_data = [], x_handy = room\<rparr>"

definition decoder :: "string \<Rightarrow> xdr" where
  "decoder bs = \<lparr>x_op = XDR_DECODE, x_data = bs, x_handy = length bs\<rparr>"

definition freer :: xdr where
  "freer = \<lparr>x_op = XDR_FREE, x_data = [], x_handy = 0\<rparr>"

definition put_bytes :: "string \<Rightarrow> xdr \<Rightarrow> xdr" where
  "put_bytes bs s = s\<lparr>x_data := x_data s @ bs, x_handy := x_handy s - length bs\<rparr>"

definition skip_bytes :: "nat \<Rightarrow> xdr \<Rightarrow> xdr" where
  "skip_bytes n s = s\<lparr>x_data := drop n (x_data s), x_handy := x_handy s - n\<rparr>"

text \<open>A unit of the external form: four bytes, the most significant first.\<close>

definition be32 :: "32 word \<Rightarrow> string" where
  "be32 w = map (\<lambda>i. char_of (uint w div 2 ^ i)) [24, 16, 8, 0]"

definition of_be32 :: "string \<Rightarrow> 32 word" where
  "of_be32 bs = word_of_int (foldl (\<lambda>v c. 256 * v + of_char c) 0 (take 4 bs))"

text \<open>A C char is signed: it is widened to a unit with its sign.\<close>

definition char_unit :: "char \<Rightarrow> 32 word" where
  "char_unit c = (let n = of_char c in word_of_int (if 128 \<le> n then n - 256 else n))"

section \<open>The library\<close>

text \<open>
  A filter gives the stream behind the value and the value: the one it was given when it writes,
  the one it read when it reads; None is FALSE. xdr_inline tells whether the stream offers its
  next bytes as an array.
\<close>

type_synonym 'a filter = "xdr \<Rightarrow> 'a \<Rightarrow> (xdr \<times> 'a) option"

record xdrlib =
  xdr_int :: "int filter"
  xdr_u_int :: "32 word filter"
  xdr_char :: "char filter"
  xdr_inline :: "xdr \<Rightarrow> nat \<Rightarrow> bool"

text \<open>xdr_vector applies the filter of the elements to each element of an array of fixed length.\<close>

primrec xdr_elems :: "'a filter \<Rightarrow> xdr \<Rightarrow> 'a list \<Rightarrow> (xdr \<times> 'a list) option" where
  "xdr_elems f s [] = Some (s, [])"
| "xdr_elems f s (x # xs) = do {(s, y) \<leftarrow> f s x; (s, ys) \<leftarrow> xdr_elems f s xs; Some (s, y # ys)}"

definition xdr_vector :: "nat \<Rightarrow> 'a filter \<Rightarrow> 'a list filter" where
  "xdr_vector n f s xs = (if length xs = n then xdr_elems f s xs else None)"

section \<open>The generated filters\<close>

definition xdr_bufnode :: "xdrlib \<Rightarrow> bufnode filter" where
  "xdr_bufnode L s b = do {
     (s, bs) \<leftarrow> xdr_vector 1024 (xdr_char L) s (buffer b);
     (s, n) \<leftarrow> xdr_u_int L s (size b);
     Some (s, \<lparr>buffer = bs, size = n\<rparr>)}"

definition xdr_file_args_r :: "xdrlib \<Rightarrow> file_args_r filter" where
  "xdr_file_args_r L s r = do {
     (s, f) \<leftarrow> xdr_vector 128 (xdr_char L) s (r_filename r);
     (s, off) \<leftarrow> xdr_u_int L s (r_offset r);
     (s, n) \<leftarrow> xdr_u_int L s (r_size r);
     Some (s, \<lparr>r_filename = f, r_offset = off, r_size = n\<rparr>)}"

definition xdr_file_args_w :: "xdrlib \<Rightarrow> file_args_w filter" where
  "xdr_file_args_w L s w = do {
     (s, f) \<leftarrow> xdr_vector 128 (xdr_char L) s (w_filename w);
     (s, off) \<leftarrow> xdr_u_int L s (w_offset w);
     (s, bs) \<leftarrow> xdr_vector 1024 (xdr_char L) s (w_buffer w);
     (s, n) \<leftarrow> xdr_u_int L s (w_size w);
     Some (s, \<lparr>w_filename = f, w_offset = off, w_buffer = bs, w_size = n\<rparr>)}"

definition xdr_args :: "xdrlib \<Rightarrow> int filter" where
  "xdr_args L s num = xdr_int L s num"

text \<open>The filter for the sums has a branch for streams that offer their next bytes as an array.\<close>

definition numbers_by_calls :: "xdrlib \<Rightarrow> numbers filter" where
  "numbers_by_calls L s a = do {
     (s, n) \<leftarrow> xdr_int L s (amount a);
     (s, xs) \<leftarrow> xdr_vector 128 (xdr_int L) s (nums a);
     Some (s, \<lparr>amount = n, nums = xs\<rparr>)}"

definition put_longs :: "int list \<Rightarrow> string" where
  "put_longs xs = concat (map (\<lambda>x. be32 (word_of_int x)) xs)"

primrec get_longs :: "nat \<Rightarrow> string \<Rightarrow> int list" where
  "get_longs 0 bs = []"
| "get_longs (Suc n) bs = sint (of_be32 bs) # get_longs n (drop 4 bs)"

definition xdr_numbers :: "xdrlib \<Rightarrow> numbers filter" where
  "xdr_numbers L s a =
     (if x_op s = XDR_ENCODE then
        (if \<not> xdr_inline L s ((1 + 128) * 4) then numbers_by_calls L s a
         else Some (put_bytes (put_longs (amount a # nums a)) s, a))
      else if x_op s = XDR_DECODE then
        (if \<not> xdr_inline L s ((1 + 128) * 4) then numbers_by_calls L s a
         else (case get_longs (1 + 128) (x_data s) of
                 n # xs \<Rightarrow> Some (skip_bytes ((1 + 128) * 4) s, \<lparr>amount = n, nums = xs\<rparr>) | [] \<Rightarrow> None))
      else numbers_by_calls L s a)"

section \<open>Units\<close>

lemma length_be32 [simp]: "length (be32 w) = 4"
  by (simp add: be32_def)

lemma of_be32_be32 [simp]: "of_be32 (be32 w @ bs) = w"
proof -
  let ?v = "uint w"
  have byte: "of_char (char_of (?v div 2 ^ i) :: char) = (?v div 2 ^ i) mod (256 :: int)" for i
    by (rule of_char_of)
  have v: "0 \<le> ?v" "?v < 4294967296" using uint_lt2p [of w] by simp_all
  have step: "256 * (x div 256) + x mod 256 = x" for x :: int by (rule mult_div_mod_eq)
  define a b c where "a = ?v div 256" and "b = a div 256" and "c = b div 256"
  have abc: "?v div 2 ^ 0 = ?v" "?v div 2 ^ 8 = a" "?v div 2 ^ 16 = b" "?v div 2 ^ 24 = c"
    by (simp_all add: a_def b_def c_def zdiv_zmult2_eq [symmetric])
  have pos: "0 \<le> a" "0 \<le> b" "0 \<le> c" using v by (simp_all add: a_def b_def c_def pos_imp_zdiv_nonneg_iff)
  have le: "256 * (x div 256) \<le> x" for x :: int by (simp flip: minus_mod_eq_mult_div)
  have "256 * a \<le> ?v" "256 * b \<le> a" "256 * c \<le> b" unfolding a_def b_def c_def by (rule le)+
  with v pos have "c mod 256 = c" by simp
  then have "256 * (256 * (256 * (c mod 256) + b mod 256) + a mod 256) + ?v mod 256 = ?v"
    using step [of ?v] step [of a] step [of b] by (simp only: a_def [symmetric] b_def [symmetric] c_def [symmetric])
  then show ?thesis
    by (simp add: of_be32_def be32_def byte [of 0, simplified] byte abc [simplified] abc del: power_0)
qed

lemma of_be32_only [simp]: "of_be32 (be32 w) = w"
  using of_be32_be32 [of w "[]"] by simp

lemma char_of_unit [simp]: "char_of (uint (char_unit c)) = c"
proof -
  have "uint (char_unit c) mod 256 = of_char c mod 256"
    by (simp add: char_unit_def Let_def uint_word_of_int mod_mod_cancel)
  then show ?thesis by (metis char_of_mod_256 char_of_char)
qed

section \<open>Codecs\<close>

text \<open>
  A filter that writes one byte string of a fixed width for a value, reads a value from every
  string of that width, and fails without room or data: ok gives the values of the C type, form
  the bytes of a value and get the value of bytes.
\<close>

locale xdr_codec =
  fixes f :: "'a filter" and form :: "'a \<Rightarrow> string" and get :: "string \<Rightarrow> 'a" and width :: nat
    and ok :: "'a \<Rightarrow> bool"
  assumes width_form: "ok v \<Longrightarrow> length (form v) = width"
    and get_form: "ok v \<Longrightarrow> get (form v @ r) = v"
    and fits_get: "width \<le> length bs \<Longrightarrow> ok (get bs)"
    and writes: "ok v \<Longrightarrow> x_op s = XDR_ENCODE \<Longrightarrow> width \<le> x_handy s \<Longrightarrow> f s v = Some (put_bytes (form v) s, v)"
    and no_room: "ok v \<Longrightarrow> x_op s = XDR_ENCODE \<Longrightarrow> x_handy s < width \<Longrightarrow> f s v = None"
    and reads: "ok v \<Longrightarrow> x_op s = XDR_DECODE \<Longrightarrow> width \<le> length (x_data s) \<Longrightarrow>
      f s v = Some (skip_bytes width s, get (x_data s))"
    and no_data: "ok v \<Longrightarrow> x_op s = XDR_DECODE \<Longrightarrow> length (x_data s) < width \<Longrightarrow> f s v = None"
    and frees: "ok v \<Longrightarrow> x_op s = XDR_FREE \<Longrightarrow> f s v = Some (s, v)"
begin

lemma encodes: "ok v \<Longrightarrow> width \<le> room \<Longrightarrow> \<exists>s. f (encoder room) v = Some (s, v) \<and> x_data s = form v"
  using writes [of v "encoder room"] by (simp add: encoder_def put_bytes_def)

lemma decodes: "ok v \<Longrightarrow> ok w \<Longrightarrow> \<exists>s. f (decoder (form v)) w = Some (s, v)"
  using reads [of w "decoder (form v)"] get_form [of v "[]"] width_form [of v] by (simp add: decoder_def)

lemma refuses: "ok w \<Longrightarrow> length bs < width \<Longrightarrow> f (decoder bs) w = None"
  using no_data [of w "decoder bs"] by (simp add: decoder_def)

lemma decoded_fits: "f (decoder bs) w = Some (s, v) \<Longrightarrow> ok w \<Longrightarrow> ok v"
  using reads [of w "decoder bs"] refuses [of w bs] fits_get [of bs]
  by (cases "length bs < width") (auto simp: decoder_def)

lemma encoded_form: "f (encoder room) v = Some (s, w) \<Longrightarrow> ok v \<Longrightarrow> w = v \<and> x_data s = form v"
  using writes [of v "encoder room"] no_room [of v "encoder room"]
  by (cases "width \<le> room") (auto simp: encoder_def put_bytes_def)

end

lemma stream_ops [simp]:
  "x_op (put_bytes bs s) = x_op s" "x_op (skip_bytes n s) = x_op s"
  "x_handy (put_bytes bs s) = x_handy s - length bs" "x_data (skip_bytes n s) = drop n (x_data s)"
  "put_bytes bs (put_bytes as s) = put_bytes (as @ bs) s"
  "skip_bytes m (skip_bytes n s) = skip_bytes (n + m) s"
  by (simp_all add: put_bytes_def skip_bytes_def add.commute)

text \<open>One filter after another, and a filter on another form of its values.\<close>

definition xdr_pair :: "'a filter \<Rightarrow> 'b filter \<Rightarrow> ('a \<times> 'b) filter" where
  "xdr_pair f g s p = do {(s, x) \<leftarrow> f s (fst p); (s, y) \<leftarrow> g s (snd p); Some (s, (x, y))}"

definition xdr_iso :: "('b \<Rightarrow> 'a) \<Rightarrow> ('a \<Rightarrow> 'b) \<Rightarrow> 'a filter \<Rightarrow> 'b filter" where
  "xdr_iso rep mk f s v = do {(s, x) \<leftarrow> f s (rep v); Some (s, mk x)}"

lemmas codec_facts = xdr_codec.width_form xdr_codec.get_form xdr_codec.fits_get xdr_codec.writes
  xdr_codec.no_room xdr_codec.reads xdr_codec.no_data xdr_codec.frees

lemma codec_pair:
  assumes "xdr_codec f form get m ok" and "xdr_codec f' form' get' n ok'"
  shows "xdr_codec (xdr_pair f f') (\<lambda>(x, y). form x @ form' y) (\<lambda>bs. (get bs, get' (drop m bs))) (m + n)
    (\<lambda>(x, y). ok x \<and> ok' y)"
proof -
  note a = codec_facts [OF assms(1)] and b = codec_facts [OF assms(2)]
  show ?thesis
  proof (unfold_locales, goal_cases)
    case 1 then show ?case by (auto simp: a b)
  next
    case (2 v r) then show ?case by (auto simp: a b)
  next
    case 3 then show ?case by (auto simp: a b)
  next
    case 4 then show ?case by (auto simp: xdr_pair_def a b)
  next
    case (5 v s)
    show ?case
    proof (cases "x_handy s < m")
      case True with 5 show ?thesis by (auto simp: xdr_pair_def a b)
    next
      case False with 5 show ?thesis by (auto simp: xdr_pair_def a b)
    qed
  next
    case 6 then show ?case by (auto simp: xdr_pair_def a b)
  next
    case (7 v s)
    show ?case
    proof (cases "length (x_data s) < m")
      case True with 7 show ?thesis by (auto simp: xdr_pair_def a b)
    next
      case False with 7 show ?thesis by (auto simp: xdr_pair_def a b)
    qed
  next
    case 8 then show ?case by (auto simp: xdr_pair_def a b)
  qed
qed

lemma codec_iso:
  assumes "xdr_codec f form get m ok" and "\<And>v. mk (rep v) = v" and "\<And>x. rep (mk x) = x"
  shows "xdr_codec (xdr_iso rep mk f) (\<lambda>v. form (rep v)) (\<lambda>bs. mk (get bs)) m (\<lambda>v. ok (rep v))"
  by unfold_locales (auto simp: xdr_iso_def assms(2,3) codec_facts [OF assms(1)])

lemma no_bytes [simp]: "put_bytes [] s = s" "skip_bytes 0 s = s"
  by (simp_all add: put_bytes_def skip_bytes_def)

primrec chunks :: "(string \<Rightarrow> 'a) \<Rightarrow> nat \<Rightarrow> nat \<Rightarrow> string \<Rightarrow> 'a list" where
  "chunks get w 0 bs = []"
| "chunks get w (Suc n) bs = get bs # chunks get w n (drop w bs)"

lemma length_chunks [simp]: "length (chunks get w n bs) = n"
  by (induction n arbitrary: bs) simp_all

lemma elems_facts:
  assumes "xdr_codec f form get w ok" and "list_all ok xs"
  shows "length (concat (map form xs)) = length xs * w"
    and "chunks get w (length xs) (concat (map form xs) @ r) = xs"
    and "x_op s = XDR_ENCODE \<Longrightarrow> length xs * w \<le> x_handy s \<Longrightarrow>
      xdr_elems f s xs = Some (put_bytes (concat (map form xs)) s, xs)"
    and "x_op s = XDR_ENCODE \<Longrightarrow> x_handy s < length xs * w \<Longrightarrow> xdr_elems f s xs = None"
    and "x_op s = XDR_DECODE \<Longrightarrow> length xs * w \<le> length (x_data s) \<Longrightarrow>
      xdr_elems f s xs = Some (skip_bytes (length xs * w) s, chunks get w (length xs) (x_data s))"
    and "x_op s = XDR_DECODE \<Longrightarrow> length (x_data s) < length xs * w \<Longrightarrow> xdr_elems f s xs = None"
    and "x_op s = XDR_FREE \<Longrightarrow> xdr_elems f s xs = Some (s, xs)"
proof -
  note a = codec_facts [OF assms(1)]
  show "length (concat (map form xs)) = length xs * w" "chunks get w (length xs) (concat (map form xs) @ r) = xs"
    using assms(2) by (induction xs) (auto simp: a)
  show "x_op s = XDR_ENCODE \<Longrightarrow> length xs * w \<le> x_handy s \<Longrightarrow>
      xdr_elems f s xs = Some (put_bytes (concat (map form xs)) s, xs)"
    using assms(2) by (induction xs arbitrary: s) (auto simp: a)
  show "xdr_elems f s xs = None" if "x_op s = XDR_ENCODE" "x_handy s < length xs * w"
    using assms(2) that
  proof (induction xs arbitrary: s)
    case (Cons x xs)
    then show ?case by (cases "x_handy s < w") (auto simp: a)
  qed simp
  show "x_op s = XDR_DECODE \<Longrightarrow> length xs * w \<le> length (x_data s) \<Longrightarrow>
      xdr_elems f s xs = Some (skip_bytes (length xs * w) s, chunks get w (length xs) (x_data s))"
    using assms(2) by (induction xs arbitrary: s) (auto simp: a)
  show "xdr_elems f s xs = None" if "x_op s = XDR_DECODE" "length (x_data s) < length xs * w"
    using assms(2) that
  proof (induction xs arbitrary: s)
    case (Cons x xs)
    then show ?case by (cases "length (x_data s) < w") (auto simp: a)
  qed simp
  show "x_op s = XDR_FREE \<Longrightarrow> xdr_elems f s xs = Some (s, xs)"
    using assms(2) by (induction xs) (auto simp: a)
qed

lemma fits_chunks:
  assumes "xdr_codec f form get w ok"
  shows "n * w \<le> length bs \<Longrightarrow> list_all ok (chunks get w n bs)"
  using codec_facts(3) [OF assms] by (induction n arbitrary: bs) auto

lemma codec_vector:
  assumes "xdr_codec f form get w ok"
  shows "xdr_codec (xdr_vector n f) (\<lambda>xs. concat (map form xs)) (chunks get w n) (n * w)
    (\<lambda>xs. length xs = n \<and> list_all ok xs)"
  by unfold_locales (use elems_facts [OF assms] fits_chunks [OF assms] in \<open>auto simp: xdr_vector_def\<close>)

section \<open>The bytes of the messages\<close>

definition chars_form :: "string \<Rightarrow> string" where
  "chars_form cs = concat (map (\<lambda>c. be32 (char_unit c)) cs)"

definition chars_get :: "nat \<Rightarrow> string \<Rightarrow> string" where
  "chars_get n bs = chunks (\<lambda>bs. char_of (uint (of_be32 bs))) 4 n bs"

definition bufnode_form :: "bufnode \<Rightarrow> string" where
  "bufnode_form b = chars_form (buffer b) @ be32 (size b)"

definition bufnode_get :: "string \<Rightarrow> bufnode" where
  "bufnode_get bs = \<lparr>buffer = chars_get 1024 bs, size = of_be32 (drop 4096 bs)\<rparr>"

definition fits_bufnode :: "bufnode \<Rightarrow> bool" where
  "fits_bufnode b = (length (buffer b) = 1024)"

definition args_r_form :: "file_args_r \<Rightarrow> string" where
  "args_r_form r = chars_form (r_filename r) @ be32 (r_offset r) @ be32 (r_size r)"

definition args_r_get :: "string \<Rightarrow> file_args_r" where
  "args_r_get bs =
     \<lparr>r_filename = chars_get 128 bs, r_offset = of_be32 (drop 512 bs), r_size = of_be32 (drop 516 bs)\<rparr>"

definition fits_args_r :: "file_args_r \<Rightarrow> bool" where
  "fits_args_r r = (length (r_filename r) = 128)"

definition args_w_form :: "file_args_w \<Rightarrow> string" where
  "args_w_form w = chars_form (w_filename w) @ be32 (w_offset w) @ chars_form (w_buffer w) @ be32 (w_size w)"

definition args_w_get :: "string \<Rightarrow> file_args_w" where
  "args_w_get bs =
     \<lparr>w_filename = chars_get 128 bs, w_offset = of_be32 (drop 512 bs), w_buffer = chars_get 1024 (drop 516 bs),
      w_size = of_be32 (drop 4612 bs)\<rparr>"

definition fits_args_w :: "file_args_w \<Rightarrow> bool" where
  "fits_args_w w = (length (w_filename w) = 128 \<and> length (w_buffer w) = 1024)"

definition numbers_form :: "numbers \<Rightarrow> string" where
  "numbers_form a = put_longs (amount a # nums a)"

definition numbers_get :: "string \<Rightarrow> numbers" where
  "numbers_get bs =
     \<lparr>amount = sint (of_be32 bs), nums = chunks (\<lambda>bs. sint (of_be32 bs)) 4 128 (drop 4 bs)\<rparr>"

definition fits_numbers :: "numbers \<Rightarrow> bool" where
  "fits_numbers a = (int32 (amount a) \<and> length (nums a) = 128 \<and> list_all int32 (nums a))"

lemma get_longs_chunks: "get_longs n bs = chunks (\<lambda>bs. sint (of_be32 bs)) 4 n bs"
  by (induction n arbitrary: bs) simp_all

lemma first_long: "get_longs 129 bs = sint (of_be32 bs) # get_longs 128 (drop 4 bs)"
  using get_longs.simps(2) [of 128 bs] by simp

lemma int32_word: "int32 i \<Longrightarrow> sint (word_of_int i :: 32 word) = i"
  by (simp add: sint_sbintrunc' int32_def signed_take_bit_int_eq_self)

lemma int32_sint: "int32 (sint (w :: 32 word))"
  using sint_range_size [of w] by (simp add: int32_def word_size)

section \<open>Laws of the library\<close>

text \<open>
  The primitive filters write and read one unit: ints in two's complement, unsigned ints, and
  chars with their sign. What xdr_inline offers is there.
\<close>

locale xdr_library =
  fixes L :: xdrlib
  assumes int: "xdr_codec (xdr_int L) (\<lambda>i. be32 (word_of_int i)) (\<lambda>bs. sint (of_be32 bs)) 4 int32"
    and u_int: "xdr_codec (xdr_u_int L) be32 of_be32 4 (\<lambda>_. True)"
    and char: "xdr_codec (xdr_char L) (\<lambda>c. be32 (char_unit c)) (\<lambda>bs. char_of (uint (of_be32 bs))) 4 (\<lambda>_. True)"
    and inline_there: "xdr_inline L s n \<Longrightarrow>
      n \<le> (if x_op s = XDR_DECODE then length (x_data s) else x_handy s)"
begin

lemma chars: "xdr_codec (xdr_vector n (xdr_char L)) chars_form (chars_get n) (n * 4) (\<lambda>cs. length cs = n)"
  using codec_vector [OF char, of n] by (simp add: chars_form_def [abs_def] chars_get_def [abs_def] list_all_iff)

lemma bufnode_codec: "xdr_codec (xdr_bufnode L) bufnode_form bufnode_get 4100 fits_bufnode"
proof -
  let ?mk = "\<lambda>(b, n). \<lparr>buffer = b, size = n\<rparr>" and ?rep = "\<lambda>b. (buffer b, size b)"
  have "xdr_bufnode L = xdr_iso ?rep ?mk (xdr_pair (xdr_vector 1024 (xdr_char L)) (xdr_u_int L))"
    by (intro ext) (simp add: xdr_bufnode_def xdr_iso_def xdr_pair_def split: Option.bind_splits)
  moreover have "xdr_codec \<dots> (\<lambda>b. case ?rep b of (x, y) \<Rightarrow> chars_form x @ be32 y)
      (\<lambda>bs. ?mk (chars_get 1024 bs, of_be32 (drop (1024 * 4) bs))) (1024 * 4 + 4)
      (\<lambda>b. case ?rep b of (x, y) \<Rightarrow> length x = 1024 \<and> True)"
    by (rule codec_iso [OF codec_pair [OF chars u_int]]) auto
  ultimately show ?thesis
    by (simp add: bufnode_form_def [abs_def] bufnode_get_def [abs_def] fits_bufnode_def [abs_def])
qed

lemma args_r_codec: "xdr_codec (xdr_file_args_r L) args_r_form args_r_get 520 fits_args_r"
proof -
  let ?mk = "\<lambda>(f, off, n). \<lparr>r_filename = f, r_offset = off, r_size = n\<rparr>"
    and ?rep = "\<lambda>r. (r_filename r, r_offset r, r_size r)"
  have "xdr_file_args_r L = xdr_iso ?rep ?mk
      (xdr_pair (xdr_vector 128 (xdr_char L)) (xdr_pair (xdr_u_int L) (xdr_u_int L)))"
    by (intro ext) (simp add: xdr_file_args_r_def xdr_iso_def xdr_pair_def split: Option.bind_splits)
  moreover have "xdr_codec \<dots> (\<lambda>r. case ?rep r of (x, y) \<Rightarrow> chars_form x @ (case y of (u, v) \<Rightarrow> be32 u @ be32 v))
      (\<lambda>bs. ?mk (chars_get 128 bs, of_be32 (drop (128 * 4) bs), of_be32 (drop 4 (drop (128 * 4) bs))))
      (128 * 4 + (4 + 4)) (\<lambda>r. case ?rep r of (x, y) \<Rightarrow> length x = 128 \<and> (case y of (u, v) \<Rightarrow> True \<and> True))"
    by (rule codec_iso [OF codec_pair [OF chars codec_pair [OF u_int u_int]]]) auto
  ultimately show ?thesis
    by (simp add: args_r_form_def [abs_def] args_r_get_def [abs_def] fits_args_r_def [abs_def])
qed

lemma args_w_codec: "xdr_codec (xdr_file_args_w L) args_w_form args_w_get 4616 fits_args_w"
proof -
  let ?mk = "\<lambda>(f, off, b, n). \<lparr>w_filename = f, w_offset = off, w_buffer = b, w_size = n\<rparr>"
    and ?rep = "\<lambda>w. (w_filename w, w_offset w, w_buffer w, w_size w)"
  have "xdr_file_args_w L = xdr_iso ?rep ?mk (xdr_pair (xdr_vector 128 (xdr_char L))
      (xdr_pair (xdr_u_int L) (xdr_pair (xdr_vector 1024 (xdr_char L)) (xdr_u_int L))))"
    by (intro ext) (simp add: xdr_file_args_w_def xdr_iso_def xdr_pair_def split: Option.bind_splits)
  moreover have "xdr_codec \<dots> (\<lambda>w. case ?rep w of (x, y) \<Rightarrow> chars_form x @
        (case y of (u, z) \<Rightarrow> be32 u @ (case z of (b, n) \<Rightarrow> chars_form b @ be32 n)))
      (\<lambda>bs. ?mk (chars_get 128 bs, of_be32 (drop (128 * 4) bs), chars_get 1024 (drop 4 (drop (128 * 4) bs)),
        of_be32 (drop (1024 * 4) (drop 4 (drop (128 * 4) bs))))) (128 * 4 + (4 + (1024 * 4 + 4)))
      (\<lambda>w. case ?rep w of (x, y) \<Rightarrow> length x = 128 \<and>
        (case y of (u, z) \<Rightarrow> True \<and> (case z of (b, n) \<Rightarrow> length b = 1024 \<and> True)))"
    by (rule codec_iso [OF codec_pair [OF chars codec_pair [OF u_int codec_pair [OF chars u_int]]]]) auto
  ultimately show ?thesis
    by (simp add: args_w_form_def [abs_def] args_w_get_def [abs_def] fits_args_w_def [abs_def])
qed

lemma by_calls_codec: "xdr_codec (numbers_by_calls L) numbers_form numbers_get 516 fits_numbers"
proof -
  let ?mk = "\<lambda>(n, xs). \<lparr>amount = n, nums = xs\<rparr>" and ?rep = "\<lambda>a. (amount a, nums a)"
  have "numbers_by_calls L = xdr_iso ?rep ?mk (xdr_pair (xdr_int L) (xdr_vector 128 (xdr_int L)))"
    by (intro ext) (simp add: numbers_by_calls_def xdr_iso_def xdr_pair_def split: Option.bind_splits)
  moreover have "xdr_codec \<dots> (\<lambda>a. case ?rep a of (x, y) \<Rightarrow> be32 (word_of_int x) @ concat (map (\<lambda>i. be32 (word_of_int i)) y))
      (\<lambda>bs. ?mk (sint (of_be32 bs), chunks (\<lambda>bs. sint (of_be32 bs)) 4 128 (drop 4 bs))) (4 + 128 * 4)
      (\<lambda>a. case ?rep a of (x, y) \<Rightarrow> int32 x \<and> length y = 128 \<and> list_all int32 y)"
    by (rule codec_iso [OF codec_pair [OF int codec_vector [OF int]]]) auto
  ultimately show ?thesis
    by (simp add: numbers_form_def [abs_def] numbers_get_def [abs_def] fits_numbers_def [abs_def] put_longs_def)
qed

text \<open>Both branches of xdr_numbers do the same.\<close>

lemma inline_same: "fits_numbers a \<Longrightarrow> xdr_numbers L s a = numbers_by_calls L s a"
  using codec_facts [OF by_calls_codec] inline_there [of s 516]
  by (cases "x_op s")
    (auto simp: xdr_numbers_def numbers_form_def numbers_get_def first_long get_longs_chunks [of 128] split: if_splits)

lemma numbers_codec: "xdr_codec (xdr_numbers L) numbers_form numbers_get 516 fits_numbers"
  by unfold_locales (use codec_facts [OF by_calls_codec] in \<open>simp_all add: inline_same\<close>)

lemma args_codec: "xdr_codec (xdr_args L) (\<lambda>i. be32 (word_of_int i)) (\<lambda>bs. sint (of_be32 bs)) 4 int32"
  using int by (simp add: xdr_args_def [abs_def])

sublocale bufnodes: xdr_codec "xdr_bufnode L" bufnode_form bufnode_get 4100 fits_bufnode
  by (rule bufnode_codec)

sublocale args_rs: xdr_codec "xdr_file_args_r L" args_r_form args_r_get 520 fits_args_r
  by (rule args_r_codec)

sublocale args_ws: xdr_codec "xdr_file_args_w L" args_w_form args_w_get 4616 fits_args_w
  by (rule args_w_codec)

sublocale sums: xdr_codec "xdr_numbers L" numbers_form numbers_get 516 fits_numbers
  by (rule numbers_codec)

sublocale ints: xdr_codec "xdr_int L" "\<lambda>i. be32 (word_of_int i)" "\<lambda>bs. sint (of_be32 bs)" 4 int32
  by (rule int)

end

section \<open>The external form of RFC 4506\<close>

text \<open>A library with the documented behaviour: each primitive filter moves one unit.\<close>

definition unit_filter :: "('a \<Rightarrow> 32 word) \<Rightarrow> (32 word \<Rightarrow> 'a) \<Rightarrow> 'a filter" where
  "unit_filter to un s v = (case x_op s of
     XDR_ENCODE \<Rightarrow> if 4 \<le> x_handy s then Some (put_bytes (be32 (to v)) s, v) else None
   | XDR_DECODE \<Rightarrow> if 4 \<le> length (x_data s) then Some (skip_bytes 4 s, un (of_be32 (x_data s))) else None
   | XDR_FREE \<Rightarrow> Some (s, v))"

definition rfc_library :: xdrlib where
  "rfc_library = \<lparr>xdr_int = unit_filter word_of_int sint, xdr_u_int = unit_filter (\<lambda>w. w) (\<lambda>w. w),
     xdr_char = unit_filter char_unit (\<lambda>w. char_of (uint w)),
     xdr_inline = (\<lambda>s n. n \<le> (if x_op s = XDR_DECODE then length (x_data s) else x_handy s))\<rparr>"

lemma unit_codec:
  "(\<And>v. ok v \<Longrightarrow> un (to v) = v) \<Longrightarrow> (\<And>w. ok (un w)) \<Longrightarrow>
    xdr_codec (unit_filter to un) (\<lambda>v. be32 (to v)) (\<lambda>bs. un (of_be32 bs)) 4 ok"
  by unfold_locales (auto simp: unit_filter_def)

interpretation rfc: xdr_library rfc_library
proof (rule xdr_library.intro, goal_cases)
  case 1
  show ?case using unit_codec [where ok = int32 and un = sint and to = word_of_int] by (simp add: rfc_library_def int32_word int32_sint)
next
  case 2
  show ?case using unit_codec [where ok = "\<lambda>_. True" and un = "\<lambda>w. w" and to = "\<lambda>w. w"] by (simp add: rfc_library_def)
next
  case 3
  show ?case using unit_codec [where ok = "\<lambda>_. True" and un = "\<lambda>w. char_of (uint w)" and to = char_unit] by (simp add: rfc_library_def)
next
  case (4 s n)
  then show ?case by (simp add: rfc_library_def)
qed

end
