(* ===== verification/CN_Stub.thy ===== *)
theory CN_Stub imports CN_Xdr begin

text \<open>
  The stubs that rpcgen generated: rpc/nfs/nfs_clnt.c with rpc/nfs/nfs_svc.c, and the stubs of
  end/rpc/add and rpc/square. A client stub encodes its argument, has it carried to the server and
  decodes the result; the dispatch function of a server decodes the argument, runs the procedure
  and encodes its result. The theorems are that a stub whose call is carried to the dispatch
  function does what the procedure does on the stub's own argument, and that a request which is
  too short runs no procedure.
\<close>

section \<open>Client stubs\<close>

text \<open>What comes back for a call: the bytes of a result, or one of the errors.\<close>

datatype rpc_reply = Success string | Noproc | Garbage_args | System_err | Timed_out

type_synonym carrier = "int \<Rightarrow> string \<Rightarrow> (rpc_reply \<Rightarrow> prog) \<Rightarrow> prog"

text \<open>
  A stub clears its static result, encodes the argument in the room the transport has, and gives
  None for NULL. The carrier is clnt_call with the client handle: procedure number, argument
  bytes, and what is done with the reply.
\<close>

definition clnt_stub ::
    "'a filter \<Rightarrow> 'r filter \<Rightarrow> 'r \<Rightarrow> nat \<Rightarrow> (string \<Rightarrow> (rpc_reply \<Rightarrow> prog) \<Rightarrow> prog) \<Rightarrow> 'a \<Rightarrow> ('r option \<Rightarrow> prog) \<Rightarrow> prog"
  where
  "clnt_stub xdr_argument xdr_result clnt_res room call argp k =
     (case xdr_argument (encoder room) argp of None \<Rightarrow> k None
      | Some (s, _) \<Rightarrow> call (x_data s) (\<lambda>reply.
          case reply of Success bs \<Rightarrow> k (map_option snd (xdr_result (decoder bs) clnt_res)) | _ \<Rightarrow> k None))"

definition zero_bufnode :: bufnode where
  "zero_bufnode = \<lparr>buffer = zeros 1024, size = 0\<rparr>"

definition nfs_ls_1 :: "xdrlib \<Rightarrow> nat \<Rightarrow> carrier \<Rightarrow> bufnode \<Rightarrow> (bufnode option \<Rightarrow> prog) \<Rightarrow> prog" where
  "nfs_ls_1 L room clnt = clnt_stub (xdr_bufnode L) (xdr_bufnode L) zero_bufnode room (clnt 1)"

definition nfs_write_1 :: "xdrlib \<Rightarrow> nat \<Rightarrow> carrier \<Rightarrow> file_args_w \<Rightarrow> (int option \<Rightarrow> prog) \<Rightarrow> prog" where
  "nfs_write_1 L room clnt = clnt_stub (xdr_file_args_w L) (xdr_int L) 0 room (clnt 2)"

definition nfs_read_1 :: "xdrlib \<Rightarrow> nat \<Rightarrow> carrier \<Rightarrow> file_args_r \<Rightarrow> (bufnode option \<Rightarrow> prog) \<Rightarrow> prog" where
  "nfs_read_1 L room clnt = clnt_stub (xdr_file_args_r L) (xdr_bufnode L) zero_bufnode room (clnt 3)"

definition nfs_cd_1 :: "xdrlib \<Rightarrow> nat \<Rightarrow> carrier \<Rightarrow> bufnode \<Rightarrow> (int option \<Rightarrow> prog) \<Rightarrow> prog" where
  "nfs_cd_1 L room clnt = clnt_stub (xdr_bufnode L) (xdr_int L) 0 room (clnt 4)"

definition getattr_1 :: "xdrlib \<Rightarrow> nat \<Rightarrow> carrier \<Rightarrow> bufnode \<Rightarrow> (bufnode option \<Rightarrow> prog) \<Rightarrow> prog" where
  "getattr_1 L room clnt = clnt_stub (xdr_bufnode L) (xdr_bufnode L) zero_bufnode room (clnt 5)"

definition setattr_1 :: "xdrlib \<Rightarrow> nat \<Rightarrow> carrier \<Rightarrow> bufnode \<Rightarrow> (int option \<Rightarrow> prog) \<Rightarrow> prog" where
  "setattr_1 L room clnt = clnt_stub (xdr_bufnode L) (xdr_int L) 0 room (clnt 6)"

definition nfs_remove_1 :: "xdrlib \<Rightarrow> nat \<Rightarrow> carrier \<Rightarrow> bufnode \<Rightarrow> (int option \<Rightarrow> prog) \<Rightarrow> prog" where
  "nfs_remove_1 L room clnt = clnt_stub (xdr_bufnode L) (xdr_int L) 0 room (clnt 7)"

definition nfs_mkdir_1 :: "xdrlib \<Rightarrow> nat \<Rightarrow> carrier \<Rightarrow> bufnode \<Rightarrow> (int option \<Rightarrow> prog) \<Rightarrow> prog" where
  "nfs_mkdir_1 L room clnt = clnt_stub (xdr_bufnode L) (xdr_int L) 0 room (clnt 8)"

definition nfs_touch_1 :: "xdrlib \<Rightarrow> nat \<Rightarrow> carrier \<Rightarrow> bufnode \<Rightarrow> (int option \<Rightarrow> prog) \<Rightarrow> prog" where
  "nfs_touch_1 L room clnt = clnt_stub (xdr_bufnode L) (xdr_int L) 0 room (clnt 9)"

definition add_1 :: "xdrlib \<Rightarrow> nat \<Rightarrow> carrier \<Rightarrow> numbers \<Rightarrow> (int option \<Rightarrow> prog) \<Rightarrow> prog" where
  "add_1 L room clnt = clnt_stub (xdr_numbers L) (xdr_int L) 0 room (clnt 1)"

definition square_1 :: "xdrlib \<Rightarrow> nat \<Rightarrow> carrier \<Rightarrow> int \<Rightarrow> (int option \<Rightarrow> prog) \<Rightarrow> prog" where
  "square_1 L room clnt = clnt_stub (xdr_args L) (xdr_int L) 0 room (clnt 1)"

section \<open>Dispatch\<close>

text \<open>
  The part of a dispatch function behind the switch: decode the argument over zeros, run the
  procedure, send its result, and free the argument. reply sends a reply and goes on; next is the
  way back into the library with the values of the procedures' static variables.
\<close>

definition svc_call ::
    "'a filter \<Rightarrow> 'r filter \<Rightarrow> 'a \<Rightarrow> nat \<Rightarrow> string \<Rightarrow> ('a \<Rightarrow> ('s \<Rightarrow> 'r \<Rightarrow> prog) \<Rightarrow> prog) \<Rightarrow> 's \<Rightarrow>
      (rpc_reply \<Rightarrow> prog \<Rightarrow> prog) \<Rightarrow> ('s \<Rightarrow> prog) \<Rightarrow> prog"
  where
  "svc_call xdr_argument xdr_result zero room bs proc st reply next =
     (case xdr_argument (decoder bs) zero of None \<Rightarrow> reply Garbage_args (next st)
      | Some (_, argument) \<Rightarrow> proc argument (\<lambda>st result.
          reply (case xdr_result (encoder room) result of None \<Rightarrow> System_err | Some (s, _) \<Rightarrow> Success (x_data s))
            (case xdr_argument freer argument of
               None \<Rightarrow> Call (Fprintf 2 ''unable to free arguments'') (\<lambda>_. Exit 1)
             | Some _ \<Rightarrow> next st)))"

text \<open>The procedures that nfs_svc.c dispatches to, with the static variables behind them.\<close>

type_synonym ('a, 'r, 's) procedure = "'s \<Rightarrow> 'a \<Rightarrow> ('s \<Rightarrow> 'r \<Rightarrow> prog) \<Rightarrow> prog"

record 's nfs_procs =
  p_ls :: "(bufnode, bufnode, 's) procedure"
  p_write :: "(file_args_w, int, 's) procedure"
  p_read :: "(file_args_r, bufnode, 's) procedure"
  p_cd :: "(bufnode, int, 's) procedure"
  p_getattr :: "(bufnode, bufnode, 's) procedure"
  p_setattr :: "(bufnode, int, 's) procedure"
  p_remove :: "(bufnode, int, 's) procedure"
  p_mkdir :: "(bufnode, int, 's) procedure"
  p_touch :: "(bufnode, int, 's) procedure"

definition zero_args_r :: file_args_r where
  "zero_args_r = \<lparr>r_filename = zeros 128, r_offset = 0, r_size = 0\<rparr>"

definition zero_args_w :: file_args_w where
  "zero_args_w = \<lparr>w_filename = zeros 128, w_offset = 0, w_buffer = zeros 1024, w_size = 0\<rparr>"

definition nfs_dispatch ::
    "xdrlib \<Rightarrow> 's nfs_procs \<Rightarrow> nat \<Rightarrow> 's \<Rightarrow> int \<Rightarrow> string \<Rightarrow> (rpc_reply \<Rightarrow> prog \<Rightarrow> prog) \<Rightarrow> ('s \<Rightarrow> prog) \<Rightarrow> prog"
  where
  "nfs_dispatch L P room st rq_proc bs reply next =
     (let buf_buf = svc_call (xdr_bufnode L) (xdr_bufnode L) zero_bufnode room bs;
          buf_int = svc_call (xdr_bufnode L) (xdr_int L) zero_bufnode room bs in
      if rq_proc = 0 then reply (Success []) (next st)
      else if rq_proc = 1 then buf_buf (p_ls P st) st reply next
      else if rq_proc = 2 then
        svc_call (xdr_file_args_w L) (xdr_int L) zero_args_w room bs (p_write P st) st reply next
      else if rq_proc = 3 then
        svc_call (xdr_file_args_r L) (xdr_bufnode L) zero_args_r room bs (p_read P st) st reply next
      else if rq_proc = 4 then buf_int (p_cd P st) st reply next
      else if rq_proc = 5 then buf_buf (p_getattr P st) st reply next
      else if rq_proc = 6 then buf_int (p_setattr P st) st reply next
      else if rq_proc = 7 then buf_int (p_remove P st) st reply next
      else if rq_proc = 8 then buf_int (p_mkdir P st) st reply next
      else if rq_proc = 9 then buf_int (p_touch P st) st reply next
      else reply Noproc (next st))"

text \<open>nfs_server.c: the static results, and the procedures on them; ls reads at most n entries.\<close>

record nfs_results =
  ls_result :: bufnode
  write_result :: int
  read_result :: bufnode
  getattr_result :: bufnode

definition nfs_server_procs :: "nat \<Rightarrow> nfs_results nfs_procs" where
  "nfs_server_procs n =
     \<lparr>p_ls = (\<lambda>st a k. nfs_ls_1_svc n (ls_result st) a (\<lambda>r. k (st\<lparr>ls_result := r\<rparr>) r)),
      p_write = (\<lambda>st a k. nfs_write_1_svc (write_result st) a (\<lambda>r. k (st\<lparr>write_result := r\<rparr>) r)),
      p_read = (\<lambda>st a k. nfs_read_1_svc (read_result st) a (\<lambda>r. k (st\<lparr>read_result := r\<rparr>) r)),
      p_cd = (\<lambda>st a k. nfs_cd_1_svc a (k st)),
      p_getattr = (\<lambda>st a k. getattr_1_svc (getattr_result st) a (\<lambda>r. k (st\<lparr>getattr_result := r\<rparr>) r)),
      p_setattr = (\<lambda>st a k. setattr_1_svc a (k st)),
      p_remove = (\<lambda>st a k. nfs_remove_1_svc a (k st)),
      p_mkdir = (\<lambda>st a k. nfs_mkdir_1_svc a (k st)),
      p_touch = (\<lambda>st a k. nfs_touch_1_svc a (k st))\<rparr>"

text \<open>end/rpc/nfs_server.c: the templates answer with their static variables, which are zero.\<close>

definition nfs_template_procs :: "unit nfs_procs" where
  "nfs_template_procs =
     \<lparr>p_ls = (\<lambda>st a k. k () zero_bufnode), p_write = (\<lambda>st a k. k () 0), p_read = (\<lambda>st a k. k () zero_bufnode),
      p_cd = (\<lambda>st a k. k () 0), p_getattr = (\<lambda>st a k. k () zero_bufnode), p_setattr = (\<lambda>st a k. k () 0),
      p_remove = (\<lambda>st a k. k () 0), p_mkdir = (\<lambda>st a k. k () 0), p_touch = (\<lambda>st a k. k () 0)\<rparr>"

definition nfs_arya_1 ::
    "xdrlib \<Rightarrow> nat \<Rightarrow> unit \<Rightarrow> int \<Rightarrow> string \<Rightarrow> (rpc_reply \<Rightarrow> prog \<Rightarrow> prog) \<Rightarrow> (unit \<Rightarrow> prog) \<Rightarrow> prog" where
  "nfs_arya_1 L room = nfs_dispatch L nfs_template_procs room"

text \<open>The dispatch functions of the two other programs, each with one procedure.\<close>

definition addition_1 ::
    "xdrlib \<Rightarrow> nat \<Rightarrow> int \<Rightarrow> int \<Rightarrow> string \<Rightarrow> (rpc_reply \<Rightarrow> prog \<Rightarrow> prog) \<Rightarrow> (int \<Rightarrow> prog) \<Rightarrow> prog" where
  "addition_1 L room st rq_proc bs reply next =
     (if rq_proc = 0 then reply (Success []) (next st)
      else if rq_proc = 1 then
        svc_call (xdr_numbers L) (xdr_int L) \<lparr>amount = 0, nums = replicate 128 0\<rparr> room bs
          (\<lambda>a k. add_svc a st (\<lambda>r. k r r)) st reply next
      else reply Noproc (next st))"

definition square_calc_1 ::
    "xdrlib \<Rightarrow> nat \<Rightarrow> int \<Rightarrow> int \<Rightarrow> string \<Rightarrow> (rpc_reply \<Rightarrow> prog \<Rightarrow> prog) \<Rightarrow> (int \<Rightarrow> prog) \<Rightarrow> prog" where
  "square_calc_1 L room st rq_proc bs reply next =
     (if rq_proc = 0 then reply (Success []) (next st)
      else if rq_proc = 1 then
        svc_call (xdr_args L) (xdr_int L) 0 room bs (\<lambda>a k. square_svc a st (\<lambda>r. k r r)) st reply next
      else reply Noproc (next st))"

section \<open>Services\<close>

text \<open>
  main of the generated servers: both transports are made and registered, then svc_run takes
  requests, here n of them, and hands each to the dispatch function; it returns when waiting for
  requests fails. A request is its procedure number and its bytes; a reply is a code and bytes.
\<close>

definition reply_call :: "rpc_reply \<Rightarrow> call" where
  "reply_call reply = (case reply of Success bs \<Rightarrow> Svc_sendreply 0 bs | Noproc \<Rightarrow> Svc_sendreply 3 []
     | Garbage_args \<Rightarrow> Svc_sendreply 4 [] | System_err \<Rightarrow> Svc_sendreply 5 [] | Timed_out \<Rightarrow> Svc_sendreply 5 [])"

definition svc_run ::
    "nat \<Rightarrow> ('s \<Rightarrow> int \<Rightarrow> string \<Rightarrow> (rpc_reply \<Rightarrow> prog \<Rightarrow> prog) \<Rightarrow> ('s \<Rightarrow> prog) \<Rightarrow> prog) \<Rightarrow> 's \<Rightarrow> prog" where
  "svc_run n dispatch st =
     forever n (\<lambda>st again. Call Svc_getreq (\<lambda>a.
       if ret a < 0 then Call (Fprintf 2 ''svc_run returned'') (\<lambda>_. Exit 1)
       else arr_get (ints a) 0 (\<lambda>rq_proc.
         dispatch st rq_proc (dat a) (\<lambda>reply p. Call (reply_call reply) (\<lambda>_. p)) again))) st"

definition svc_transport :: "int \<Rightarrow> int \<Rightarrow> string \<Rightarrow> int \<Rightarrow> string \<Rightarrow> prog \<Rightarrow> prog" where
  "svc_transport program version names proto label k =
     Call (Svc_create proto) (\<lambda>t.
     if ret t = 0 then Call (Fprintf 2 (''cannot create '' @ label @ '' service.'')) (\<lambda>_. Exit 1)
     else Call (Svc_register (ret t) program version proto) (\<lambda>r.
     if ret r = 0 then Call (Fprintf 2 (''unable to register ('' @ names @ '', '' @ label @ '').'')) (\<lambda>_. Exit 1)
     else k))"

definition svc_main :: "int \<Rightarrow> int \<Rightarrow> string \<Rightarrow> prog \<Rightarrow> prog" where
  "svc_main program version names k =
     Call (Pmap_unset program version) (\<lambda>_.
     svc_transport program version names 17 ''udp'' (svc_transport program version names 6 ''tcp'' k))"

definition nfs_svc_main :: "xdrlib \<Rightarrow> nat \<Rightarrow> nat \<Rightarrow> nat \<Rightarrow> nfs_results \<Rightarrow> prog" where
  "nfs_svc_main L room n m st =
     svc_main 0x2fffffff 1 ''nfs_remote, nfs'' (svc_run n (nfs_dispatch L (nfs_server_procs m) room) st)"

definition nfs_template_main :: "xdrlib \<Rightarrow> nat \<Rightarrow> nat \<Rightarrow> prog" where
  "nfs_template_main L room n =
     svc_main 0x2fffffff 1 ''nfs_arya, nfs'' (svc_run n (nfs_arya_1 L room) ())"

definition add_svc_main :: "xdrlib \<Rightarrow> nat \<Rightarrow> nat \<Rightarrow> prog" where
  "add_svc_main L room n = svc_main 0x1fffffff 1 ''ADDITION, ADDITION_1'' (svc_run n (addition_1 L room) 0)"

definition square_svc_main :: "xdrlib \<Rightarrow> nat \<Rightarrow> nat \<Rightarrow> prog" where
  "square_svc_main L room n =
     svc_main 0x1fffffff 1 ''SQUARE_CALC, SQUARE_CALC_1'' (svc_run n (square_calc_1 L room) 0)"

text \<open>The template of a client calls every procedure with arguments that have no values yet.\<close>

definition or_perror :: "'r option \<Rightarrow> prog \<Rightarrow> prog" where
  "or_perror r k = (if r = None then Perror ''call failed'' k else k)"

definition nfs_template_client :: "xdrlib \<Rightarrow> nat \<Rightarrow> carrier \<Rightarrow> nfs_args \<Rightarrow> string list \<Rightarrow> prog" where
  "nfs_template_client L room clnt st argv =
     (case argv of [] \<Rightarrow> Undef
      | [name] \<Rightarrow> Out (''usage: '' @ name @ '' server_host'' @ [newline]) (Exit 1)
      | name # host # _ \<Rightarrow>
     Call (Clnt_create host 0x2fffffff 1) (\<lambda>c. if ret c = 0 then Perror host (Exit 1) else
     nfs_ls_1 L room clnt (ls_arg st) (\<lambda>r. or_perror r (
     nfs_write_1 L room clnt (write_arg st) (\<lambda>r. or_perror r (
     nfs_read_1 L room clnt (read_arg st) (\<lambda>r. or_perror r (
     nfs_cd_1 L room clnt (cd_arg st) (\<lambda>r. or_perror r (
     getattr_1 L room clnt (getattr_arg st) (\<lambda>r. or_perror r (
     setattr_1 L room clnt (setattr_arg st) (\<lambda>r. or_perror r (
     nfs_remove_1 L room clnt (remove_arg st) (\<lambda>r. or_perror r (
     nfs_mkdir_1 L room clnt (mkdir_arg st) (\<lambda>r. or_perror r (
     nfs_touch_1 L room clnt (touch_arg st) (\<lambda>r. or_perror r (Exit 0))))))))))))))))))))"

section \<open>Runs with C answers\<close>

text \<open>
  A call returns an int. Two programs agree when they cannot be told apart by such answers; then
  they have the same runs.
\<close>

primrec agree :: "prog \<Rightarrow> prog \<Rightarrow> bool" where
  "agree (Exit n) q = (q = Exit n)"
| "agree Undef q = (q = Undef)"
| "agree Diverge q = (q = Diverge)"
| "agree Cut q = (q = Cut)"
| "agree (Out s p) q = (\<exists>p'. q = Out s p' \<and> agree p p')"
| "agree (Perror s p) q = (\<exists>p'. q = Perror s p' \<and> agree p p')"
| "agree (Call c k) q = (\<exists>k'. q = Call c k' \<and> (\<forall>a. int32 (ret a) \<longrightarrow> agree (k a) (k' a)))"

lemma agree_refl [simp]: "agree p p"
  by (induction p) auto

lemma agree_exec: "agree p q \<Longrightarrow> list_all (\<lambda>a. int32 (ret a)) as \<Longrightarrow> exec p as = exec q as"
proof (induction p arbitrary: q as)
  case (Call c k)
  then show ?case by (cases as) auto
qed auto

lemma agree_run: "agree p q \<Longrightarrow> (\<And>c s. int32 (ret (fst (K c s)))) \<Longrightarrow> run K p s = run K q s"
proof (induction p arbitrary: q s)
  case (Call c k)
  obtain k' where q: "q = Call c k'" "\<forall>a. int32 (ret a) \<longrightarrow> agree (k a) (k' a)" using Call.prems(1) by auto
  obtain a s' where a: "K c s = (a, s')" by fastforce
  moreover have "int32 (ret a)" using Call.prems(2) [of c s] a by simp
  ultimately show ?case using Call.IH [of "k a" "k' a" s'] Call.prems(2) q by simp
qed auto

lemma agree_Call: "(\<And>a. int32 (ret a) \<Longrightarrow> agree (k a) (k' a)) \<Longrightarrow> agree (Call c k) (Call c k')"
  by simp

lemma agree_if: "(c \<Longrightarrow> agree p p') \<Longrightarrow> (\<not> c \<Longrightarrow> agree q q') \<Longrightarrow> agree (if c then p else q) (if c then p' else q')"
  by simp

lemma agree_Out: "agree p p' \<Longrightarrow> agree (Out s p) (Out s p')"
  by simp

lemma agree_put_str:
  "(\<And>b'. length b' = length b \<Longrightarrow> agree (k b') (k' b')) \<Longrightarrow> agree (put_str b s k) (put_str b s k')"
  by (simp add: put_str_def length_overwrite length_lit)

lemma agree_strcat:
  "(\<And>b'. length b' = length b \<Longrightarrow> agree (k b') (k' b')) \<Longrightarrow> agree (strcat b s k) (strcat b s k')"
  by (simp add: strcat_def agree_put_str)

section \<open>Typed results\<close>

text \<open>A procedure passes on values of a kind when it cannot tell continuations apart that agree on them.\<close>

definition passes :: "('s \<Rightarrow> 'r \<Rightarrow> bool) \<Rightarrow> (('s \<Rightarrow> 'r \<Rightarrow> prog) \<Rightarrow> prog) \<Rightarrow> bool" where
  "passes P p = (\<forall>k k'. (\<forall>s r. P s r \<longrightarrow> agree (k s r) (k' s r)) \<longrightarrow> agree (p k) (p k'))"

lemma passes_mono: "passes P p \<Longrightarrow> (\<And>s r. P s r \<Longrightarrow> Q s r) \<Longrightarrow> passes Q p"
  by (auto simp: passes_def)

lemma passesD: "passes P p \<Longrightarrow> (\<And>s r. P s r \<Longrightarrow> agree (k s r) (k' s r)) \<Longrightarrow> agree (p k) (p k')"
  by (auto simp: passes_def)

text \<open>The round trip of a call: the stub's reply is what the procedure gave.\<close>

lemma stub_serves:
  assumes a: "xdr_codec xa fa ga m oka" and r: "xdr_codec xr fr gr n okr"
    and ok: "oka argp" "oka zero" "okr clnt_res" and room: "m \<le> croom" "n \<le> sroom"
    and p: "passes (\<lambda>s r. okr r) (proc argp)"
  shows "agree (clnt_stub xa xr clnt_res croom
      (\<lambda>bs k. svc_call xa xr zero sroom bs proc st (\<lambda>reply _. k reply) next) argp k)
    (proc argp (\<lambda>st r. k (Some r)))"
proof -
  obtain s where e: "xa (encoder croom) argp = Some (s, argp)" "x_data s = fa argp"
    using xdr_codec.encodes [OF a ok(1) room(1)] by blast
  obtain s' where d: "xa (decoder (fa argp)) zero = Some (s', argp)"
    using xdr_codec.decodes [OF a ok(1,2)] by blast
  have reply: "(case xr (encoder sroom) v of None \<Rightarrow> System_err | Some (s, _) \<Rightarrow> Success (x_data s)) = Success (fr v)"
    if "okr v" for v
    using xdr_codec.encodes [OF r that room(2)] by auto
  have same: "map_option snd (xr (decoder (fr v)) clnt_res) = Some v" if "okr v" for v
    using xdr_codec.decodes [OF r that ok(3)] by auto
  have "agree (proc argp (\<lambda>s v. case (case xr (encoder sroom) v of None \<Rightarrow> System_err | Some (s, _) \<Rightarrow> Success (x_data s)) of
      Success bs \<Rightarrow> k (map_option snd (xr (decoder bs) clnt_res)) | _ \<Rightarrow> k None)) (proc argp (\<lambda>s v. k (Some v)))"
    by (rule passesD [OF p]) (simp add: reply same)
  then show ?thesis by (simp add: clnt_stub_def svc_call_def e d)
qed

lemma short_request:
  "xdr_codec xa fa ga m oka \<Longrightarrow> oka zero \<Longrightarrow> length bs < m \<Longrightarrow>
    svc_call xa xr zero room bs proc st reply next = reply Garbage_args (next st)"
  by (simp add: svc_call_def xdr_codec.refuses)

section \<open>The procedures\<close>

definition fits_results :: "nfs_results \<Rightarrow> bool" where
  "fits_results st = (fits_bufnode (ls_result st) \<and> fits_bufnode (read_result st) \<and> fits_bufnode (getattr_result st))"

lemma ls_entry_agree:
  assumes "fits_bufnode result" "\<And>r. fits_bufnode r \<Longrightarrow> agree (done' r) (done'' r)"
    "\<And>r. fits_bufnode r \<Longrightarrow> agree (again r) (again' r)"
  shows "agree (ls_entry result done' again) (ls_entry result done'' again')"
  using assms unfolding ls_entry_def
  by (auto simp: fits_bufnode_def intro!: agree_Call agree_strcat)

lemma ls_loop_agree:
  "fits_bufnode result \<Longrightarrow> (\<And>r. fits_bufnode r \<Longrightarrow> agree (k r) (k' r)) \<Longrightarrow>
    agree (forever n (\<lambda>r. ls_entry r k) result) (forever n (\<lambda>r. ls_entry r k') result)"
  by (induction n arbitrary: result) (auto intro!: ls_entry_agree)

lemma nfs_ls_agree:
  "fits_bufnode result \<Longrightarrow> (\<And>r. fits_bufnode r \<Longrightarrow> agree (k r) (k' r)) \<Longrightarrow>
    agree (nfs_ls_1_svc n result argp k) (nfs_ls_1_svc n result argp k')"
  unfolding nfs_ls_1_svc_def Let_def
  by (auto simp: fits_bufnode_def length_overwrite length_lit intro!: ls_loop_agree)

lemma nfs_read_agree:
  "fits_bufnode result \<Longrightarrow> (\<And>r. fits_bufnode r \<Longrightarrow> agree (k r) (k' r)) \<Longrightarrow>
    agree (nfs_read_1_svc result argp k) (nfs_read_1_svc result argp k')"
  unfolding nfs_read_1_svc_def Let_def
  by (auto simp: fits_bufnode_def length_overwrite)

lemma getattr_agree:
  "fits_bufnode result \<Longrightarrow> (\<And>r. fits_bufnode r \<Longrightarrow> agree (k r) (k' r)) \<Longrightarrow>
    agree (getattr_1_svc result argp k) (getattr_1_svc result argp k')"
  unfolding getattr_1_svc_def Let_def print_perms_def
  by (intro agree_if agree_Out agree_Call agree_put_str agree_strcat) (auto simp: fits_bufnode_def)

lemma int_agree:
  assumes "\<And>i. int32 i \<Longrightarrow> agree (k i) (k' i)"
  shows "agree (nfs_write_1_svc old w k) (nfs_write_1_svc old w k')"
    and "agree (nfs_cd_1_svc b k) (nfs_cd_1_svc b k')"
    and "agree (setattr_1_svc b k) (setattr_1_svc b k')"
    and "agree (nfs_remove_1_svc b k) (nfs_remove_1_svc b k')"
    and "agree (nfs_mkdir_1_svc b k) (nfs_mkdir_1_svc b k')"
    and "agree (nfs_touch_1_svc b k) (nfs_touch_1_svc b k')"
  using assms [of "- 1"] assms
  by (simp_all add: nfs_write_1_svc_def nfs_cd_1_svc_def setattr_1_svc_def nfs_remove_1_svc_def
      nfs_mkdir_1_svc_def nfs_touch_1_svc_def Let_def int32_def)

section \<open>Requests\<close>

text \<open>The nine calls as data: by the client's stub, and by the procedure itself.\<close>

datatype nfs_request =
    Ls_req bufnode
  | Write_req file_args_w
  | Read_req file_args_r
  | Cd_req bufnode
  | Getattr_req bufnode
  | Setattr_req bufnode
  | Remove_req bufnode
  | Mkdir_req bufnode
  | Touch_req bufnode

datatype nfs_value = Buf_value bufnode | Int_value int

fun nfs_call :: "xdrlib \<Rightarrow> nat \<Rightarrow> carrier \<Rightarrow> nfs_request \<Rightarrow> (nfs_value option \<Rightarrow> prog) \<Rightarrow> prog" where
  "nfs_call L room clnt (Ls_req a) k = nfs_ls_1 L room clnt a (\<lambda>r. k (map_option Buf_value r))"
| "nfs_call L room clnt (Write_req a) k = nfs_write_1 L room clnt a (\<lambda>r. k (map_option Int_value r))"
| "nfs_call L room clnt (Read_req a) k = nfs_read_1 L room clnt a (\<lambda>r. k (map_option Buf_value r))"
| "nfs_call L room clnt (Cd_req a) k = nfs_cd_1 L room clnt a (\<lambda>r. k (map_option Int_value r))"
| "nfs_call L room clnt (Getattr_req a) k = getattr_1 L room clnt a (\<lambda>r. k (map_option Buf_value r))"
| "nfs_call L room clnt (Setattr_req a) k = setattr_1 L room clnt a (\<lambda>r. k (map_option Int_value r))"
| "nfs_call L room clnt (Remove_req a) k = nfs_remove_1 L room clnt a (\<lambda>r. k (map_option Int_value r))"
| "nfs_call L room clnt (Mkdir_req a) k = nfs_mkdir_1 L room clnt a (\<lambda>r. k (map_option Int_value r))"
| "nfs_call L room clnt (Touch_req a) k = nfs_touch_1 L room clnt a (\<lambda>r. k (map_option Int_value r))"

fun nfs_perform :: "'s nfs_procs \<Rightarrow> 's \<Rightarrow> nfs_request \<Rightarrow> ('s \<Rightarrow> nfs_value \<Rightarrow> prog) \<Rightarrow> prog" where
  "nfs_perform P st (Ls_req a) k = p_ls P st a (\<lambda>st r. k st (Buf_value r))"
| "nfs_perform P st (Write_req a) k = p_write P st a (\<lambda>st r. k st (Int_value r))"
| "nfs_perform P st (Read_req a) k = p_read P st a (\<lambda>st r. k st (Buf_value r))"
| "nfs_perform P st (Cd_req a) k = p_cd P st a (\<lambda>st r. k st (Int_value r))"
| "nfs_perform P st (Getattr_req a) k = p_getattr P st a (\<lambda>st r. k st (Buf_value r))"
| "nfs_perform P st (Setattr_req a) k = p_setattr P st a (\<lambda>st r. k st (Int_value r))"
| "nfs_perform P st (Remove_req a) k = p_remove P st a (\<lambda>st r. k st (Int_value r))"
| "nfs_perform P st (Mkdir_req a) k = p_mkdir P st a (\<lambda>st r. k st (Int_value r))"
| "nfs_perform P st (Touch_req a) k = p_touch P st a (\<lambda>st r. k st (Int_value r))"

fun fits_request :: "nfs_request \<Rightarrow> bool" where
  "fits_request (Ls_req a) = fits_bufnode a"
| "fits_request (Write_req a) = fits_args_w a"
| "fits_request (Read_req a) = fits_args_r a"
| "fits_request (Cd_req a) = fits_bufnode a"
| "fits_request (Getattr_req a) = fits_bufnode a"
| "fits_request (Setattr_req a) = fits_bufnode a"
| "fits_request (Remove_req a) = fits_bufnode a"
| "fits_request (Mkdir_req a) = fits_bufnode a"
| "fits_request (Touch_req a) = fits_bufnode a"

definition direct :: "('s \<Rightarrow> int \<Rightarrow> string \<Rightarrow> (rpc_reply \<Rightarrow> prog \<Rightarrow> prog) \<Rightarrow> ('s \<Rightarrow> prog) \<Rightarrow> prog) \<Rightarrow> 's \<Rightarrow> carrier" where
  "direct dispatch st = (\<lambda>rq_proc bs k. dispatch st rq_proc bs (\<lambda>reply _. k reply) (\<lambda>_. Cut))"

lemma zero_fits [simp]: "fits_bufnode zero_bufnode" "fits_args_r zero_args_r" "fits_args_w zero_args_w" "int32 0"
  by (simp_all add: fits_bufnode_def fits_args_r_def fits_args_w_def zero_bufnode_def zero_args_r_def
      zero_args_w_def int32_def length_zeros)

lemma server_passes:
  assumes "fits_results st"
  shows "passes (\<lambda>s r. fits_bufnode r) (p_ls (nfs_server_procs n) st b)"
    and "passes (\<lambda>s r. int32 r) (p_write (nfs_server_procs n) st w)"
    and "passes (\<lambda>s r. fits_bufnode r) (p_read (nfs_server_procs n) st a)"
    and "passes (\<lambda>s r. int32 r) (p_cd (nfs_server_procs n) st b)"
    and "passes (\<lambda>s r. fits_bufnode r) (p_getattr (nfs_server_procs n) st b)"
    and "passes (\<lambda>s r. int32 r) (p_setattr (nfs_server_procs n) st b)"
    and "passes (\<lambda>s r. int32 r) (p_remove (nfs_server_procs n) st b)"
    and "passes (\<lambda>s r. int32 r) (p_mkdir (nfs_server_procs n) st b)"
    and "passes (\<lambda>s r. int32 r) (p_touch (nfs_server_procs n) st b)"
  using assms
  by (auto simp: nfs_server_procs_def passes_def fits_results_def
      intro!: nfs_ls_agree nfs_read_agree getattr_agree int_agree)

lemmas stub_defs = nfs_ls_1_def nfs_write_1_def nfs_read_1_def nfs_cd_1_def getattr_1_def setattr_1_def
  nfs_remove_1_def nfs_mkdir_1_def nfs_touch_1_def

context xdr_library
begin

lemma calls_agree:
  assumes "fits_results st" "fits_request req" "4616 \<le> croom" "4100 \<le> sroom"
  shows "agree (nfs_call L croom (direct (nfs_dispatch L (nfs_server_procs n) sroom) st) req k)
    (nfs_perform (nfs_server_procs n) st req (\<lambda>_ v. k (Some v)))"
proof -
  have r: "4100 \<le> croom" "520 \<le> croom" "4 \<le> sroom" using assms by simp_all
  note p = server_passes [OF assms(1)] and s = stub_serves
  note bb = s [OF bufnode_codec bufnode_codec _ zero_fits(1,1) r(1) assms(4)]
    and bi = s [OF bufnode_codec int _ zero_fits(1,4) r(1,3)]
    and wi = s [OF args_w_codec int _ zero_fits(3,4) assms(3) r(3)]
    and rb = s [OF args_r_codec bufnode_codec _ zero_fits(2,1) r(2) assms(4)]
  note d = nfs_dispatch_def stub_defs direct_def Let_def
  show ?thesis
  proof (cases req)
    case (Ls_req a)
    then show ?thesis using bb [where k = "\<lambda>r. k (map_option Buf_value r)" and proc = "p_ls (nfs_server_procs n) st", OF _ p(1)] assms(2) by (simp add: d)
  next
    case (Write_req a)
    then show ?thesis using wi [where k = "\<lambda>r. k (map_option Int_value r)" and proc = "p_write (nfs_server_procs n) st", OF _ p(2)] assms(2) by (simp add: d)
  next
    case (Read_req a)
    then show ?thesis using rb [where k = "\<lambda>r. k (map_option Buf_value r)" and proc = "p_read (nfs_server_procs n) st", OF _ p(3)] assms(2) by (simp add: d)
  next
    case (Cd_req a)
    then show ?thesis using bi [where k = "\<lambda>r. k (map_option Int_value r)" and proc = "p_cd (nfs_server_procs n) st", OF _ p(4)] assms(2) by (simp add: d)
  next
    case (Getattr_req a)
    then show ?thesis using bb [where k = "\<lambda>r. k (map_option Buf_value r)" and proc = "p_getattr (nfs_server_procs n) st", OF _ p(5)] assms(2) by (simp add: d)
  next
    case (Setattr_req a)
    then show ?thesis using bi [where k = "\<lambda>r. k (map_option Int_value r)" and proc = "p_setattr (nfs_server_procs n) st", OF _ p(6)] assms(2) by (simp add: d)
  next
    case (Remove_req a)
    then show ?thesis using bi [where k = "\<lambda>r. k (map_option Int_value r)" and proc = "p_remove (nfs_server_procs n) st", OF _ p(7)] assms(2) by (simp add: d)
  next
    case (Mkdir_req a)
    then show ?thesis using bi [where k = "\<lambda>r. k (map_option Int_value r)" and proc = "p_mkdir (nfs_server_procs n) st", OF _ p(8)] assms(2) by (simp add: d)
  next
    case (Touch_req a)
    then show ?thesis using bi [where k = "\<lambda>r. k (map_option Int_value r)" and proc = "p_touch (nfs_server_procs n) st", OF _ p(9)] assms(2) by (simp add: d)
  qed
qed

end

section \<open>What the stubs do\<close>

text \<open>
  C5. A remote call is a local call: for each of the nine procedures, a client
  stub whose bytes are carried to the dispatch function of the server runs like the procedure itself
  on the stub's argument, with the kernel's answers in the same order, and goes on with the value the
  procedure gave. Arguments and static results have the sizes of their C types, the transports have
  room for the largest message, and system calls answer ints.
\<close>

theorem remote_calls_are_local:
  assumes "xdr_library L" and "fits_results st" and "fits_request req"
    and "4616 \<le> croom" and "4100 \<le> sroom" and "list_all (\<lambda>a. int32 (ret a)) as"
  shows "exec (nfs_call L croom (direct (nfs_dispatch L (nfs_server_procs n) sroom) st) req k) as =
    exec (nfs_perform (nfs_server_procs n) st req (\<lambda>_ v. k (Some v))) as"
  by (rule agree_exec [OF xdr_library.calls_agree [OF assms(1-5)] assms(6)])

theorem remote_calls_are_local_witness:
  "trace (nfs_call rfc_library 8800 (direct (nfs_dispatch rfc_library (nfs_server_procs 3) 8800)
      \<lparr>ls_result = zero_bufnode, write_result = 0, read_result = zero_bufnode, getattr_result = zero_bufnode\<rparr>)
      (Cd_req \<lparr>buffer = lit ''/tmp'' @ zeros 1019, size = 0\<rparr>) (\<lambda>v. if v = Some (Int_value 0) then Exit 0 else Exit 1)) [rets 0] =
    [Printed (line ''Got a cd req /tmp''), Did (Chdir ''/tmp'') (rets 0)]"
proof -
  let ?st = "\<lparr>ls_result = zero_bufnode, write_result = 0, read_result = zero_bufnode, getattr_result = zero_bufnode\<rparr>"
    and ?req = "Cd_req \<lparr>buffer = lit ''/tmp'' @ zeros 1019, size = 0\<rparr>"
    and ?k = "\<lambda>v. if v = Some (Int_value 0) then Exit 0 else Exit 1"
  have "exec (nfs_call rfc_library 8800 (direct (nfs_dispatch rfc_library (nfs_server_procs 3) 8800) ?st) ?req ?k) [rets 0] =
      exec (nfs_perform (nfs_server_procs 3) ?st ?req (\<lambda>_ v. ?k (Some v))) [rets 0]"
    by (rule remote_calls_are_local)
      (simp_all add: rfc.xdr_library_axioms fits_results_def fits_bufnode_def [of "\<lparr>buffer = _, size = _\<rparr>"]
        length_lit length_zeros int32_def)
  then show ?thesis
    by (simp add: trace_def nfs_server_procs_def nfs_cd_1_svc_def c_str_lit_append no_nul_def)
qed



text \<open>
  The two branches of xdr_numbers do the same: for every array of ints and
  every stream, and whether or not the library offers the stream's bytes as an array, the filter does
  what the calls of the primitive filters do; what it writes is 129 units that it reads back as the
  same value.
\<close>

theorem numbers_branches_same:
  assumes "xdr_library L" and "fits_numbers a" and "fits_numbers b" and "516 \<le> room"
  shows "xdr_numbers L s a = numbers_by_calls L s a \<and>
    (\<exists>s'. xdr_numbers L (encoder room) a = Some (s', a) \<and> x_data s' = put_longs (amount a # nums a)) \<and>
    (\<exists>s'. xdr_numbers L (decoder (put_longs (amount a # nums a))) b = Some (s', a))"
  using xdr_library.inline_same [OF assms(1,2), of s]
    xdr_codec.encodes [OF xdr_library.numbers_codec [OF assms(1)] assms(2,4)]
    xdr_codec.decodes [OF xdr_library.numbers_codec [OF assms(1)] assms(2,3)]
  by (simp add: numbers_form_def)

theorem numbers_branches_same_witness:
  "\<exists>s'. xdr_numbers rfc_library (decoder (put_longs (3 # [1, - 2, 5] @ replicate 125 0)))
    \<lparr>amount = 0, nums = replicate 128 0\<rparr> = Some (s', \<lparr>amount = 3, nums = [1, - 2, 5] @ replicate 125 0\<rparr>)"
  using numbers_branches_same [OF rfc.xdr_library_axioms, of "\<lparr>amount = 3, nums = [1, - 2, 5] @ replicate 125 0\<rparr>"
      "\<lparr>amount = 0, nums = replicate 128 0\<rparr>" 516 "encoder 0"]
  by (simp add: fits_numbers_def int32_def list_all_iff)

end
