(* ===== verification/CN_Remote.thy ===== *)
theory CN_Remote imports CN_Stub begin

text \<open>
  The remote file service as a whole: the command loop of nfs_client.c, the stubs, the dispatch
  function and the procedures of nfs_server.c, linked into one program, on a kernel with a keyboard
  and regular files. The theorem follows two commands, a write and a read, from the typed lines to
  the file and back to the terminal.
\<close>

section \<open>Linking client and server\<close>

text \<open>The requests behind the calls that the client model makes, and their answers.\<close>

definition request_of :: "call \<Rightarrow> nfs_request option" where
  "request_of c = (case c of
     Clnt_call p [b] [n] \<Rightarrow>
       (let a = \<lparr>buffer = b, size = word_of_int n\<rparr> in
        if p = 1 then Some (Ls_req a) else if p = 4 then Some (Cd_req a)
        else if p = 5 then Some (Getattr_req a) else if p = 6 then Some (Setattr_req a)
        else if p = 7 then Some (Remove_req a) else if p = 8 then Some (Mkdir_req a)
        else if p = 9 then Some (Touch_req a) else None)
   | Clnt_call p [f, b] [off, n] \<Rightarrow>
       (if p = 2 then Some (Write_req \<lparr>w_filename = f, w_offset = word_of_int off, w_buffer = b, w_size = word_of_int n\<rparr>)
        else None)
   | Clnt_call p [f] [off, n] \<Rightarrow>
       (if p = 3 then Some (Read_req \<lparr>r_filename = f, r_offset = word_of_int off, r_size = word_of_int n\<rparr>) else None)
   | _ \<Rightarrow> None)"

definition value_ans :: "nfs_value option \<Rightarrow> ans" where
  "value_ans v = (case v of None \<Rightarrow> rets (- 1)
     | Some (Buf_value b) \<Rightarrow> \<lparr>ret = 0, dat = buffer b, ints = [uint (size b)]\<rparr>
     | Some (Int_value i) \<Rightarrow> gets_ints 0 [i])"

text \<open>
  The client with its calls served by the server; sts has the static variables of the server before
  each of its calls.
\<close>

primrec linked ::
    "('s \<Rightarrow> nfs_request \<Rightarrow> (nfs_value option \<Rightarrow> prog) \<Rightarrow> prog) \<Rightarrow> prog \<Rightarrow> (nat \<Rightarrow> 's) \<Rightarrow> prog" where
  "linked serve (Exit n) sts = Exit n"
| "linked serve Undef sts = Undef"
| "linked serve Diverge sts = Diverge"
| "linked serve Cut sts = Cut"
| "linked serve (Out x p) sts = Out x (linked serve p sts)"
| "linked serve (Perror x p) sts = Perror x (linked serve p sts)"
| "linked serve (Call c k) sts = (case request_of c of
      None \<Rightarrow> Call c (\<lambda>a. linked serve (k a) sts)
    | Some req \<Rightarrow> serve (sts 0) req (\<lambda>v. linked serve (k (value_ans v)) (\<lambda>i. sts (Suc i))))"

definition remote ::
    "xdrlib \<Rightarrow> nat \<Rightarrow> nat \<Rightarrow> nat \<Rightarrow> nfs_results \<Rightarrow> nfs_request \<Rightarrow> (nfs_value option \<Rightarrow> prog) \<Rightarrow> prog" where
  "remote L n croom sroom st req k =
     nfs_call L croom (direct (nfs_dispatch L (nfs_server_procs n) sroom) st) req k"

section \<open>A kernel with a keyboard\<close>

text \<open>Return values are ints.\<close>

definition to_int :: "int \<Rightarrow> int" where
  "to_int i = sint (word_of_int i :: 32 word)"

definition keyed :: "call \<Rightarrow> string list \<times> kfs \<Rightarrow> ans \<times> string list \<times> kfs" where
  "keyed c st = (case st of (ls, s) \<Rightarrow>
     (case c of
        Fgets n \<Rightarrow> (case ls of [] \<Rightarrow> (rets 0, ([], s)) | l # ls \<Rightarrow> ((gives l)\<lparr>ret := to_int (int (length l))\<rparr>, (ls, s)))
      | _ \<Rightarrow> (case fs_kernel c s of (a, s) \<Rightarrow> (a\<lparr>ret := to_int (ret a)\<rparr>, (ls, s)))))"

lemma to_int_same: "int32 i \<Longrightarrow> to_int i = i"
  by (simp add: to_int_def int32_word)

lemma keyed_int: "int32 (ret (fst (keyed c st)))"
  by (auto simp: keyed_def to_int_def int32_sint rets_def int32_def [of 0] split: prod.splits call.splits list.splits)

lemma keyed_line: "length l < 1024 \<Longrightarrow> keyed (Fgets n) (l # ls, s) = (gives l, (ls, s))"
  by (simp add: keyed_def to_int_same int32_def gives_def)

lemma keyed_file:
  assumes "fs_kernel c s = (a, s')" and "int32 (ret a)" and "\<And>n. c \<noteq> Fgets n"
  shows "keyed c (ls, s) = (a, (ls, s'))"
  using assms by (cases c) (auto simp: keyed_def to_int_same)

lemma run_remote:
  assumes "xdr_library L" "fits_results st" "fits_request req" "4616 \<le> croom" "4100 \<le> sroom"
  shows "run keyed (remote L n croom sroom st req k) s =
    run keyed (nfs_perform (nfs_server_procs n) st req (\<lambda>_ v. k (Some v))) s"
  unfolding remote_def by (rule agree_run [OF xdr_library.calls_agree [OF assms] keyed_int])

section \<open>Command lines\<close>

definition word_chars :: "string \<Rightarrow> bool" where
  "word_chars w = (w \<noteq> [] \<and> no_nul w \<and> CHR '' '' \<notin> set w \<and> newline \<notin> set w)"

lemma strtok_delims:
  assumes "w \<noteq> []" "\<forall>x\<in>set w. x \<notin> set ds"
  shows "c \<in> set ds \<Longrightarrow> strtok ds (w @ c # r) = Some (w, r)" and "strtok ds w = Some (w, [])"
proof -
  have d: "dropWhile (\<lambda>x. x \<in> set ds) (w @ s) = w @ s" for s using assms by (cases w) auto
  then show "strtok ds w = Some (w, [])"
    using assms d [of "[]"] by (simp add: strtok_def Let_def takeWhile_eq_all_conv [THEN iffD2] dropWhile_eq_Nil_conv [THEN iffD2])
  assume "c \<in> set ds"
  then have "takeWhile (\<lambda>x. x \<notin> set ds) (w @ c # r) = w" "dropWhile (\<lambda>x. x \<notin> set ds) (w @ c # r) = c # r"
    using assms(2) by (auto simp: takeWhile_append dropWhile_append)
  then show "strtok ds (w @ c # r) = Some (w, r)" using assms(1) d [of "c # r"] by (simp add: strtok_def Let_def)
qed

lemma words_split:
  assumes "word_chars w"
  shows "strtok [CHR '' '', newline] (w @ CHR '' '' # r) = Some (w, r)"
    and "strtok '' '' (w @ CHR '' '' # r) = Some (w, r)"
    and "strtok '' '' (line w) = Some (line w, [])"
  using assms strtok_delims [of w "[CHR '' '', newline]"] strtok_delims [of w "'' ''"]
    strtok_delims(2) [of "line w" "'' ''"]
  by (force simp: word_chars_def)+

lemma cut_word: "word_chars w \<Longrightarrow> cut_newline w = w"
  by (cases w) (auto simp: cut_newline_def word_chars_def)

lemma word_digits: "list_all is_digit w \<Longrightarrow> w \<noteq> [] \<Longrightarrow> word_chars w"
  by (auto simp: word_chars_def no_nul_def list_all_iff is_digit_def)

lemma dec_digits: "dec (int n) = dec_nat n" "word_chars (dec_nat n)"
  using dec_nat_Cons [of n] by (auto simp: dec_def intro!: word_digits dec_nat_digits)

lemma atoi_digits:
  assumes "\<not> is_digit c"
  shows "atoi (dec_nat n @ c # r) = int n"
proof -
  obtain d t where d: "d < 10" "dec_nat n = digit_char d # t" using dec_nat_Cons by blast
  have "read_digits 0 (dec_nat n @ c # r) = n"
    using assms by (simp add: read_digits_stop dec_nat_digits read_dec_nat)
  with d digit_char_not [OF d(1)] show ?thesis by (simp add: atoi_def del: read_digits.simps)
qed

lemma atoi_typed: "atoi (lit (line (dec_nat n))) = int n" "atoi (lit (dec_nat n)) = int n"
  using atoi_digits [of newline n "[NUL]"] atoi_digits [of NUL n "[]"] by (simp_all add: lit_def is_digit_def)

definition write_line :: "string \<Rightarrow> string \<Rightarrow> nat \<Rightarrow> nat \<Rightarrow> string" where
  "write_line f t off n = ''write '' @ f @ '' '' @ t @ '' '' @ dec (int off) @ '' '' @ dec (int n) @ [newline]"

definition read_line :: "string \<Rightarrow> nat \<Rightarrow> nat \<Rightarrow> string" where
  "read_line f off n = ''read '' @ f @ '' '' @ dec (int off) @ '' '' @ dec (int n) @ [newline]"

lemma write_args:
  assumes "word_chars f" "word_chars t"
  shows "strtok [CHR '' '', newline] (write_line f t off n) =
      Some (''write'', f @ '' '' @ t @ '' '' @ dec (int off) @ '' '' @ dec (int n) @ [newline])"
    and "tok_args 4 (f @ '' '' @ t @ '' '' @ dec (int off) @ '' '' @ dec (int n) @ [newline]) =
      [f, t, dec_nat off, line (dec_nat n)]"
  using words_split(1) [of "''write''"] words_split(2) [OF assms(1)] words_split(2) [OF assms(2)]
    words_split(2,3) [OF dec_digits(2)]
  by (simp_all add: write_line_def word_chars_def no_nul_def dec_digits numeral_eq_Suc)

lemma read_args:
  assumes "word_chars f"
  shows "strtok [CHR '' '', newline] (read_line f off n) =
      Some (''read'', f @ '' '' @ dec (int off) @ '' '' @ dec (int n) @ [newline])"
    and "tok_args 4 (f @ '' '' @ dec (int off) @ '' '' @ dec (int n) @ [newline]) =
      [f, dec_nat off, line (dec_nat n)]"
  using words_split(1) [of "''read''"] words_split(2) [OF assms(1)] words_split(2,3) [OF dec_digits(2)]
  by (simp_all add: read_line_def word_chars_def no_nul_def dec_digits numeral_eq_Suc) (simp_all add: strtok_def)

section \<open>The procedures on this kernel\<close>

lemma small_int32: "0 \<le> i \<Longrightarrow> i \<le> 1024 \<Longrightarrow> int32 i"
  by (simp add: int32_def)

lemma keyed_write:
  assumes "kfiles s f = Some content" and "c_str (w_filename w) = f" and "length (w_buffer w) = 1024"
    and "w_size w \<le> 1024" and "int32 (knext s)" and "int32 (uint (w_offset w))"
  shows "\<exists>s'. (\<forall>k. run keyed (nfs_write_1_svc old w k) (ls, s) =
      (case run keyed (k (uint (w_size w))) (ls, s') of (t, e) \<Rightarrow> (line (''Got a write req '' @ f) # t, e))) \<and>
    kfiles s' = (kfiles s)(f \<mapsto> patch (unat (w_offset w)) (take (unat (w_size w)) (w_buffer w)) content) \<and>
    knext s' = knext s + 1"
proof -
  let ?d = "take (unat (w_size w)) (w_buffer w)" and ?o = "unat (w_offset w)" and ?n = "knext s"
  have n: "unat (w_size w) \<le> 1024" using assms(4) by (simp add: word_le_nat_alt)
  have nats: "nat (uint (w_size w)) = unat (w_size w)" "nat (uint (w_offset w)) = ?o"
    by (simp_all add: nat_uint_eq)
  have sz: "int (unat (w_size w)) = uint (w_size w)" by (simp only: uint_nat)
  have u: "uint (w_size w) \<le> 1024" using assms(4) by (simp add: word_le_def)
  have i: "int32 0" "int32 (uint (w_size w))"
    using u by (auto intro!: small_int32)
  define s1 where "s1 = s\<lparr>kopen := (kopen s)(?n \<mapsto> (f, 0)), knext := ?n + 1\<rparr>"
  define s2 where "s2 = s1\<lparr>kopen := (kopen s1)(?n \<mapsto> (f, ?o))\<rparr>"
  define s3 where "s3 = s2\<lparr>kfiles := (kfiles s)(f \<mapsto> patch ?o ?d content), kopen := (kopen s2)(?n \<mapsto> (f, ?o + length ?d))\<rparr>"
  have calls: "keyed (Access f) (ls, s) = (rets 0, ls, s)"
    "keyed (Stat f) (ls, s) = (gets_ints 0 [33188, 1, 0, 0, int (length content), 0], ls, s)"
    "keyed (Open f [O_WRONLY]) (ls, s) = (rets ?n, ls, s1)"
    "keyed (Lseek ?n (uint (w_offset w))) (ls, s1) = (rets (uint (w_offset w)), ls, s2)"
    "keyed (Write ?n (w_buffer w) (uint (w_size w))) (ls, s2) = (rets (uint (w_size w)), ls, s3)"
    "keyed (Close ?n) (ls, s3) = (rets 0, ls, s3\<lparr>kopen := (kopen s3)(?n := None)\<rparr>)"
    using assms i n by (auto intro!: keyed_file simp: s1_def s2_def s3_def nats sz min_def)
  define s4 where "s4 = s3\<lparr>kopen := (kopen s3)(?n := None)\<rparr>"
  have "run keyed (nfs_write_1_svc old w k) (ls, s) =
      (case run keyed (k (uint (w_size w))) (ls, s4) of (t, e) \<Rightarrow> (line (''Got a write req '' @ f) # t, e))" for k
    by (simp add: nfs_write_1_svc_def Let_def assms(2) calls s4_def split: prod.splits)
  moreover have "kfiles s4 = (kfiles s)(f \<mapsto> patch ?o ?d content)" "knext s4 = knext s + 1"
    by (simp_all add: s1_def s2_def s3_def s4_def)
  ultimately show ?thesis by blast
qed

lemma keyed_read:
  assumes "kfiles s f = Some content" and "c_str (r_filename r) = f" and "length (buffer res) = 1024"
    and "r_size r \<le> 1024" and "int32 (knext s)" and "int32 (uint (r_offset r))"
    and "unat (r_offset r) + unat (r_size r) \<le> length content"
  shows "\<exists>s'. (\<forall>k. run keyed (nfs_read_1_svc res r k) (ls, s) =
      (case run keyed (k (res\<lparr>buffer := overwrite (buffer res)
          (take (unat (r_size r)) (drop (unat (r_offset r)) content)), size := r_size r\<rparr>)) (ls, s') of
        (t, e) \<Rightarrow> (line (''Got a read request '' @ f @ '' '' @ dec (int (length f))) # t, e))) \<and>
    kfiles s' = kfiles s"
proof -
  let ?o = "unat (r_offset r)" and ?n = "knext s"
  let ?d = "take (unat (r_size r)) (drop ?o content)"
  have n: "unat (r_size r) \<le> 1024" using assms(4) by (simp add: word_le_nat_alt)
  have nats: "nat (uint (r_size r)) = unat (r_size r)" "nat (uint (r_offset r)) = ?o"
    by (simp_all add: nat_uint_eq)
  have sz: "int (unat (r_size r)) = uint (r_size r)" by (simp only: uint_nat)
  have len: "length ?d = unat (r_size r)" using assms(7) by simp
  have u: "uint (r_size r) \<le> 1024" using assms(4) by (simp add: word_le_def)
  have i: "int32 0" "int32 (int (length ?d))"
    unfolding len sz using u by (auto intro!: small_int32)
  define s1 where "s1 = s\<lparr>kopen := (kopen s)(?n \<mapsto> (f, 0)), knext := ?n + 1\<rparr>"
  define s2 where "s2 = s1\<lparr>kopen := (kopen s1)(?n \<mapsto> (f, ?o))\<rparr>"
  define s3 where "s3 = s2\<lparr>kopen := (kopen s2)(?n \<mapsto> (f, ?o + length ?d))\<rparr>"
  have calls: "keyed (Access f) (ls, s) = (rets 0, ls, s)"
    "keyed (Stat f) (ls, s) = (gets_ints 0 [33188, 1, 0, 0, int (length content), 0], ls, s)"
    "keyed (Open f [O_RDONLY]) (ls, s) = (rets ?n, ls, s1)"
    "keyed (Lseek ?n (uint (r_offset r))) (ls, s1) = (rets (uint (r_offset r)), ls, s2)"
    "keyed (Read ?n (uint (r_size r))) (ls, s2) = (gives ?d, ls, s3)"
    "keyed (Close ?n) (ls, s3) = (rets 0, ls, s3\<lparr>kopen := (kopen s3)(?n := None)\<rparr>)"
    using assms i by (auto intro!: keyed_file simp: s1_def s2_def s3_def nats)
  have fits: "got (uint (r_size r)) (gives ?d) = ?d" using len sz by (intro got_gives) simp
  have ret: "ret (gives ?d) = uint (r_size r)" using len sz by simp
  define s4 where "s4 = s3\<lparr>kopen := (kopen s3)(?n := None)\<rparr>"
  have "run keyed (nfs_read_1_svc res r k) (ls, s) =
      (case run keyed (k (res\<lparr>buffer := overwrite (buffer res) ?d, size := r_size r\<rparr>)) (ls, s4) of
        (t, e) \<Rightarrow> (line (''Got a read request '' @ f @ '' '' @ dec (int (length f))) # t, e))" for k
    using n assms(3) len fits ret
    by (simp add: nfs_read_1_svc_def Let_def assms(2) calls s4_def split: prod.splits)
  moreover have "kfiles s4 = kfiles s" by (simp add: s1_def s2_def s3_def s4_def)
  ultimately show ?thesis by blast
qed

section \<open>The commands\<close>

definition fits_client :: "nfs_args \<Rightarrow> bool" where
  "fits_client nst = (length (w_filename (write_arg nst)) = 128 \<and> length (w_buffer (write_arg nst)) = 1024 \<and>
     length (r_filename (read_arg nst)) = 128)"

text \<open>A turn of the loop with a typed line whose first word is a command.\<close>

lemma typed_command:
  assumes "strtok [CHR '' '', newline] l = Some (cmd, rest)" and "no_nul l" and "length l < 1024" and "length buf = 1024"
  obtains buf' where "length buf' = 1024"
    and "\<And>k serve sts s ls. run keyed (linked serve (nfs_command (nst, buf) k) sts) (l # ls, s) =
      (case run keyed (linked serve
          (let args = tok_args 4 rest; c = getCommandType cmd; k' = (\<lambda>st. k (st, buf')) in
           if c = 0 then Out (line ''Byee !'') (Exit 1)
           else if c = 1 then client_ls args nst k'
           else if c = 2 then client_read args nst k'
           else if c = 3 then client_write args nst k'
           else if c = 4 then client_cd args nst k'
           else if c = 5 then client_getattr args nst k'
           else if c = 6 then client_setattr args nst k'
           else if c = 7 then client_remove args nst k'
           else if c = 8 then client_mkdir args nst k'
           else if c = 9 then client_touch args nst k'
           else Out (line ''Invalid Command'') (k' nst)) sts) (ls, s) of
        (t, e) \<Rightarrow> (''terminal@$ '' # t, e))"
proof -
  let ?b = "overwrite buf (lit l)"
  define buf' where
    "buf' = ?b[length (takeWhile (\<lambda>c. c = CHR '' '' \<or> c = newline) (c_str ?b)) + length cmd := NUL]"
  have l: "l \<noteq> []" using assms(1) by (auto simp: strtok_def)
  have "length buf' = 1024" using assms(3,4) by (simp add: buf'_def length_overwrite length_lit)
  moreover have "take 1023 l = l" "c_str ?b = l" using assms(2,3) by (simp_all add: c_str_overwrite_lit)
  moreover have "request_of (Fgets 1024) = None" by (simp add: request_of_def)
  ultimately show ?thesis
    by (intro that [of buf'])
      (use assms(1,3) l in \<open>simp_all add: nfs_command_def keyed_line Let_def buf'_def split: prod.splits\<close>)
qed

lemma write_command:
  assumes "xdr_library L" "fits_results (sts 0)" "4616 \<le> croom" "4100 \<le> sroom" and nst: "fits_client nst"
    and "length buf = 1024" "kfiles s f = Some content" "word_chars f" "word_chars t"
    and "length f < 128" "length (write_line f t off (length t)) < 1024" "int off < 2 ^ 31" "int32 (knext s)"
  shows "\<exists>nst' buf' s'. fits_client nst' \<and> length buf' = 1024 \<and> kfiles s' = (kfiles s)(f \<mapsto> patch off t content) \<and>
    knext s' = knext s + 1 \<and>
    (\<forall>k. run keyed (linked (remote L m croom sroom) (nfs_command (nst, buf) k) sts)
        (write_line f t off (length t) # ls, s) =
      (case run keyed (linked (remote L m croom sroom) (k (nst', buf')) (\<lambda>i. sts (Suc i))) (ls, s') of
        (out, e) \<Rightarrow> (''terminal@$ '' # line (''Got a write req '' @ f) #
          line (dec (int (length t)) @ '' byte written !'') # out, e)))"
proof -
  let ?l = "write_line f t off (length t)" and ?serve = "remote L m croom sroom"
  have nl: "no_nul ?l"
    using assms(8,9) dec_digits(2) [of off] dec_digits(2) [of "length t"]
    by (simp add: write_line_def word_chars_def no_nul_def dec_digits(1))
  obtain buf' where buf: "length buf' = 1024" and turn: "\<And>k.
      run keyed (linked ?serve (nfs_command (nst, buf) k) sts) (?l # ls, s) =
      (case run keyed (linked ?serve (client_write [f, t, dec_nat off, line (dec_nat (length t))] nst (\<lambda>st. k (st, buf'))) sts)
          (ls, s) of (t, e) \<Rightarrow> (''terminal@$ '' # t, e))"
    by (rule typed_command [OF write_args(1) [OF assms(8,9)] nl assms(11,6), of nst], rule that)
      (simp_all add: write_args(2) [OF assms(8,9), unfolded append_Cons append_Nil] getCommandType_def Let_def)
  define w where "w = \<lparr>w_filename = overwrite (w_filename (write_arg nst)) (lit f), w_offset = of_nat off,
    w_buffer = overwrite (w_buffer (write_arg nst)) (lit t), w_size = of_nat (length t)\<rparr>"
  have lt: "length t < 1024" using assms(11) by (simp add: write_line_def)
  have un: "unat (w_offset w) = off" "unat (w_size w) = length t"
    using assms(12) lt by (simp_all add: w_def unat_of_nat)
  have w: "fits_args_w w" "c_str (w_filename w) = f" "take (length t) (w_buffer w) = t" "w_size w \<le> 1024"
    "length (w_buffer w) = 1024" "int32 (uint (w_offset w))" "uint (w_size w) = int (length t)"
  proof -
    have nn: "no_nul f" "no_nul t" using assms(8,9) by (simp_all add: word_chars_def)
    show "fits_args_w w" "length (w_buffer w) = 1024"
      using nst assms(10) lt by (simp_all add: w_def fits_args_w_def fits_client_def length_overwrite length_lit)
    show "c_str (w_filename w) = f" using nn by (simp add: w_def c_str_overwrite_lit)
    show "take (length t) (w_buffer w) = t" by (simp add: w_def overwrite_def lit_def)
    show "w_size w \<le> 1024" using lt un(2) by (simp add: word_le_nat_alt)
    show "uint (w_size w) = int (length t)" by (simp only: uint_nat un)
    have "uint (w_offset w) = int off" by (simp only: uint_nat un)
    then show "int32 (uint (w_offset w))" using assms(12) by (simp add: int32_def)
  qed
  let ?nst = "nst\<lparr>write_arg := w\<rparr>"
  have cmd: "client_write [f, t, dec_nat off, line (dec_nat (length t))] nst k =
      Call (Clnt_call 2 [w_filename w, w_buffer w] [uint (w_offset w), uint (w_size w)]) (\<lambda>a.
        if ret a < 0 then Perror ''call failed'' (k ?nst)
        else let n = (case ints a of [] \<Rightarrow> 0 | r # _ \<Rightarrow> r) in
          if n < 0 then Out (line ''Wrting Error occured, File not exist or access denied.'') (k ?nst)
          else Out (line (dec n @ '' byte written !'')) (k ?nst))" for k
    using nst assms(10) lt unfolding w_def
    by (simp add: client_write_def cut_word [OF assms(8)] cut_word [OF assms(9)] strcpy_arg_def fits_client_def
        atoi_typed Let_def)
  have req: "request_of (Clnt_call 2 [w_filename w, w_buffer w] [uint (w_offset w), uint (w_size w)]) = Some (Write_req w)"
    by (simp add: request_of_def)
  obtain s' where s': "kfiles s' = (kfiles s)(f \<mapsto> patch off t content)" "knext s' = knext s + 1"
    "\<And>k. run keyed (nfs_write_1_svc (write_result (sts 0)) w k) (ls, s) =
      (case run keyed (k (int (length t))) (ls, s') of (t, e) \<Rightarrow> (line (''Got a write req '' @ f) # t, e))"
    using keyed_write [OF assms(7) w(2,5,4) assms(13) w(6), of "write_result (sts 0)" ls] unfolding un w(3,7) by blast
  have "run keyed (linked ?serve (nfs_command (nst, buf) k) sts) (?l # ls, s) =
      (case run keyed (linked ?serve (k (?nst, buf')) (\<lambda>i. sts (Suc i))) (ls, s') of
        (out, e) \<Rightarrow> (''terminal@$ '' # line (''Got a write req '' @ f) #
          line (dec (int (length t)) @ '' byte written !'') # out, e))" for k
    by (simp add: turn cmd req run_remote [OF assms(1-2) _ assms(3,4)] w(1) nfs_server_procs_def s'(3) value_ans_def
        split: prod.splits)
  moreover have "fits_client ?nst" using nst w(1) by (simp add: fits_client_def fits_args_w_def)
  ultimately show ?thesis using s'(1,2) buf by blast
qed

lemma read_command:
  fixes n :: nat
  defines "d \<equiv> \<lambda>content off. take n (drop off content)"
  assumes "xdr_library L" "fits_results (sts 0)" "4616 \<le> croom" "4100 \<le> sroom" and nst: "fits_client nst"
    and "length buf = 1024" "kfiles s f = Some content" "word_chars f" "length f < 128"
    and "length (read_line f off n) < 1024" "int off < 2 ^ 31" "int32 (knext s)" "n \<le> 1024" "off + n \<le> length content"
    and "no_nul (d content off)" "NUL \<in> set (drop n (buffer (read_result (sts 0))))"
  shows "\<exists>nst' buf' s'. kfiles s' = kfiles s \<and>
    (\<forall>k. run keyed (linked (remote L m croom sroom) (nfs_command (nst, buf) k) sts) (read_line f off n # ls, s) =
      (case run keyed (linked (remote L m croom sroom) (k (nst', buf')) (\<lambda>i. sts (Suc i))) (ls, s') of
        (out, e) \<Rightarrow> (''terminal@$ '' # line (''Got a read request '' @ f @ '' '' @ dec (int (length f))) #
          line (''Read '' @ dec (int n) @ '' bytes'') #
          line (d content off @ c_str (drop n (buffer (read_result (sts 0))))) # out, e)))"
proof -
  let ?l = "read_line f off n" and ?serve = "remote L m croom sroom" and ?res = "read_result (sts 0)"
  have nl: "no_nul ?l"
    using assms(9) dec_digits(2) [of off] dec_digits(2) [of n]
    by (simp add: read_line_def word_chars_def no_nul_def dec_digits(1))
  obtain buf' where turn: "\<And>k. run keyed (linked ?serve (nfs_command (nst, buf) k) sts) (?l # ls, s) =
      (case run keyed (linked ?serve (client_read [f, dec_nat off, line (dec_nat n)] nst (\<lambda>st. k (st, buf'))) sts)
          (ls, s) of (t, e) \<Rightarrow> (''terminal@$ '' # t, e))"
    by (rule typed_command [OF read_args(1) [OF assms(9)] nl assms(11,7), of nst], rule that)
      (simp_all add: read_args(2) [OF assms(9), unfolded append_Cons append_Nil] getCommandType_def Let_def)
  define r where "r = \<lparr>r_filename = overwrite (r_filename (read_arg nst)) (lit f), r_offset = of_nat off, r_size = of_nat n\<rparr>"
  have un: "unat (r_offset r) = off" "unat (r_size r) = n" using assms(12,14) by (simp_all add: r_def unat_of_nat)
  have r: "fits_args_r r" "c_str (r_filename r) = f" "r_size r \<le> 1024" "int32 (uint (r_offset r))"
    "sint (r_size r) = int n"
  proof -
    show "fits_args_r r"
      using nst assms(10) by (simp add: r_def fits_args_r_def fits_client_def length_overwrite length_lit)
    show "c_str (r_filename r) = f" using assms(9) by (simp add: r_def word_chars_def c_str_overwrite_lit)
    show "r_size r \<le> 1024" using assms(14) un(2) by (simp add: word_le_nat_alt)
    have "uint (r_offset r) = int off" by (simp only: uint_nat un)
    then show "int32 (uint (r_offset r))" using assms(12) by (simp add: int32_def)
    have "r_size r = word_of_int (int n)" by (simp add: r_def)
    then show "sint (r_size r) = int n" using assms(14) by (simp only: int32_word small_int32 of_nat_le_iff)
  qed
  let ?nst = "nst\<lparr>read_arg := r\<rparr>"
  have cmd: "client_read [f, dec_nat off, line (dec_nat n)] nst k =
      Call (Clnt_call 3 [r_filename r] [uint (r_offset r), uint (r_size r)]) (\<lambda>a.
        if ret a < 0 then Perror ''call failed'' (k ?nst)
        else if res_size a < 0 then Out (line ''File Reading error Occured !'') (k ?nst)
        else Out (line (''Read '' @ dec (sint (res_size a)) @ '' bytes'')) (print_result a (k ?nst)))" for k
    using nst assms(10) unfolding r_def
    by (simp add: client_read_def cut_word [OF assms(9)] strcpy_arg_def fits_client_def atoi_typed Let_def)
  have req: "request_of (Clnt_call 3 [r_filename r] [uint (r_offset r), uint (r_size r)]) = Some (Read_req r)"
    by (simp add: request_of_def)
  let ?d = "take n (drop off content)"
  let ?new = "?res\<lparr>buffer := overwrite (buffer ?res) ?d, size := r_size r\<rparr>"
  have fres: "length (buffer ?res) = 1024" using assms(3) by (simp add: fits_results_def fits_bufnode_def)
  have le: "unat (r_offset r) + unat (r_size r) \<le> length content" using assms(15) un by simp
  obtain s' where s': "kfiles s' = kfiles s"
    "\<And>k. run keyed (nfs_read_1_svc ?res r k) (ls, s) =
      (case run keyed (k ?new) (ls, s') of
        (t, e) \<Rightarrow> (line (''Got a read request '' @ f @ '' '' @ dec (int (length f))) # t, e))"
    using keyed_read [OF assms(8) r(2) fres r(3) assms(13) r(4) le, of ls] unfolding un by blast
  have ld: "length ?d = n" using assms(15) by simp
  have shown: "NUL \<in> set (buffer ?new)" "c_str (buffer ?new) = ?d @ c_str (drop n (buffer ?res))"
    using assms(16,17) ld unfolding d_def
    by (simp_all add: overwrite_def c_str_def no_nul_def takeWhile_append2 list_all_iff)
  have "run keyed (linked ?serve (nfs_command (nst, buf) k) sts) (?l # ls, s) =
      (case run keyed (linked ?serve (k (?nst, buf')) (\<lambda>i. sts (Suc i))) (ls, s') of
        (out, e) \<Rightarrow> (''terminal@$ '' # line (''Got a read request '' @ f @ '' '' @ dec (int (length f))) #
          line (''Read '' @ dec (int n) @ '' bytes'') # line (?d @ c_str (drop n (buffer ?res))) # out, e))" for k
    using shown r(5)
    by (simp add: turn cmd req run_remote [OF assms(2,3) _ assms(4,5)] r(1) nfs_server_procs_def s'(2) value_ans_def
        res_size_def print_result_def split: prod.splits)
  then show ?thesis unfolding d_def using s'(1) by blast
qed

section \<open>From the keyboard to the file and back\<close>

text \<open>
  C2. A user of the remote file service who types a write command for an existing
  file and then a read command for the same place gets back what was written: the file has the text
  at the offset, the client reports the numbers of bytes, and the terminal shows the text, followed
  by what an earlier read has left in the server's result behind it up to the first NUL. Words have no
  blanks, the lines fit the client's buffer, and the static variables of the server are arbitrary.
\<close>

theorem typed_write_then_read:
  assumes "xdr_library L" and "4616 \<le> croom" and "4100 \<le> sroom" and "\<And>i. fits_results (sts i)"
    and "fits_client nst" and "length buf = 1024"
    and "kfiles s f = Some content" and "word_chars f" and "word_chars t" and "length f < 128"
    and "length (write_line f t off (length t)) < 1024" and "int off < 2 ^ 31"
    and "int32 (knext s)" and "int32 (knext s + 1)"
    and "NUL \<in> set (drop (length t) (buffer (read_result (sts 1))))"
  shows "\<exists>ls s'. run keyed (linked (remote L m croom sroom) (forever 2 nfs_command (nst, buf)) sts)
      ([write_line f t off (length t), read_line f off (length t)], s) =
    ([''terminal@$ '', line (''Got a write req '' @ f), line (dec (int (length t)) @ '' byte written !''),
      ''terminal@$ '', line (''Got a read request '' @ f @ '' '' @ dec (int (length f))),
      line (''Read '' @ dec (int (length t)) @ '' bytes''),
      line (t @ c_str (drop (length t) (buffer (read_result (sts 1)))))], Unrolled, ls, s') \<and>
    kfiles s' = (kfiles s)(f \<mapsto> patch off t content)"
proof -
  let ?serve = "remote L m croom sroom" and ?n = "length t" and ?content = "patch off t content"
  let ?w = "write_line f t off ?n" and ?r = "read_line f off ?n"
  have lr: "length ?r < 1024" "?n \<le> 1024" using assms(11) by (simp_all add: write_line_def read_line_def)
  obtain nst1 buf1 s1 where w: "fits_client nst1" "length buf1 = 1024" "kfiles s1 = (kfiles s)(f \<mapsto> ?content)"
    "knext s1 = knext s + 1"
    "\<And>k. run keyed (linked ?serve (nfs_command (nst, buf) k) sts) (?w # [?r], s) =
      (case run keyed (linked ?serve (k (nst1, buf1)) (\<lambda>i. sts (Suc i))) ([?r], s1) of
        (out, e) \<Rightarrow> (''terminal@$ '' # line (''Got a write req '' @ f) #
          line (dec (int ?n) @ '' byte written !'') # out, e))"
    using write_command [where sts = sts and m = m and ls = "[?r]", OF assms(1,4,2,3) assms(5-13)] by blast
  have f1: "kfiles s1 f = Some ?content" "int32 (knext s1)" using w(3,4) assms(14) by simp_all
  have d: "take ?n (drop off ?content) = t" "no_nul t" "off + ?n \<le> length ?content"
    using assms(9) read_patch [of t off content] by (auto simp: word_chars_def patch_def length_zeros)
  obtain nst2 buf2 s2 where r: "kfiles s2 = kfiles s1"
    "\<And>k. run keyed (linked ?serve (nfs_command (nst1, buf1) k) (\<lambda>i. sts (Suc i))) (?r # [], s1) =
      (case run keyed (linked ?serve (k (nst2, buf2)) (\<lambda>i. sts (Suc (Suc i)))) ([], s2) of
        (out, e) \<Rightarrow> (''terminal@$ '' # line (''Got a read request '' @ f @ '' '' @ dec (int (length f))) #
          line (''Read '' @ dec (int ?n) @ '' bytes'') #
          line (t @ c_str (drop ?n (buffer (read_result (sts (Suc 0)))))) # out, e))"
    using read_command [where sts = "\<lambda>i. sts (Suc i)" and m = m and ls = "[]",
        OF assms(1) assms(4) assms(2,3) w(1,2) f1(1) assms(8,10) lr(1) assms(12) f1(2) lr(2) d(3)] d(1,2) assms(15) by auto
  show ?thesis
    by (intro exI [of _ "[]"] exI [of _ s2]) (simp add: w(5) r numeral_2_eq_2, simp add: w(3))
qed

theorem typed_write_then_read_witness:
  "\<exists>ls s'. run keyed (linked (remote rfc_library 9 8800 8800) (forever 2 nfs_command (some_args, zeros 1024))
      (\<lambda>_. \<lparr>ls_result = zero_bufnode, write_result = 0, read_result = zero_bufnode, getattr_result = zero_bufnode\<rparr>))
      ([''write notes xy 3 2'' @ [newline], ''read notes 3 2'' @ [newline]],
       \<lparr>kfiles = [''notes'' \<mapsto> ''abcdefg''], kopen = Map.empty, knext = 3\<rparr>) =
    ([''terminal@$ '', line ''Got a write req notes'', line ''2 byte written !'',
      ''terminal@$ '', line ''Got a read request notes 5'', line ''Read 2 bytes'', line ''xy''], Unrolled, ls, s') \<and>
    kfiles s' = [''notes'' \<mapsto> ''abcxyfg'']"
proof -
  let ?st = "\<lparr>ls_result = zero_bufnode, write_result = 0, read_result = zero_bufnode, getattr_result = zero_bufnode\<rparr>"
    and ?s = "\<lparr>kfiles = [''notes'' \<mapsto> ''abcdefg''], kopen = Map.empty, knext = 3\<rparr>"
  have lines: "write_line ''notes'' ''xy'' 3 (length ''xy'') = ''write notes xy 3 2'' @ [newline]"
    "read_line ''notes'' 3 (length ''xy'') = ''read notes 3 2'' @ [newline]" by code_simp+
  have decs: "dec (int (length ''xy'')) = ''2''" "dec (int (length ''notes'')) = ''5''"
    "patch 3 ''xy'' ''abcdefg'' = ''abcxyfg''" by code_simp+
  have z: "drop (length ''xy'') (zeros 1024) = zeros 1022" "NUL \<in> set (zeros 1022)" by (simp_all add: zeros_def)
  have "fits_client some_args" by (simp add: fits_client_def some_args_def Let_def length_zeros)
  moreover have "fits_results ?st" by (simp add: fits_results_def)
  moreover have "word_chars ''notes''" "word_chars ''xy''" by (simp_all add: word_chars_def no_nul_def)
  moreover have "length (write_line ''notes'' ''xy'' 3 (length ''xy'')) < 1024" unfolding lines by simp
  moreover have "NUL \<in> set (drop (length ''xy'') (buffer (read_result ?st)))"
    unfolding zero_bufnode_def nfs_results.simps bufnode.simps z(1) by (rule z(2))
  ultimately have "\<exists>ls s'. run keyed (linked (remote rfc_library 9 8800 8800) (forever 2 nfs_command (some_args, zeros 1024)) (\<lambda>_. ?st))
      ([write_line ''notes'' ''xy'' 3 (length ''xy''), read_line ''notes'' 3 (length ''xy'')], ?s) =
    ([''terminal@$ '', line (''Got a write req '' @ ''notes''), line (dec (int (length ''xy'')) @ '' byte written !''),
      ''terminal@$ '', line (''Got a read request '' @ ''notes'' @ '' '' @ dec (int (length ''notes''))),
      line (''Read '' @ dec (int (length ''xy'')) @ '' bytes''),
      line (''xy'' @ c_str (drop (length ''xy'') (buffer (read_result ?st))))], Unrolled, ls, s') \<and>
    kfiles s' = (kfiles ?s)(''notes'' \<mapsto> patch 3 ''xy'' ''abcdefg'')"
    by (intro typed_write_then_read [OF rfc.xdr_library_axioms]) (simp_all add: length_zeros int32_def)
  then show ?thesis
    unfolding lines decs zero_bufnode_def nfs_results.simps bufnode.simps z(1) c_str_zeros kfs.simps by simp
qed

end
