(* ===== verification/CN_Small.thy ===== *)
theory CN_Small imports CN_Chat begin

text \<open>
  Exercises with one or two system calls: pipes (chatserver/pipeproc1.c and pipeproc2.c), signals
  (exam/5/psample.c and psignal.c, mid/helper/signals), processes and threads (exectest.c,
  sample.c, test.c, threadlearn.c), and the client of logserver.
\<close>

section \<open>A pipe between two programs\<close>

text \<open>buf has 25 bytes, and read is asked for 100; a failed read gives write a negative length.\<close>

definition pipe_in_turn :: "int \<Rightarrow> string \<Rightarrow> (string \<Rightarrow> prog) \<Rightarrow> prog" where
  "pipe_in_turn fd buf again =
     Call (Read 0 100) (\<lambda>a. store 100 buf a (\<lambda>buf.
     write_str fd buf (ret a) (write_str 1 buf (ret a) (again buf))))"

definition pipe_in_main :: "nat \<Rightarrow> string \<Rightarrow> prog" where
  "pipe_in_main n buf =
     Call (Mkfifo ''pipe'') (\<lambda>_.
     Call (Open ''pipe'' [O_WRONLY, O_NONBLOCK]) (\<lambda>f. forever n (pipe_in_turn (ret f)) buf))"

definition pipe_out_turn :: "int \<Rightarrow> string \<Rightarrow> (string \<Rightarrow> prog) \<Rightarrow> prog" where
  "pipe_out_turn fd buf again =
     Call (Poll [(fd, 1)] 1000) (\<lambda>a.
     if revent 0 a AND 1 \<noteq> 0 then
       Call (Read fd 25) (\<lambda>a. store 25 buf a (\<lambda>buf. write_str 1 buf (ret a) (Exit 0)))
     else again buf)"

definition pipe_out_main :: "nat \<Rightarrow> string \<Rightarrow> prog" where
  "pipe_out_main n buf = Call (Open ''pipe'' [O_RDONLY]) (\<lambda>f. forever n (pipe_out_turn (ret f)) buf)"

section \<open>Signals\<close>

text \<open>The process number goes through shared memory.\<close>

definition sample_handler :: "prog \<Rightarrow> prog" where
  "sample_handler k = Out (line ''got signal'') k"

definition psample_main :: prog where
  "psample_main =
     Call Getpid (\<lambda>p.
     Call (Shmget 5679 4 True) (\<lambda>id.
     Call (Shmat (ret id)) (\<lambda>shm.
     Call (ShmStore (ret shm) 0 (ret p)) (\<lambda>_.
     Call (Signal 10 ''handler_func'') (\<lambda>_.
     Call Pause (\<lambda>_. sample_handler (Exit 0)))))))"

definition psignal_main :: prog where
  "psignal_main =
     Call (Shmget 5679 4 False) (\<lambda>id.
     Call (Shmat (ret id)) (\<lambda>shm.
     Call (ShmLoad (ret shm) 0) (\<lambda>p.
     Out (line (''the pid is '' @ dec (ret p))) (
     Call (ShmLoad (ret shm) 0) (\<lambda>p. Call (Kill (ret p) 10) (\<lambda>_. Exit 0))))))"

text \<open>What stands behind the endless loop of mid/helper/signals/main.c is never reached.\<close>

definition signal_handler :: "prog \<Rightarrow> prog" where
  "signal_handler k = Out (line ''hi how are you from signal'') k"

definition signal_main :: prog where
  "signal_main =
     Out (line ''starting'') (
     Call (Signal 10 ''handler_func'') (\<lambda>_.
     Call Getpid (\<lambda>p. Out (line (dec (ret p))) Diverge)))"

section \<open>Processes and threads\<close>

definition hello_main :: prog where
  "hello_main = Out (line ''helloworld'') (Exit 0)"

definition exec_main :: prog where
  "exec_main =
     Call Fork (\<lambda>c.
     if 0 < ret c then Call Wait (\<lambda>_. Out (line ''parent process'') (Exit 0))
     else
       Out (line ''child process entered'') (
       Call (Execve ''sample'' []) (\<lambda>_. Out (line ''will never be printed'') (Exit 0))))"

definition replace_main :: prog where
  "replace_main = Call (Execve ''sample.out'' []) (\<lambda>_. Exit 0)"

definition function1 :: prog where
  "function1 = Out (line ''this is from function1'') (Exit 0)"

definition function2 :: prog where
  "function2 = Out (line ''this is from function 2'') (Exit 0)"

definition two_threads_main :: prog where
  "two_threads_main =
     Call (Pthread_create ''function1'' '''') (\<lambda>_.
     Call (Pthread_create ''function2'' '''') (\<lambda>_.
     Call (Pthread_join ''thread1'') (\<lambda>_.
     Call (Pthread_join ''thread2'') (\<lambda>_. Exit 0))))"

section \<open>The client of logserver\<close>

text \<open>Its threads are those of the chat client; fdB is never opened and stays 0.\<close>

definition log_client_main :: "string list \<Rightarrow> prog" where
  "log_client_main argv =
     (if length argv < 2 then Undef else
     Call (Open (argv ! 1) [O_WRONLY]) (\<lambda>f. error_code (ret f) ''opening file'' (
     Out (line (argv ! 1)) (
     Out (line ''done first'') (
     Call (Pthread_create ''reader'' '''') (\<lambda>_.
     Call (Pthread_create ''writer'' '''') (\<lambda>_.
     Call (Pthread_join ''readerthread'') (\<lambda>_.
     Call (Pthread_join ''writerthread'') (\<lambda>_. Exit 0)))))))))"

section \<open>What goes wrong and right\<close>

text \<open>A line of more than 25 characters overruns the buffer of pipeproc1.\<close>

lemma pipe_in_overrun:
  "length buf = 25 \<Longrightarrow> 25 < length d \<Longrightarrow> length d \<le> 100 \<Longrightarrow> final_of (pipe_in_turn fd buf again) [gives d] = Undefined"
  by (simp add: pipe_in_turn_def store_def got_gives)

text \<open>psample stores its process number where psignal reads the one that it signals.\<close>

lemma psignal_signals:
  "ShmStore shm 0 p \<in> set (calls (trace psample_main [rets p, rets i, rets shm, rets 0]))"
  "calls (trace psignal_main [rets j, rets shm', rets p, rets p, rets 0]) =
    [Shmget 5679 4 False, Shmat j, ShmLoad shm' 0, ShmLoad shm' 0, Kill p 10]"
  by (simp_all add: psample_main_def psignal_main_def)

end
