(* ===== verification/CN_Backup.thy ===== *)
theory CN_Backup imports CN_Cascade begin

text \<open>
  unixsockets/bs: a server (server.c) with a backup (backserver.c). On SIGUSR1 the server signals
  the backup, passes it the connections of its clients over a UNIX socket, and exits; the
  backup's signal handler receives them and starts a thread for each. The handlers are programs
  over the global variables of their process.
\<close>

section \<open>The server\<close>

record bs_st =
  cfd :: "int list"
  clients_no :: int

definition max_clients :: nat where "max_clients = 5"

definition bs_func :: "nat \<Rightarrow> int \<Rightarrow> string \<Rightarrow> prog" where
  "bs_func n nfd namebuffer =
     Out (line ''thread started'') (forever n (serve_turn ''sending from server1'' nfd) namebuffer)"

text \<open>The loop over the connections stops at the first element that is -1.\<close>

primrec pass_all :: "int \<Rightarrow> int list \<Rightarrow> prog \<Rightarrow> prog" where
  "pass_all bsfd [] k = k"
| "pass_all bsfd (fd # fds) k =
     (if fd = - 1 then k
      else Out (line (''fd '' @ dec fd)) (send_file_descriptor bsfd fd (\<lambda>_. pass_all bsfd fds k)))"

definition bs_handler :: "int \<Rightarrow> int \<Rightarrow> bs_st \<Rightarrow> prog" where
  "bs_handler pid bsfd st =
     Call (Kill pid SIGUSR1) (\<lambda>_.
     Out (line ''The server is about to shutdown'') (
     Out (line (''count of no_cients'' @ dec (clients_no st))) (
     pass_all bsfd (cfd st) (Exit 0))))"

text \<open>
  A client is stored before, and its thread's handle is chosen after, the count is increased:
  the fifth client's handle is behind the end of the array threads.
\<close>

definition bs_turn :: "int \<Rightarrow> bs_st \<Rightarrow> (bs_st \<Rightarrow> prog) \<Rightarrow> prog" where
  "bs_turn sfd st again =
     Out (line ''came1'') (
     Call (Accept sfd) (\<lambda>a. let nfd = ret a in
     Out (line ''came2'') (
     error_exit nfd ''accept error'' (
     arr_set (cfd st) (clients_no st) nfd (\<lambda>fds.
     let st = st\<lparr>cfd := fds, clients_no := clients_no st + 1\<rparr> in
     Out (line ''client accepted'') (
     if int max_clients \<le> clients_no st then Undef
     else Call (Pthread_create ''func'' ''&nfd'') (\<lambda>_. again st)))))))"

definition bs_main :: "nat \<Rightarrow> string \<Rightarrow> prog" where
  "bs_main n buffer =
     Call (Shmget 5678 4 False) (\<lambda>id.
     Call (Shmat (ret id)) (\<lambda>shm.
     Call (ShmLoad (ret shm) 0) (\<lambda>pid.
     Call (Signal SIGUSR1 ''handler_func'') (\<lambda>_.
     Call Getpid (\<lambda>p. Out (line (''Process id:'' @ dec (ret p))) (
     unix_socket (\<lambda>bsfd.
     unix_connect bsfd ''back_echo_socket'' ''From server to backupserver'' (
     unix_socket (\<lambda>sfd.
     Call (Unlink ''echo_socket'') (\<lambda>_.
     unix_listen sfd ''echo_socket'' (
     forever n (bs_turn sfd) \<lparr>cfd = replicate max_clients (- 1), clients_no = 0\<rparr>)))))))))))"

section \<open>The backup server\<close>

record back_st =
  csfd :: "int list"
  b_clients_no :: int

definition back_func :: "nat \<Rightarrow> int \<Rightarrow> string \<Rightarrow> prog" where
  "back_func n nfd namebuffer =
     Out (line ''thread started'') (forever n (serve_turn ''sending from backserver'' nfd) namebuffer)"

text \<open>A thread for every descriptor above zero; the thread reads its own array element.\<close>

definition thread_caller :: "back_st \<Rightarrow> prog \<Rightarrow> prog" where
  "thread_caller st k =
     over_array (b_clients_no st) (csfd st)
       (\<lambda>fd count k. if 0 < fd
          then (if int max_clients \<le> count then Undef
                else Call (Pthread_create ''func'' (dec fd)) (\<lambda>_. k (count + 1)))
          else k count)
       0 (\<lambda>_. k)"

text \<open>At most five receives; -1 ends the loop, the 0 of a closed connection does not.\<close>

primrec take_over :: "nat \<Rightarrow> int \<Rightarrow> back_st \<Rightarrow> (back_st \<Rightarrow> prog) \<Rightarrow> prog" where
  "take_over 0 nfd st k = k st"
| "take_over (Suc n) nfd st k =
     recv_file_descriptor nfd (\<lambda>fd.
     Out (line (''fd got is'' @ dec fd)) (
     if fd = - 1 then k st
     else arr_set (csfd st) (b_clients_no st) fd (\<lambda>fds.
       take_over n nfd (st\<lparr>csfd := fds, b_clients_no := b_clients_no st + 1\<rparr>) k)))"

definition back_handler :: "int \<Rightarrow> back_st \<Rightarrow> (back_st \<Rightarrow> prog) \<Rightarrow> prog" where
  "back_handler nfd st k =
     Out (line ''The backup server is about to begin'') (
     take_over max_clients nfd st (\<lambda>st. thread_caller st (k st)))"

text \<open>main ends in an empty loop, to which the handler returns; the work is done in the handler.\<close>

definition back_main :: "string \<Rightarrow> prog" where
  "back_main buffer =
     Call (Signal SIGUSR1 ''handler_func'') (\<lambda>_.
     Call Getpid (\<lambda>pid.
     Call (Shmget 5678 4 True) (\<lambda>id.
     Call (Shmat (ret id)) (\<lambda>shm.
     Call (ShmStore (ret shm) 0 (ret pid)) (\<lambda>_.
     unix_socket (\<lambda>sfd.
     Call (Unlink ''back_echo_socket'') (\<lambda>_.
     unix_listen sfd ''back_echo_socket'' (
     must (Accept sfd) ''accept error'' (\<lambda>nfd.
     recv_into nfd buffer 30 (\<lambda>buffer _.
     Out (line (c_str buffer)) Diverge))))))))))"

definition bs_client_main :: "nat \<Rightarrow> string \<Rightarrow> prog" where
  "bs_client_main n buffer =
     unix_socket (\<lambda>sfd.
     must (Connect sfd (UnixPath ''echo_socket'')) ''connect error'' (\<lambda>_.
     forever n (client_turn sfd) buffer))"

section \<open>Handing over\<close>

text \<open>
  The server interrupted by the signal after n turns of its loop: the handler runs on the
  variables those turns have left.
\<close>

definition bs_start :: bs_st where
  "bs_start = \<lparr>cfd = replicate max_clients (- 1), clients_no = 0\<rparr>"

definition bs_interrupted :: "nat \<Rightarrow> int \<Rightarrow> int \<Rightarrow> int \<Rightarrow> prog" where
  "bs_interrupted n sfd pid bsfd =
     for_each [0..<n] (\<lambda>_. bs_turn sfd) bs_start (bs_handler pid bsfd)"

definition back_start :: back_st where
  "back_start = \<lparr>csfd = replicate max_clients 0, b_clients_no = 0\<rparr>"

text \<open>The server's variables after it has accepted fds.\<close>

definition accepted :: "int list \<Rightarrow> bs_st" where
  "accepted fds = \<lparr>cfd = fds @ replicate (max_clients - length fds) (- 1), clients_no = int (length fds)\<rparr>"

lemma accepted_Nil: "bs_start = accepted []"
  by (simp add: bs_start_def accepted_def)

lemma store_client: "length fds \<le> 4 \<Longrightarrow>
    (fds @ replicate (5 - length fds) (- 1))[length fds := fd] =
      (fds @ [fd]) @ replicate (4 - length fds) (- 1 :: int)"
  by (simp add: Suc_diff_le numeral_eq_Suc)

lemma accept_step:
  assumes "length fds < 4" "0 \<le> fd"
  shows "calls (trace (bs_turn sfd (accepted fds) again) (rets fd # r # as)) =
      Accept sfd # Pthread_create ''func'' ''&nfd'' # calls (trace (again (accepted (fds @ [fd]))) as)"
    "final_of (bs_turn sfd (accepted fds) again) (rets fd # r # as) =
      final_of (again (accepted (fds @ [fd]))) as"
  using assms store_client [of fds fd]
  by (simp_all add: bs_turn_def accepted_def max_clients_def add.commute)

definition accepting :: "int list \<Rightarrow> ans list" where
  "accepting fds = concat (map (\<lambda>fd. [rets fd, rets 0]) fds)"

lemma accept_all:
  "length fds + length new \<le> 4 \<Longrightarrow> list_all (\<lambda>fd. 0 \<le> fd) new \<Longrightarrow> length xs = length new \<Longrightarrow>
    calls (trace (for_each xs (\<lambda>_. bs_turn sfd) (accepted fds) k) (accepting new @ as)) =
      concat (map (\<lambda>fd. [Accept sfd, Pthread_create ''func'' ''&nfd'']) new) @
      calls (trace (k (accepted (fds @ new))) as) \<and>
    final_of (for_each xs (\<lambda>_. bs_turn sfd) (accepted fds) k) (accepting new @ as) =
      final_of (k (accepted (fds @ new))) as"
proof (induction new arbitrary: fds xs)
  case (Cons fd new)
  then obtain x ys where "xs = x # ys" "length ys = length new" by (cases xs) auto
  with Cons.IH [of "fds @ [fd]" ys] Cons.prems show ?case
    by (simp add: accepting_def accept_step)
qed (simp add: accepting_def)

lemma pass_all_calls:
  "list_all (\<lambda>fd. 0 \<le> fd) fds \<Longrightarrow>
    calls (trace (pass_all bsfd (fds @ replicate n (- 1)) k) (map (\<lambda>_. rets 1) fds @ as)) =
      map (Sendmsg bsfd '' '') fds @ calls (trace k as)"
  by (induction fds) (cases n, auto)

text \<open>What the backup reads: a descriptor, or the 0 of the connection the server has left.\<close>

definition taken :: "int \<Rightarrow> ans" where
  "taken fd = (if fd = 0 then rets 0 else passed fd)"

lemma recv_taken:
  "0 \<le> fd \<Longrightarrow> trace (recv_file_descriptor s k) (taken fd # as) = Did (Recvmsg s) (taken fd) # trace (k fd) as"
  by (cases "fd = 0") (auto simp: taken_def recv_file_descriptor_def passed_def)

lemma take_over_calls:
  "length fds \<le> length old \<Longrightarrow> list_all (\<lambda>fd. 0 \<le> fd) fds \<Longrightarrow>
    calls (trace (take_over (length fds) nfd \<lparr>csfd = had @ old, b_clients_no = int (length had)\<rparr> k)
        (map taken fds @ as)) =
      replicate (length fds) (Recvmsg nfd) @ calls (trace (k
        \<lparr>csfd = (had @ fds) @ drop (length fds) old, b_clients_no = int (length had + length fds)\<rparr>) as)"
proof (induction fds arbitrary: had old)
  case (Cons fd fds)
  then obtain x old' where old: "old = x # old'" by (cases old) auto
  from Cons.IH [of old' "had @ [fd]"] Cons.prems show ?case
    by (simp add: old recv_taken add.commute)
qed simp

definition func_threads :: "int list \<Rightarrow> call list" where
  "func_threads fds = map (\<lambda>fd. Pthread_create ''func'' (dec fd)) (filter (\<lambda>fd. 0 < fd) fds)"

lemma thread_caller_from:
  "c + int (length fds) \<le> 5 \<Longrightarrow> length as = length (func_threads fds) \<Longrightarrow>
    calls (trace (for_each fds
       (\<lambda>fd count k. if 0 < fd
          then (if int max_clients \<le> count then Undef
                else Call (Pthread_create ''func'' (dec fd)) (\<lambda>_. k (count + 1)))
          else k count) c (\<lambda>_. p)) (as @ bs)) = func_threads fds @ calls (trace p bs)"
proof (induction fds arbitrary: c as)
  case (Cons fd fds)
  show ?case
  proof (cases "0 < fd")
    case True
    with Cons.prems obtain a as' where "as = a # as'" "length as' = length (func_threads fds)"
      by (cases as) (auto simp: func_threads_def)
    with True Cons.IH [of "c + 1" as'] Cons.prems show ?thesis
      by (simp add: func_threads_def max_clients_def)
  next
    case False
    with Cons.IH [of c as] Cons.prems show ?thesis by (simp add: func_threads_def)
  qed
qed (simp add: func_threads_def)

section \<open>What server and backup do together\<close>

text \<open>
  C27. At most four clients are handed over completely: the server that has
  accepted the connections fds when the signal comes passes them all to the backup, in their
  order; and the backup, which receives them as fds' and after them the end of the connection,
  starts one thread for each and none besides.
\<close>

theorem backup_takes_over:
  assumes "length fds \<le> 4" "list_all (\<lambda>fd. 0 \<le> fd) fds"
    and "length fds' = length fds" "list_all (\<lambda>fd. 0 < fd) fds'"
  shows "forwarded bsfd (calls (trace (bs_interrupted (length fds) sfd pid bsfd)
      (accepting fds @ rets 0 # map (\<lambda>_. rets 1) fds))) = fds \<and>
    calls (trace (back_handler nfd back_start (\<lambda>_. Diverge))
      (map taken (fds' @ replicate (5 - length fds) 0) @ map (\<lambda>_. rets 0) fds')) =
    replicate 5 (Recvmsg nfd) @ map (\<lambda>fd. Pthread_create ''func'' (dec fd)) fds'"
proof
  have "calls (trace (bs_handler pid bsfd (accepted fds)) (rets 0 # map (\<lambda>_. rets 1) fds)) =
      Kill pid SIGUSR1 # map (Sendmsg bsfd '' '') fds"
    using pass_all_calls [OF assms(2), of bsfd _ "Exit 0" "[]"]
    by (simp add: bs_handler_def accepted_def)
  moreover have "forwarded bsfd (concat (map (\<lambda>fd. [Accept sfd, Pthread_create ''func'' ''&nfd'']) xs)) = []"
    for xs :: "int list" by (induction xs) auto
  moreover have "forwarded bsfd (map (Sendmsg bsfd '' '') xs) = xs" for xs by (induction xs) auto
  ultimately show "forwarded bsfd (calls (trace (bs_interrupted (length fds) sfd pid bsfd)
      (accepting fds @ rets 0 # map (\<lambda>_. rets 1) fds))) = fds"
    using accept_all [of "[]" fds "[0..<length fds]" sfd] assms(1,2)
    by (simp add: bs_interrupted_def accepted_Nil)
next
  let ?all = "fds' @ replicate (5 - length fds) 0"
  have "length ?all = 5" using assms by simp
  moreover have "filter (\<lambda>fd. 0 < fd) ?all = fds'" using assms(4) by (simp add: list_all_iff)
  moreover have "list_all (\<lambda>fd. 0 \<le> fd) ?all" using assms(4) by (auto simp: list_all_iff)
  ultimately show "calls (trace (back_handler nfd back_start (\<lambda>_. Diverge))
      (map taken ?all @ map (\<lambda>_. rets 0) fds')) =
    replicate 5 (Recvmsg nfd) @ map (\<lambda>fd. Pthread_create ''func'' (dec fd)) fds'"
    using take_over_calls [of ?all "replicate 5 0" nfd "[]"]
      thread_caller_from [of 0 ?all "map (\<lambda>_. rets 0) fds'" Diverge "[]"]
    by (simp add: back_handler_def back_start_def max_clients_def thread_caller_def over_array_take
      func_threads_def assms(3))
qed

theorem backup_takes_over_witness:
  "forwarded 4 (calls (trace (bs_interrupted 2 3 77 4) (accepting [5, 6] @ [rets 0, rets 1, rets 1]))) = [5, 6]"
  using backup_takes_over [of "[5, 6]" "[8, 9]" 4 3 77 0] by (simp add: numeral_2_eq_2)

text \<open>
  The array of threads has room for five, but the handle of the fifth
  client's thread is written behind it: the fifth accepted connection makes the server's
  behaviour undefined, whatever the descriptors.
\<close>

theorem fifth_client_undefined:
  assumes "length fds = 4" "list_all (\<lambda>fd. 0 \<le> fd) fds" "0 \<le> fd"
  shows "final_of (forever (5 + n) (bs_turn sfd) bs_start) (accepting fds @ rets fd # as) = Undefined"
proof -
  have "final_of (bs_turn sfd (accepted fds) k) (rets fd # as) = Undefined" for k
    using assms by (simp add: bs_turn_def accepted_def max_clients_def)
  with assms show ?thesis
    using accept_all [of "[]" fds "[0..<4]" sfd "forever (Suc n) (bs_turn sfd)" "rets fd # as"]
    by (simp add: forever_add [of 4 "Suc n", simplified] accepted_Nil)
qed

theorem fifth_client_undefined_witness:
  "final_of (forever 5 (bs_turn 3) bs_start) (accepting [4, 5, 6, 7] @ [rets 8]) = Undefined"
  using fifth_client_undefined [of "[4, 5, 6, 7]" 8 0 3 "[]"] by simp

end
