(* ===== verification/CN_Time.thy ===== *)
theory CN_Time imports CN_Threads begin

text \<open>
  Servers that listen for several services: mid/tss/server.c starts a time service when it is
  first asked for and tells clients its port; mid/ss/server.c listens on the ports of three
  services itself. The services of tss are in the theory of the threaded servers.
\<close>

section \<open>mid/tss: the dispatcher\<close>

text \<open>services[i].name points to a buffer that is gone; it is not read again.\<close>

record tss_service =
  t_port :: int
  started :: int

definition tss_init :: "tss_service list" where
  "tss_init = map (\<lambda>i. \<lparr>t_port = 9000 + int i, started = 0\<rparr>) [0..<3]"

text \<open>In the child the service replaces the program; where this fails the child goes on.\<close>

definition tss_start :: "int \<Rightarrow> tss_service list \<Rightarrow> (tss_service list \<Rightarrow> prog) \<Rightarrow> prog" where
  "tss_start j ss k =
     put_str (zeros 30) (''service'' @ dec (j + 1)) (\<lambda>name.
     Out (line (''servname: '' @ c_str name)) (
     Call Fork (\<lambda>c.
     if ret c = 0 then Out (line ''forked child'') (Call (Execve (c_str name) []) (\<lambda>_. k ss))
     else Call (Sleep 5) (\<lambda>_. k (ss[nat j := (ss ! nat j)\<lparr>started := 1\<rparr>])))))"

text \<open>
  The loop over the descriptors tests the listening socket every time, so that one ready client
  makes it accept sfd + 1 times.
\<close>

definition tss_scan :: "string \<Rightarrow> int \<Rightarrow> int list \<Rightarrow> nat \<Rightarrow> tss_service list \<Rightarrow> (tss_service list \<Rightarrow> prog) \<Rightarrow> prog" where
  "tss_scan junk sfd tempset i ss k =
     (if sfd \<in> set tempset then
        or_out_exit (Accept sfd) ''error in accept'' (\<lambda>nsfd.
        recv_into nsfd junk 30 (\<lambda>servbuffer _. let j = atoi servbuffer in
        Out (line (''The service requested is'' @ dec j)) (
        arr_get ss j (\<lambda>s.
        let answer = \<lambda>ss. Out (line ''reached'') (
          arr_get ss j (\<lambda>s. send_int nsfd junk (t_port s) 30 (\<lambda>_.
          Out (line ''reached1'') (k ss))))
        in if started s = 0 then tss_start j ss answer else answer ss))))
      else k ss)"

definition tss_turn :: "string \<Rightarrow> int \<Rightarrow> tss_service list \<Rightarrow> (tss_service list \<Rightarrow> prog) \<Rightarrow> prog" where
  "tss_turn junk sfd ss again =
     Call (Select (sfd + 1) [sfd]) (\<lambda>a.
     out_exit (ret a) ''error in select'' (
     for_each [0..<nat (sfd + 1)] (tss_scan junk sfd (selected [sfd] a)) ss again))"

definition tss_main :: "nat \<Rightarrow> string \<Rightarrow> prog" where
  "tss_main n junk = tss_listen 8000 (\<lambda>sfd. forever n (tss_turn junk sfd) tss_init)"

section \<open>mid/tss: the client\<close>

text \<open>sizeof(argv[1]) is the size of a pointer.\<close>

definition out_note :: "int \<Rightarrow> string \<Rightarrow> prog \<Rightarrow> prog" where
  "out_note v message k = (if v < 0 then Out message k else k)"

definition tss_client_turn :: "int \<Rightarrow> string \<Rightarrow> (string \<Rightarrow> prog) \<Rightarrow> prog" where
  "tss_client_turn csfd buffer again =
     Out (line ''connection9'') (
     Call (Send csfd (lit ''from client to server'') 30) (\<lambda>s. out_note (ret s) ''sending error'' (
     Out (line ''connection3'') (
     Call (Sleep 3) (\<lambda>_.
     Out (line ''connection4'') (
     recv_into csfd buffer 30 (\<lambda>buffer r. out_note r ''recv error'' (
     Out (line ''connection5'') (
     Out (line (c_str buffer)) (
     Out (line ''connection2'') (again buffer)))))))))))"

definition tss_client_main :: "nat \<Rightarrow> string list \<Rightarrow> string \<Rightarrow> string \<Rightarrow> prog" where
  "tss_client_main n argv junk buffer =
     (if length argv < 2 then Undef else
     Call (Socket AF_INET SOCK_STREAM 0) (\<lambda>s. let sfd = ret s in
     Call (Connect sfd (any_addr 8000)) (\<lambda>_.
     send_str sfd (lit (argv ! 1)) 8 (
     recv_into sfd junk 10 (\<lambda>portbuffer _. let p = atoi portbuffer in
     Out (line (dec p)) (
     Call (Socket AF_INET SOCK_STREAM 0) (\<lambda>c.
     Call (Connect (ret c) (any_addr p)) (\<lambda>_.
     forever n (tss_client_turn (ret c)) buffer))))))))"

section \<open>mid/ss\<close>

text \<open>The port numbers are not converted with htons. junk is what stands where a name was.\<close>

definition raw_port_addr :: "int \<Rightarrow> addr" where
  "raw_port_addr p = Inet (word_of_int p) 0"

definition ss_open :: "nat \<Rightarrow> int list \<times> int \<Rightarrow> (int list \<times> int \<Rightarrow> prog) \<Rightarrow> prog" where
  "ss_open i = (\<lambda>(fdp, maxfd) k.
     Call (Socket AF_INET SOCK_STREAM 0) (\<lambda>s. let sfd = ret s in
     must (Setsockopt sfd SO_REUSEADDR) ''calling sockpot'' (\<lambda>_.
     error_exit sfd ''socket call error'' (
     must (Bind sfd (raw_port_addr (9000 + int i))) ''bind call error'' (\<lambda>_.
     must (Listen sfd 3) ''listen call error'' (\<lambda>_.
     k (fdp @ [sfd], max maxfd sfd)))))))"

definition ss_scan :: "string \<Rightarrow> string \<Rightarrow> int list \<Rightarrow> nat \<times> nat \<Rightarrow> int list \<Rightarrow> (int list \<Rightarrow> prog) \<Rightarrow> prog" where
  "ss_scan junk buf fdp ij readset k =
     Out (line ''loop construct'') (
     arr_get fdp (int (snd ij)) (\<lambda>sfd.
     if sfd \<in> set readset then
       Out (line (''the velue of j: '' @ dec (int (snd ij)))) (
       Call (Accept sfd) (\<lambda>a. Out (line (''accpted client : '' @ dec (ret a))) (
       recv_into sfd buf 5 (\<lambda>buffer _.
       Out (line (''server :'' @ c_str buffer)) (
       Out (line (junk @ ''got selected'')) (
       Out (line ''reached me'') (
       Call (Sleep 2) (\<lambda>_. k (removeAll sfd readset)))))))))
     else k readset))"

definition ss_turn :: "string \<Rightarrow> string \<Rightarrow> int list \<Rightarrow> int \<Rightarrow> unit \<Rightarrow> (unit \<Rightarrow> prog) \<Rightarrow> prog" where
  "ss_turn junk buf fdp maxfd u again =
     Out (line ''entered'') (Out (line ''called'') (
     for_each fdp (\<lambda>fd _ k. Out (dec fd) (k ())) () (\<lambda>_.
     Call (Select (maxfd + 1) fdp) (\<lambda>a.
     error_exit (ret a) ''select call error'' (
     for_each [(i, j). i \<leftarrow> [0..<nat (maxfd + 1)], j \<leftarrow> [0..<3]] (ss_scan junk buf fdp) (selected fdp a) (\<lambda>_. again ()))))))"

definition ss_main :: "nat \<Rightarrow> string \<Rightarrow> string \<Rightarrow> prog" where
  "ss_main n junk buf =
     for_each [0..<3] ss_open ([], - 1) (\<lambda>(fdp, maxfd).
     Out (line (''max fd is'' @ dec maxfd)) (forever n (ss_turn junk buf fdp maxfd) ()))"

definition ss_client_main :: "string list \<Rightarrow> prog" where
  "ss_client_main argv =
     (if length argv < 2 then Undef else
     let wanted = atoi (lit (argv ! 1)) in
     Out (line (''service wanted'' @ dec wanted)) (
     must (Socket AF_INET SOCK_STREAM 0) ''socket call error'' (\<lambda>nfd.
     must (Connect nfd (raw_port_addr (9000 + wanted - 1))) ''connect call error'' (\<lambda>_.
     Call (Sleep 3) (\<lambda>_. send_str nfd (lit ''cool'') 5 (Exit 0))))))"

section \<open>Each service is started once\<close>

text \<open>
  A request (fd, j): a client on descriptor fd asks for service j. The services with the ports
  they have from the start, those in S started.
\<close>

definition tss_table :: "nat set \<Rightarrow> tss_service list" where
  "tss_table S = map (\<lambda>i. \<lparr>t_port = 9000 + int i, started = of_bool (i \<in> S)\<rparr>) [0..<3]"

lemma tss_table_simps [simp]:
  "length (tss_table S) = 3"
  "j < 3 \<Longrightarrow> tss_table S ! j = \<lparr>t_port = 9000 + int j, started = of_bool (j \<in> S)\<rparr>"
  "j < 3 \<Longrightarrow> (tss_table S)[j := \<lparr>t_port = 9000 + int j, started = 1\<rparr>] = tss_table (insert j S)"
  by (auto simp: tss_table_def nth_list_update intro: nth_equalityI)

lemma tss_init_table: "tss_init = tss_table {}"
  by (simp add: tss_init_def tss_table_def)

text \<open>The answers to requests, where forks succeed and return 77, and the calls that they make.\<close>

primrec request_answers :: "nat set \<Rightarrow> (int \<times> nat) list \<Rightarrow> ans list" where
  "request_answers S [] = []"
| "request_answers S (r # rs) =
     [rets (fst r), gives (lit (dec (int (snd r))))] @
     (if snd r \<in> S then [] else [rets 77, rets 0]) @ [rets 30] @
     request_answers (insert (snd r) S) rs"

primrec request_calls :: "string \<Rightarrow> int \<Rightarrow> nat set \<Rightarrow> (int \<times> nat) list \<Rightarrow> call list" where
  "request_calls junk sfd S [] = []"
| "request_calls junk sfd S (r # rs) =
     [Accept sfd, Recv (fst r) 30] @ (if snd r \<in> S then [] else [Fork, Sleep 5]) @
     Send (fst r) (overwrite junk (lit (dec (9000 + int (snd r))))) 30 #
     request_calls junk sfd (insert (snd r) S) rs"

fun forks :: "call list \<Rightarrow> nat" where
  "forks [] = 0"
| "forks (c # cs) = (case c of Fork \<Rightarrow> 1 | _ \<Rightarrow> 0) + forks cs"

lemma forks_append [simp]: "forks (xs @ ys) = forks xs + forks ys"
  by (induction xs) auto

lemma tss_scan_step:
  assumes "j < 3" "0 \<le> fd" "length junk = 30" "sfd \<in> set ready"
  shows "calls (trace (tss_scan junk sfd ready i (tss_table S) k)
      ([rets fd, gives (lit (dec (int j)))] @ (if j \<in> S then [] else [rets 77, rets 0]) @ rets 30 # as)) =
    [Accept sfd, Recv fd 30] @ (if j \<in> S then [] else [Fork, Sleep 5]) @
    Send fd (overwrite junk (lit (dec (9000 + int j)))) 30 # calls (trace (k (tss_table (insert j S))) as)"
proof -
  have a: "atoi (overwrite junk (lit (dec (int j)))) = int j"
    unfolding overwrite_def by (rule atoi_dec)
  have "length (dec (int j)) \<le> 5" "length (dec (int j + 1)) \<le> 5" "length (dec (9000 + int j)) \<le> 5"
    using assms(1) by (intro length_dec_port; simp)+
  then have l: "length (dec (int j)) < 30" "length (dec (int j + 1)) < 22" "length (dec (9000 + int j)) < 30"
    by linarith+
  show ?thesis
  proof (cases "j \<in> S")
    case True
    then show ?thesis using assms l
      by (simp add: tss_scan_def or_out_exit_def out_exit_def recv_into_def send_int_def a length_lit insert_absorb Let_def)
  next
    case False
    then show ?thesis using assms l
      by (simp add: tss_scan_def tss_start_def or_out_exit_def out_exit_def recv_into_def send_int_def a
        length_lit length_zeros Let_def)
  qed
qed

lemma tss_scans:
  assumes "\<forall>r \<in> set rs. snd r < 3 \<and> 0 \<le> fst r" "length junk = 30" "sfd \<in> set ready" "length xs = length rs"
  shows "calls (trace (for_each xs (tss_scan junk sfd ready) (tss_table S) k) (request_answers S rs @ as)) =
    request_calls junk sfd S rs @ calls (trace (k (tss_table (S \<union> snd ` set rs))) as)"
  using assms(1,4)
proof (induction rs arbitrary: xs S)
  case (Cons r rs)
  then obtain x xs' where xs: "xs = x # xs'" by (cases xs) auto
  have "calls (trace (for_each xs (tss_scan junk sfd ready) (tss_table S) k) (request_answers S (r # rs) @ as)) =
      [Accept sfd, Recv (fst r) 30] @ (if snd r \<in> S then [] else [Fork, Sleep 5]) @
      Send (fst r) (overwrite junk (lit (dec (9000 + int (snd r))))) 30 #
      calls (trace (for_each xs' (tss_scan junk sfd ready) (tss_table (insert (snd r) S)) k)
        (request_answers (insert (snd r) S) rs @ as))"
    using tss_scan_step [of "snd r" "fst r" junk sfd ready x S
      "\<lambda>ss. for_each xs' (tss_scan junk sfd ready) ss k" "request_answers (insert (snd r) S) rs @ as"]
      Cons.prems assms(2,3) by (simp add: xs)
  then show ?case using Cons.IH [of xs' "insert (snd r) S"] Cons.prems by (simp add: xs)
qed simp

text \<open>The turns of the dispatcher: each a list of requests.\<close>

primrec turn_answers :: "int \<Rightarrow> nat set \<Rightarrow> (int \<times> nat) list list \<Rightarrow> ans list" where
  "turn_answers sfd S [] = []"
| "turn_answers sfd S (rs # rss) =
     gets_ints 1 [sfd] # request_answers S rs @ turn_answers sfd (S \<union> snd ` set rs) rss"

primrec turn_calls :: "string \<Rightarrow> int \<Rightarrow> nat set \<Rightarrow> (int \<times> nat) list list \<Rightarrow> call list" where
  "turn_calls junk sfd S [] = []"
| "turn_calls junk sfd S (rs # rss) =
     Select (sfd + 1) [sfd] # request_calls junk sfd S rs @ turn_calls junk sfd (S \<union> snd ` set rs) rss"

lemma tss_turns:
  assumes "\<forall>rs \<in> set rss. length rs = nat (sfd + 1) \<and> (\<forall>r \<in> set rs. snd r < 3 \<and> 0 \<le> fst r)"
    and "length junk = 30"
  shows "calls (trace (forever (length rss) (tss_turn junk sfd) (tss_table S)) (turn_answers sfd S rss)) =
    turn_calls junk sfd S rss"
  using assms(1)
proof (induction rss arbitrary: S)
  case (Cons rs rss)
  then show ?case using assms(2)
    by (simp add: tss_turn_def selected_def out_exit_def tss_scans)
qed simp

lemma forks_request_calls:
  "finite S \<Longrightarrow> forks (request_calls junk sfd S rs) = card (S \<union> snd ` set rs) - card S"
proof (induction rs arbitrary: S)
  case (Cons r rs)
  have le: "card (insert (snd r) S) \<le> card (insert (snd r) S \<union> snd ` set rs)"
    using Cons.prems by (intro card_mono) auto
  show ?case using Cons.IH [of "insert (snd r) S"] Cons.prems le
    by (cases "snd r \<in> S") (simp_all add: insert_absorb card_insert_if)
qed simp

lemma forks_turn_calls:
  "finite S \<Longrightarrow> forks (turn_calls junk sfd S rss) = card (S \<union> snd ` set (concat rss)) - card S"
proof (induction rss arbitrary: S)
  case (Cons rs rss)
  have "card S \<le> card (S \<union> snd ` set rs)" "card (S \<union> snd ` set rs) \<le> card (S \<union> snd ` set rs \<union> snd ` set (concat rss))"
    using Cons.prems by (intro card_mono; auto)+
  then show ?case using Cons.IH [of "S \<union> snd ` set rs"] Cons.prems
    by (simp add: forks_request_calls image_Un Un_assoc)
qed simp

lemma sent_request_calls:
  assumes "\<forall>r \<in> set rs. snd r < 3" "length junk = 30"
  shows "map atoi (sent fd (request_calls junk sfd S rs)) = map (\<lambda>r. 9000 + int (snd r)) (filter (\<lambda>r. fst r = fd) rs)"
  using assms(1) by (induction rs arbitrary: S) (simp_all add: atoi_sent_port)

lemma sent_turn_calls:
  assumes "\<forall>rs \<in> set rss. \<forall>r \<in> set rs. snd r < 3" "length junk = 30"
  shows "map atoi (sent fd (turn_calls junk sfd S rss)) =
    map (\<lambda>r. 9000 + int (snd r)) (filter (\<lambda>r. fst r = fd) (concat rss))"
  using assms(1) by (induction rss arbitrary: S) (simp_all add: sent_request_calls [OF _ assms(2)])



end
