(* ===== verification/CN_Train.thy ===== *)
theory CN_Train imports CN_Cascade begin

text \<open>
  Two programs that assign trains to platforms. rawsockets/trainmain: a station master (sm.c)
  accepts trains (t.c) over TCP and passes their connections to the platforms (plat.c). exam/4:
  the same with FIFOs, sm.c, p.c and t.c. The state of a station master is the array of
  available platforms and, in the first, the descriptor of the last platform.
\<close>

section \<open>rawsockets/trainmain: the station master\<close>

record station =
  plat_available :: "int list"
  newfd :: int

text \<open>The loop that takes the first platform that is available.\<close>

fun first_available :: "nat \<Rightarrow> int list \<Rightarrow> nat option" where
  "first_available k [] = None"
| "first_available k (x # xs) = (if x = 1 then Some k else first_available (k + 1) xs)"

text \<open>broadcast reaches two of the three platforms; newfd changes when k is one of them.\<close>

definition broadcast :: "nat \<Rightarrow> int \<Rightarrow> (int \<Rightarrow> prog) \<Rightarrow> prog" where
  "broadcast k nfd0 K =
     for_each [0..<2] (\<lambda>i newfd K.
       Call (Socket AF_UNIX SOCK_STREAM 0) (\<lambda>s. let bsfd = ret s in
       error_print bsfd ''socket error'' (
       tried (Connect bsfd (UnixPath (''plat_socket'' @ dec (int i + 1)))) ''connect error'' (\<lambda>_.
       send_str bsfd (lit ''From sm : train is coming'') 30 (
       K (if i = k then bsfd else newfd))))))
     nfd0 K"

definition sm_turn :: "int \<Rightarrow> station \<Rightarrow> (station \<Rightarrow> prog) \<Rightarrow> prog" where
  "sm_turn tsfd st again =
     tried (Accept tsfd) ''accept error'' (\<lambda>nfd.
     Out (line ''accepted connection'') (
     case first_available 0 (plat_available st) of
       None \<Rightarrow> again st
     | Some k \<Rightarrow>
         Out (line (''platform '' @ dec (int k) @ '' is avialble sending fd...'')) (
         broadcast k (newfd st) (\<lambda>fd.
         send_file_descriptor fd nfd (\<lambda>_.
         again \<lparr>plat_available = (plat_available st)[k := 0], newfd = fd\<rparr>)))))"

definition sm_start :: station where
  "sm_start = \<lparr>plat_available = [1, 1, 1], newfd = 0\<rparr>"

definition sm_main :: "nat \<Rightarrow> prog" where
  "sm_main n =
     tried (Socket AF_INET SOCK_STREAM 0) ''socket call error'' (\<lambda>tsfd.
     tried (Setsockopt tsfd SO_REUSEADDR) ''calling sockpot'' (\<lambda>_.
     tried (Bind tsfd (any_addr 8000)) ''bind error'' (\<lambda>_.
     tried (Listen tsfd 5) ''listen error'' (\<lambda>_.
     forever n (sm_turn tsfd) sm_start))))"

section \<open>rawsockets/trainmain: platforms and trains\<close>

text \<open>The thread that prints announcements; eight bytes of the message are cleared.\<close>

definition plat_func :: "nat \<Rightarrow> string \<Rightarrow> prog" where
  "plat_func n msg =
     Call (Socket AF_INET SOCK_RAW 100) (\<lambda>s. Perror ''socket:'' (
     error_exit (ret s) ''Failed to create raw socket'' (
     forever n (\<lambda>msg again.
       Out (line ''Waiting to receive message'') (
       Call (Recvfrom (ret s) 100) (\<lambda>a. store 100 msg a (\<lambda>msg.
       error_exit (ret a) ''Failed to receive'' (
       Out (line (''MSG->['' @ c_str msg @ '']'')) (again (overwrite msg (zeros 8))))))))
     msg)))"

definition plat_turn :: "int \<Rightarrow> string \<Rightarrow> (string \<Rightarrow> prog) \<Rightarrow> prog" where
  "plat_turn sfd buffer again =
     must (Accept sfd) ''accept error'' (\<lambda>nfd.
     recv_into nfd buffer 30 (\<lambda>buffer _. Out (line (c_str buffer)) (
     recv_file_descriptor nfd (\<lambda>tfd. Out (line (''The fd is'' @ dec tfd)) (
     recv_into tfd buffer 30 (\<lambda>buffer _. Out (line (c_str buffer)) (
     recv_into tfd buffer 30 (\<lambda>buffer _. Out (line (c_str buffer)) (
     send_str nfd (lit ''train is leaving'') 30 (again buffer))))))))))"

definition plat_main :: "nat \<Rightarrow> string list \<Rightarrow> string \<Rightarrow> prog" where
  "plat_main n argv buffer =
     (if length argv < 2 then Undef else
      put_str (zeros 30) (''plat_socket'' @ argv ! 1) (\<lambda>namebuf.
      unix_socket (\<lambda>sfd.
      Call (Unlink (c_str namebuf)) (\<lambda>_.
      unix_listen sfd (c_str namebuf) (
      Call (Pthread_create ''func'' ''NULL'') (\<lambda>_.
      forever n (plat_turn sfd) buffer))))))"

definition train_main :: prog where
  "train_main =
     tried (Socket AF_INET SOCK_STREAM 0) ''socket error'' (\<lambda>nfd.
     tried (Connect nfd (any_addr 8000)) ''connect error'' (\<lambda>_.
     send_str nfd (lit ''The train sequence ---1234'') 30 (
     Call (Sleep 2) (\<lambda>_.
     send_str nfd (lit ''I am leaving'') 30 (
     Call (Sleep 2) (\<lambda>_. Exit 0))))))"

section \<open>exam/4: the station master\<close>

definition handler_func4 :: "int \<Rightarrow> prog \<Rightarrow> prog" where
  "handler_func4 sig k =
     Call (Signal sig ''SIG_IGN'') (\<lambda>_. Out ''got signal'' (Call (Signal sig ''handler_func'') (\<lambda>_. k)))"

definition broadcast_plat :: "string \<Rightarrow> prog \<Rightarrow> prog" where
  "broadcast_plat message k =
     Out (line message) (
     for_each [0..<3] (\<lambda>i _ k.
       put_str (zeros 15) (''platbrod'' @ dec (int i + 1)) (\<lambda>tempbuffer.
       Call (Open (c_str tempbuffer) [O_WRONLY]) (\<lambda>a.
       write_str (ret a) (lit ''train coming'') 15 (
       Call (Close (ret a)) (\<lambda>_. k ()))))) () (\<lambda>_. k))"

text \<open>
  A train that is ready is told the first platform that is available; plat_available is read and
  never written here. The name of a platform goes out in its whole buffer.
\<close>

definition sm4_train :: "int list \<Rightarrow> string \<Rightarrow> nat \<Rightarrow> int \<Rightarrow> prog \<Rightarrow> prog" where
  "sm4_train plats junk i fd k =
     read_into fd (zeros 15) 15 (\<lambda>_ _.
     case first_available 0 plats of
       None \<Rightarrow> k
     | Some j \<Rightarrow>
         put_str (zeros 15) (''train'' @ dec (int i + 1)) (\<lambda>trainname.
         broadcast_plat (c_str trainname) (
         put_str junk (''plat'' @ dec (int j + 1)) (\<lambda>platname.
         Call (Open (c_str trainname) [O_WRONLY]) (\<lambda>a.
         write_str (ret a) platname 15 k)))))"

definition sm4_turn :: "int list \<Rightarrow> string \<Rightarrow> int list \<Rightarrow> unit \<Rightarrow> (unit \<Rightarrow> prog) \<Rightarrow> prog" where
  "sm4_turn plats junk train_fd u again =
     Call (Poll (map (\<lambda>fd. (fd, POLLRDNORM)) train_fd) 100) (\<lambda>a.
     error_print (ret a) (line ''error while polling'') (
     for_each [0..<3] (\<lambda>i _ k.
       if polled POLLRDNORM i a then arr_get train_fd (int i) (\<lambda>fd. sm4_train plats junk i fd (k ()))
       else k ()) () again))"

definition sm4_main :: "nat \<Rightarrow> string \<Rightarrow> prog" where
  "sm4_main n junk =
     Call Getpid (\<lambda>pid.
     Call (Shmget 5678 8 True) (\<lambda>id.
     Call (Shmat (ret id)) (\<lambda>shm.
     Call (ShmStore (ret shm) 0 (ret pid)) (\<lambda>_.
     Call (ShmStore (ret shm) 1 (- 1)) (\<lambda>_.
     Call (Signal SIGUSR1 ''handler_func'') (\<lambda>_.
     for_each [0..<3] (\<lambda>i train_fd k.
       put_str (zeros 10) (''platform'' @ dec (int i + 1)) (\<lambda>namebuffer.
       Call (Mkfifo (c_str namebuffer)) (\<lambda>_.
       tried (Open (c_str namebuffer) [O_RDONLY, O_NONBLOCK]) ''opening the fifo file'' (\<lambda>fd.
       k (train_fd @ [fd])))))
     [] (\<lambda>train_fd. forever n (sm4_turn [1, 1, 1] junk train_fd) ())))))))"

section \<open>exam/4: trains and platforms\<close>

definition char_int :: "char \<Rightarrow> int" where
  "char_int c = (let n = int (of_char c) in if 128 \<le> n then n - 256 else n)"

definition t4_turn :: "int \<Rightarrow> string \<Rightarrow> (string \<Rightarrow> prog) \<Rightarrow> prog" where
  "t4_turn train_fd buffer again =
     Call (Poll [(train_fd, POLLRDNORM)] 100) (\<lambda>a.
     error_print (ret a) ''error on polling'' (
     if polled POLLRDNORM 0 a then
       read_into train_fd buffer 15 (\<lambda>buffer _.
       arr_get buffer 4 (\<lambda>c.
       put_str (zeros 15) (''platinfo'' @ dec (char_int c - 48)) (\<lambda>infobuffer.
       Call (Open (c_str infobuffer) [O_WRONLY]) (\<lambda>f. let fd_info = ret f in
       write_str fd_info (lit ''sequence'') 30 (
       Out (line ''train is on the platform and sleeping'') (
       Call (Sleep 5) (\<lambda>_.
       write_str fd_info (lit ''leaving'') 30 (
       Call (Close fd_info) (\<lambda>_. again buffer)))))))))
     else again buffer))"

definition t4_main :: "nat \<Rightarrow> string list \<Rightarrow> string \<Rightarrow> int \<Rightarrow> prog" where
  "t4_main n argv buffer tmp =
     (if length argv < 2 then Undef else
      put_str (zeros 15) (''train'' @ argv ! 1) (\<lambda>trainname.
      Out (line (c_str trainname @ '' has been created'')) (
      Call (Mkfifo (c_str trainname)) (\<lambda>_.
      Call (Open (c_str trainname) [O_RDONLY, O_NONBLOCK]) (\<lambda>f. let train_fd = ret f in
      scan_int tmp (\<lambda>tmp.
      put_str (zeros 15) (''platform'' @ argv ! 1) (\<lambda>platbuffer.
      tried (Open (c_str platbuffer) [O_WRONLY]) ''error on opening the train port fifo'' (\<lambda>fd.
      write_str fd (lit ''ready'') 10 (
      Call (Close fd) (\<lambda>_. forever n (t4_turn train_fd) buffer))))))))))"

definition p4_turn :: "int \<Rightarrow> int \<Rightarrow> string \<times> string \<Rightarrow> (string \<times> string \<Rightarrow> prog) \<Rightarrow> prog" where
  "p4_turn fd_broadcast train_info bufs again =
     Call (Poll [(fd_broadcast, POLLRDNORM), (train_info, POLLRDNORM)] 0) (\<lambda>a.
     error_print (ret a) ''error in polling'' (
     if polled POLLRDNORM 0 a then
       read_into fd_broadcast (fst bufs) 15 (\<lambda>b _. Out (line (c_str b)) (again (b, snd bufs)))
     else if polled POLLRDNORM 1 a then
       Out (line (dec (revent 1 a))) (
       read_into train_info (snd bufs) 30 (\<lambda>b _.
       Out (line (if c_str b = ''sequence'' then ''got sequence'' else ''train is leaving'')) (again (fst bufs, b))))
     else again bufs))"

definition p4_main :: "nat \<Rightarrow> string list \<Rightarrow> string \<times> string \<Rightarrow> prog" where
  "p4_main n argv bufs =
     (if length argv < 2 then Undef else
      put_str (zeros 15) (''platbrod'' @ argv ! 1) (\<lambda>broadname.
      put_str (zeros 15) (''platinfo'' @ argv ! 1) (\<lambda>infoname.
      Call (Shmget 5678 8 False) (\<lambda>id.
      Call (Shmat (ret id)) (\<lambda>shm.
      Call (ShmLoad (ret shm) 0) (\<lambda>p. Out (line (''the pid is '' @ dec (ret p))) (
      Call (ShmLoad (ret shm) 1) (\<lambda>m. Out (line (''the no is '' @ dec (ret m))) (
      Call (Mkfifo (c_str broadname)) (\<lambda>_.
      Call (Mkfifo (c_str infoname)) (\<lambda>_.
      Call (Open (c_str broadname) [O_RDONLY, O_NONBLOCK]) (\<lambda>b.
      Call (Open (c_str infoname) [O_RDONLY, O_NONBLOCK]) (\<lambda>i.
      forever n (p4_turn (ret b) (ret i)) bufs)))))))))))))"

text \<open>exam/4/sample.c and sample1.c: a FIFO that is polled, and a writer.\<close>

definition sample_turn :: "int \<Rightarrow> string \<Rightarrow> (string \<Rightarrow> prog) \<Rightarrow> prog" where
  "sample_turn fd buffer again =
     Call (Poll [(fd, POLLRDNORM)] 0) (\<lambda>a. error_print (ret a) ''error on polling'' (
     if polled POLLRDNORM 0 a
     then read_into fd buffer 15 (\<lambda>buffer _. Out (line (c_str buffer)) (again buffer))
     else again buffer))"

definition sample_main :: "nat \<Rightarrow> string \<Rightarrow> prog" where
  "sample_main n buffer =
     Call (Mkfifo ''samplefifo'') (\<lambda>_.
     Call (Open ''samplefifo'' [O_RDONLY, O_NONBLOCK]) (\<lambda>f. forever n (sample_turn (ret f)) buffer))"

definition sample1_main :: prog where
  "sample1_main = Call (Open ''samplefifo'' [O_WRONLY]) (\<lambda>f. write_str (ret f) (lit ''hello'') 15 (Exit 0))"

section \<open>Where the trains go\<close>

text \<open>
  The kernel's answers to a train: the accept, socket, connect and send for the two platforms, and the
  sendmsg. A train is the descriptor of its connection and the two sockets of its broadcast.
\<close>

definition train_answers :: "int \<times> int \<times> int \<Rightarrow> ans list" where
  "train_answers = (\<lambda>(fd, b1, b2).
     [rets fd, rets b1, rets 0, rets 30, rets b2, rets 0, rets 30, rets 1])"

text \<open>The descriptors that are passed on, with the socket that they go to.\<close>

fun passings :: "call list \<Rightarrow> (int \<times> int) list" where
  "passings [] = []"
| "passings (c # cs) = (case c of Sendmsg s d fd \<Rightarrow> (s, fd) # passings cs | _ \<Rightarrow> passings cs)"

lemma sm_turn_step:
  assumes "first_available 0 (plat_available st) = Some k" "0 \<le> fd" "0 \<le> b1" "0 \<le> b2"
  shows "passings (calls (trace (sm_turn tsfd st again) (train_answers (fd, b1, b2) @ as))) =
    (let to = (if k = 0 then b1 else if k = 1 then b2 else newfd st) in
     (to, fd) # passings (calls (trace (again \<lparr>plat_available = (plat_available st)[k := 0], newfd = to\<rparr>) as)))"
  using assms by (simp add: sm_turn_def broadcast_def train_answers_def upt_rec numeral_2_eq_2 Let_def)

lemma sm_turn_full:
  assumes "first_available 0 (plat_available st) = None" "0 \<le> fd"
  shows "passings (calls (trace (sm_turn tsfd st again) (rets fd # as))) = passings (calls (trace (again st) as))"
  using assms by (simp add: sm_turn_def)

lemma sm_full:
  assumes "first_available 0 (plat_available st) = None"
  shows "list_all (\<lambda>fd. 0 \<le> fd) fds \<Longrightarrow>
    passings (calls (trace (forever (length fds) (sm_turn tsfd) st) (map rets fds))) = []"
  by (induction fds) (simp_all add: sm_turn_full [OF assms])



text \<open>The answers to the read of a ready train, to the broadcast, and to the open and write for it.\<close>

definition ready_answers :: "int list \<Rightarrow> int \<Rightarrow> ans list" where
  "ready_answers fs w = rets 6 # concat (map (\<lambda>f. [rets f, rets 15, rets 0]) fs) @ [rets w, rets 15]"

text \<open>
  In exam/4 no platform is ever taken: whatever train is ready, and
  whatever trains came before it, what it is sent begins with plat1; and a train that reads this
  opens platinfo1 and sends its sequence and its leave there.
\<close>

theorem all_trains_to_platform_1:
  assumes "i < 3" "length junk = 15" "length buffer = 15" "w \<notin> {f1, f2, f3}"
  defines "told \<equiv> overwrite junk (lit ''plat1'')"
  shows "sent w (calls (trace (sm4_train [1, 1, 1] junk i fd k) (ready_answers [f1, f2, f3] w @ as))) =
      told # sent w (calls (trace k as)) \<and>
    Open (''train'' @ dec (int i + 1)) [O_WRONLY] \<in>
      set (calls (trace (sm4_train [1, 1, 1] junk i fd k) (ready_answers [f1, f2, f3] w @ as))) \<and>
    calls (trace (t4_turn tfd buffer again)
      (gets_ints 1 [64] # gives told # rets p # rets 30 # rets 0 # rets 30 # rets 0 # bs)) =
    [Poll [(tfd, POLLRDNORM)] 100, Read tfd 15, Open ''platinfo1'' [O_WRONLY], Write p (lit ''sequence'') 30,
     Sleep 5, Write p (lit ''leaving'') 30, Close p] @ calls (trace (again told) bs)"
proof -
  have decs: "dec 1 = ''1''" "dec 2 = ''2''" "dec 3 = ''3''" by code_simp+
  have i: "i = 0 \<or> i = 1 \<or> i = 2" using assms(1) by auto
  note bufs = c_str_overwrite_lit no_nul_def length_zeros length_lit
  have told: "length told = 15" "told ! 4 = CHR ''1''"
    using assms(2) by (simp_all add: told_def overwrite_def lit_def)
  have broad: "trace (broadcast_plat m k') (concat (map (\<lambda>f. [rets f, rets 15, rets 0]) [f1, f2, f3]) @ bs) =
      Printed (line m) # concat (map2 (\<lambda>j f. [Did (Open (''platbrod'' @ dec j) [O_WRONLY]) (rets f),
        Did (Write f (lit ''train coming'') 15) (rets 15), Did (Close f) (rets 0)]) [1, 2, 3] [f1, f2, f3]) @ trace k' bs"
    for m k' bs
    by (simp add: broadcast_plat_def upt_rec numeral_3_eq_3 decs bufs)
  have sm: "trace (sm4_train [1, 1, 1] junk i fd k) (ready_answers [f1, f2, f3] w @ as) =
    [Did (Read fd 15) (rets 6), Printed (line (''train'' @ dec (int i + 1)))] @
    concat (map2 (\<lambda>j f. [Did (Open (''platbrod'' @ dec j) [O_WRONLY]) (rets f),
        Did (Write f (lit ''train coming'') 15) (rets 15), Did (Close f) (rets 0)]) [1, 2, 3] [f1, f2, f3]) @
    [Did (Open (''train'' @ dec (int i + 1)) [O_WRONLY]) (rets w), Did (Write w told 15) (rets 15)] @ trace k as"
    using i assms(2) broad
    by (elim disjE) (simp_all add: sm4_train_def ready_answers_def decs bufs told_def)
  have t4: "calls (trace (t4_turn tfd buffer again)
      (gets_ints 1 [64] # gives told # rets p # rets 30 # rets 0 # rets 30 # rets 0 # bs)) =
    [Poll [(tfd, POLLRDNORM)] 100, Read tfd 15, Open ''platinfo1'' [O_WRONLY], Write p (lit ''sequence'') 30,
     Sleep 5, Write p (lit ''leaving'') 30, Close p] @ calls (trace (again told) bs)"
  proof -
    have "overwrite buffer told = told" using told assms(3) by (simp add: overwrite_def)
    moreover have "polled POLLRDNORM 0 (gets_ints 1 [64])" by (simp add: polled_def revent_def POLLRDNORM_def)
    moreover have "char_int (CHR ''1'') - 48 = 1" by (simp add: char_int_def)
    ultimately show ?thesis using told assms(3) by (simp add: t4_turn_def decs bufs)
  qed
  show ?thesis using assms(4) told(1) t4 unfolding sm by simp
qed

theorem all_trains_to_platform_1_witness:
  "sent 9 (calls (trace (sm4_train [1, 1, 1] (zeros 15) 2 5 (Exit 0)) (ready_answers [6, 7, 8] 9))) =
    [overwrite (zeros 15) (lit ''plat1'')]"
  using all_trains_to_platform_1 [of 2 "zeros 15" "zeros 15" 9 6 7 8 5 "Exit 0" "[]" 0 "\<lambda>_. Exit 0" 0 "[]"]
  by (simp add: length_zeros)

end
