(* ===== verification/CN_Safe.thy ===== *)
theory CN_Safe imports CN_Backup CN_Cascade CN_Ftp CN_Pairs CN_Small CN_Super CN_Threads CN_Time begin

text \<open>
  Type safety of programs: a program is safe when no run of it goes wrong, that is writes outside
  a buffer or uses an index outside an array. The rules type the operations: a buffer has its
  declared length, an operation that fits it is safe when what follows is safe with any buffer
  of this length, and a loop is safe when its turns keep the type of its state.
\<close>

section \<open>Safe programs\<close>

primrec safe :: "prog \<Rightarrow> bool" where
  "safe (Exit n) = True"
| "safe Undef = False"
| "safe Diverge = True"
| "safe Cut = True"
| "safe (Out s p) = safe p"
| "safe (Perror s p) = safe p"
| "safe (Call c k) = (\<forall>a. safe (k a))"

lemma safe_final: "safe p \<Longrightarrow> final_of p as \<noteq> Undefined"
proof (induction p arbitrary: as)
  case (Call c k)
  show ?case
  proof (cases as)
    case (Cons a as')
    with Call.IH [of "k a" as'] Call.prems show ?thesis by simp
  qed simp
qed simp_all

lemma safe_branches [simp]:
  "safe (if c then p else q) = ((c \<longrightarrow> safe p) \<and> (\<not> c \<longrightarrow> safe q))"
  "safe (Let x f) = safe (f x)"
  by (cases c) (simp_all add: Let_def)

named_theorems safe_rules

lemma safe_for_each:
  assumes "\<And>x s k. x \<in> set xs \<Longrightarrow> I s \<Longrightarrow> (\<And>s'. I s' \<Longrightarrow> safe (k s')) \<Longrightarrow> safe (body x s k)"
    and "I s" and "\<And>s'. I s' \<Longrightarrow> safe (k s')"
  shows "safe (for_each xs body s k)"
  using assms
proof (induction xs arbitrary: s)
  case (Cons x xs)
  have rest: "safe (for_each xs body s' k)" if "I s'" for s'
  proof (rule Cons.IH [OF _ that Cons.prems(3)])
    show "safe (body x' s'' k')" if "x' \<in> set xs" "I s''" "\<And>s'. I s' \<Longrightarrow> safe (k' s')" for x' s'' k'
      using that by (intro Cons.prems(1)) simp_all
  qed
  show ?case unfolding for_each.simps
    by (rule Cons.prems(1) [OF _ Cons.prems(2)]) (simp_all add: rest)
qed simp

lemma safe_forever:
  assumes "\<And>s k. I s \<Longrightarrow> (\<And>s'. I s' \<Longrightarrow> safe (k s')) \<Longrightarrow> safe (body s k)" and "I s"
  shows "safe (forever n body s)"
  using assms(2) by (induction n arbitrary: s) (simp_all add: assms(1))

lemma safe_errors [simp]:
  "safe k \<Longrightarrow> safe (error_exit v s k)"
  "safe k \<Longrightarrow> safe (error_print v s k)"
  "safe k \<Longrightarrow> safe (out_exit v s k)"
  "safe k \<Longrightarrow> safe (out_note v s k)"
  by (simp_all add: error_exit_def error_print_def out_exit_def out_note_def)

lemma safe_calls [safe_rules]:
  "(\<And>r. safe (f r)) \<Longrightarrow> safe (must c s f)"
  "(\<And>r. safe (f r)) \<Longrightarrow> safe (tried c s f)"
  "(\<And>r. safe (f r)) \<Longrightarrow> safe (or_out_exit c s f)"
  "safe k \<Longrightarrow> safe (send_str fd obj m k)"
  "(\<And>r. safe (f r)) \<Longrightarrow> safe (send_file_descriptor fd d f)"
  by (simp_all add: must_def tried_def or_out_exit_def send_str_def send_file_descriptor_def)

lemma safe_recv_file_descriptor [safe_rules]:
  "(\<And>r. safe (f r)) \<Longrightarrow> safe (recv_file_descriptor s f)"
  by (simp add: recv_file_descriptor_def split: list.split)

lemma safe_recv [safe_rules]:
  assumes "nat m \<le> length b" "\<And>b' r. length b' = length b \<Longrightarrow> safe (f b' r)"
  shows "safe (recv_into fd b m f)"
proof -
  have "length (got m a) \<le> length b" for a using length_got [of m a] assms(1) by linarith
  then show ?thesis using assms by (simp add: recv_into_def length_overwrite)
qed

section \<open>The ticket programs\<close>

lemma safe_unix [safe_rules]:
  "(\<And>fd. safe (f fd)) \<Longrightarrow> safe (unix_socket f)"
  "safe k \<Longrightarrow> safe (unix_connect fd path hello k)"
  "safe k \<Longrightarrow> safe (unix_listen fd path k)"
  by (simp_all add: unix_socket_def unix_connect_def unix_listen_def safe_calls)

lemma safe_serve_loop:
  "length b = 30 \<Longrightarrow> safe (forever n (serve_turn hello nfd) b)"
  by (rule safe_forever [where I = "\<lambda>b. length b = 30"]) (simp_all add: serve_turn_def safe_rules)

lemma safe_tc_main: "length b = 30 \<Longrightarrow> safe (tc_main n b)"
  unfolding tc_main_def
  by (simp add: safe_rules safe_forever [where I = "\<lambda>b. length b = 30"] tc_turn_def)

lemma safe_servers:
  "safe (forever n (c_turn nfd sfd1) i)"
  "safe (forever n (s_turn nfd nfdcs sfd1) i)"
  "safe (forever n (e_turn pid nfd nfdse) i)"
  by (rule safe_forever [where I = "\<lambda>_. True"];
      simp add: c_turn_def s_turn_def s_take_def e_turn_def e_take_def safe_rules)+

lemma safe_server_mains:
  "length b = 30 \<Longrightarrow> safe (c_main n b)"
  "length b = 30 \<Longrightarrow> safe (s_main n b)"
  "length b = 30 \<Longrightarrow> safe (e_main n b)"
  by (simp_all add: c_main_def s_main_def e_main_def gettspid_def safe_rules safe_servers)

lemma safe_funcs:
  "length b = 30 \<Longrightarrow> safe (c_func n nfd b)"
  "length b = 30 \<Longrightarrow> safe (s_func n nfd b)"
  "length b = 30 \<Longrightarrow> safe (e_func n nfd b)"
  by (simp_all add: c_func_def s_func_def e_func_def safe_serve_loop)

lemma safe_client_main:
  "length b = 30 \<Longrightarrow> 2 \<le> length argv \<Longrightarrow> safe (client_main n argv b)"
  by (simp add: client_main_def safe_rules safe_forever [where I = "\<lambda>b. length b = 30"] client_turn_def)

section \<open>The time services\<close>

lemma safe_tss_service:
  assumes "\<And>fd k. safe k \<Longrightarrow> safe (peer fd k)"
  shows "safe (forever n (tss_service_turn peer full sfd) i)"
  by (rule safe_forever [where I = "\<lambda>_. True"]) (simp_all add: tss_service_turn_def assms)

lemma safe_services:
  "safe (service1_main n)" "safe (service2_main n)" "safe (service3_main n)"
  by (simp_all add: service1_main_def service2_main_def service3_main_def tss_listen_def show_peer_def
    safe_rules safe_tss_service)

lemma safe_tss_thread: "length b = 30 \<Longrightarrow> safe (tss_thread answer n b)"
  by (simp add: tss_thread_def tss_serve_def safe_rules safe_forever [where I = "\<lambda>b. length b = 30"])

section \<open>The servers and clients of sockets and UNIX sockets\<close>

lemma safe_checks [safe_rules]:
  "(\<And>r. safe (f r)) \<Longrightarrow> safe (checked c s f)"
  "(\<And>r. safe (f r)) \<Longrightarrow> safe (noted c s f)"
  "(\<And>r. safe (f r)) \<Longrightarrow> safe (or_print_error c s f)"
  "(\<And>r. safe (f r)) \<Longrightarrow> safe (or_out c s f)"
  "(\<And>a. safe (g a)) \<Longrightarrow> safe (or_error v c s g)"
  "safe k \<Longrightarrow> safe (write_str fd obj m k)"
  "safe k \<Longrightarrow> safe (become name fd k)"
  by (simp_all add: checked_def noted_def or_print_error_def or_out_def or_error_def write_str_def become_def
    error_perror_def error_perror_exit_def)

lemma safe_listen [safe_rules]:
  "(\<And>fd. safe (f fd)) \<Longrightarrow> safe (dup_listen f)"
  "(\<And>fd. safe (f fd)) \<Longrightarrow> safe (mt_listen f)"
  by (simp_all add: dup_listen_def mt_listen_def safe_rules)

lemma safe_read [safe_rules]:
  assumes "nat m \<le> length b" "\<And>b' r. length b' = length b \<Longrightarrow> safe (f b' r)"
  shows "safe (read_into fd b m f)"
proof -
  have "length (got m a) \<le> length b" for a using length_got [of m a] assms(1) by linarith
  then show ?thesis using assms by (simp add: read_into_def length_overwrite)
qed

lemma safe_store [safe_rules]:
  assumes "nat m \<le> length b" "\<And>b'. length b' = length b \<Longrightarrow> safe (f b')"
  shows "safe (store m b a f)"
proof -
  have "length (got m a) \<le> length b" using length_got [of m a] assms(1) by linarith
  then show ?thesis using assms by (simp add: length_overwrite)
qed

lemma safe_fgets [safe_rules]:
  assumes "0 < m" "m \<le> length b" "\<And>b'. length b' = length b \<Longrightarrow> safe (f b')"
  shows "safe (fgets_into b m f)"
  using assms by (simp add: fgets_into_def length_overwrite length_lit)

lemma safe_one_message:
  "length b = 30 \<Longrightarrow> safe (super_service_main b)"
  "length b = 60 \<Longrightarrow> safe (super_client_main b)"
  "length b = 30 \<Longrightarrow> safe (basic_server_main b)"
  "length b = 30 \<Longrightarrow> safe (basic_client_main b)"
  "length b = 30 \<Longrightarrow> safe (unix_hai_server_main b)"
  "length b = 30 \<Longrightarrow> safe (unix_hai_client_main b)"
  "length b = 30 \<Longrightarrow> safe (unix_basic_server_main b)"
  "length b = 30 \<Longrightarrow> safe (unix_basic_client_main b)"
  "length b = 30 \<Longrightarrow> safe (dup_client_main b)"
  "length b = 30 \<Longrightarrow> safe (sel_client_main b)"
  "length b = 30 \<Longrightarrow> safe (p1_main b)"
  "length b = 30 \<Longrightarrow> safe (hai_server_main b peer)"
  "length b = 30 \<Longrightarrow> safe (hai_client_main b peer)"
  "safe perm_server_main"
  by (simp_all add: super_service_main_def super_client_main_def basic_server_main_def basic_client_main_def
    unix_hai_server_main_def unix_hai_client_main_def unix_basic_server_main_def unix_basic_client_main_def
    dup_client_main_def sel_client_main_def p1_main_def hai_server_main_def hai_client_main_def
    perm_server_main_def safe_rules)

lemmas safe_loops =
  safe_forever [where I = "\<lambda>b. length b = 30"] safe_forever [where I = "\<lambda>b. length b = 100"]
  safe_forever [where I = "\<lambda>b. length b = 255"] safe_forever [where I = "\<lambda>b. length b = 256"]
  safe_forever [where I = "\<lambda>b. length b = 1024"]

lemma safe_clients:
  "length b = 30 \<Longrightarrow> safe (mt_client_main n b)"
  "length b = 30 \<Longrightarrow> safe (con_client_main n b)"
  "length b = 30 \<Longrightarrow> safe (time_client_main n b)"
  "length b = 30 \<Longrightarrow> safe (bs_client_main n b)"
  "length b = 30 \<Longrightarrow> 2 \<le> length argv \<Longrightarrow> safe (inetd_client_main n argv b)"
  "length b = 30 \<Longrightarrow> safe (inetd_service_main name n b)"
  by (simp_all add: mt_client_main_def mt_client_turn_def con_client_main_def time_client_main_def
    bs_client_main_def client_turn_def inetd_client_main_def inetd_service_main_def inetd_service_turn_def
    length_overwrite length_lit safe_rules safe_loops)

lemma safe_threads:
  "length b = 30 \<Longrightarrow> safe (mt_thread n b)"
  "length b = 30 \<Longrightarrow> safe (pre_thread n b)"
  "length b = 30 \<Longrightarrow> safe (ftp_thread n fd b)"
  "length b = 30 \<Longrightarrow> safe (time_thread n b)"
  "length b = 30 \<Longrightarrow> safe (bs_func n fd b)"
  "length b = 30 \<Longrightarrow> safe (back_func n fd b)"
  "length b = 30 \<Longrightarrow> safe (pass_main n b)"
  by (simp_all add: mt_thread_def mt_serve_def pre_thread_def ftp_thread_def time_thread_def bs_func_def
    back_func_def safe_serve_loop pass_main_def pass_turn_def safe_rules safe_loops)

lemma safe_pre_main: "safe pre_main"
  by (simp add: pre_main_def safe_rules safe_for_each [where I = "\<lambda>_. True"])

lemma safe_echo: "length b = 256 \<Longrightarrow> safe (echo_server_main n ptr b)"
  by (simp add: echo_server_main_def echo_turn_def length_zeros safe_rules safe_loops)

lemma safe_message_server: "safe (message_server_main argv)"
  by (simp add: message_server_main_def length_zeros safe_rules)

section \<open>The super-servers\<close>

lemmas safe_turns = safe_forever [where I = "\<lambda>_. True"]

lemma safe_super_main: "safe (super_main n)"
  by (simp add: super_main_def super_turn_def safe_rules safe_turns)

lemma safe_dup_main: "safe (dup_main n)"
  by (simp add: dup_main_def dup_turn_def safe_rules safe_turns)

lemma safe_sel_server_turn: "safe (forever n (sel_server_turn fds) u)"
proof (rule safe_turns)
  fix s k assume k: "\<And>s' :: unit. True \<Longrightarrow> safe (k s')"
  show "safe (sel_server_turn fds s k)"
    by (simp add: sel_server_turn_def error_perror_def)
      (intro conjI impI allI safe_for_each [where I = "\<lambda>_. True"]; simp add: k safe_rules)
qed simp

lemma safe_sel_server_main: "safe (sel_server_main n)"
  by (simp add: sel_server_main_def safe_for_each [where I = "\<lambda>_. True"] safe_sel_server_turn safe_rules)

text \<open>A set of three descriptors is what inetd_main hands to its turns.\<close>

lemma safe_inetd_turn:
  assumes "length sfds = 3" and k: "\<And>u :: unit. safe (k u)"
  shows "safe (inetd_turn sfds u k)"
proof -
  have name: "length (''server'' @ dec (int i + 1)) < length (zeros 30)" if "i \<in> set [0..<3]" for i
    using that length_dec_int32 [of "int i + 1"] by (simp add: length_zeros int32_def)
  have "safe (for_each [0..<3] (\<lambda>i _ k.
       arr_get sfds (int i) (\<lambda>sfd.
       if sfd \<in> set (selected sfds a) then
         Call (Accept sfd) (\<lambda>n.
         put_str (zeros 30) (''server'' @ dec (int i + 1)) (\<lambda>name.
         Out (line (''servnamebuffer '' @ c_str name)) (
         Call Fork (\<lambda>c.
         if ret c = 0 then
           Out (line ''child process entered'') (
           for_each sfds (\<lambda>sfd _ k. Call (Close sfd) (\<lambda>_. k ())) ()
             (\<lambda>_. become (c_str name) (ret n) (k0 ())))
         else Call (Close (ret n)) (\<lambda>_. k ())))))
       else k ())) () k)" if k0: "safe (k0 ())" for a k0
    by (rule safe_for_each [where I = "\<lambda>_. True"])
      (use name assms in \<open>auto simp: k k0 safe_for_each [where I = "\<lambda>_. True"] safe_rules\<close>)
  with k show ?thesis by (simp add: inetd_turn_def)
qed

lemma safe_inetd_main: "safe (inetd_main n)"
proof -
  have loop: "safe (forever n (inetd_turn sfds) ())" if "length sfds = 3" for sfds
    by (rule safe_turns) (simp_all add: safe_inetd_turn that)
  show ?thesis by (simp add: inetd_main_def upt_conv_Cons loop)
qed

section \<open>Datagrams, files and pipes\<close>

lemma safe_udp:
  "length b = 1024 \<Longrightarrow> safe (udp_client_main n b)"
  "length b = 1024 \<Longrightarrow> safe (udp_server_main n b peer)"
proof -
  have "safe (forever n (udp_client_turn s) b)" if "length b = 1024" for s
    by (rule safe_forever [where I = "\<lambda>b. length b = 1024"])
      (simp_all add: that udp_client_turn_def safe_rules del: store_fits)
  then show "safe (udp_client_main n b)" if "length b = 1024"
    by (simp add: that udp_client_main_def)
  have "safe (forever n (udp_server_turn s) (b, peer))" if "length b = 1024" for s
    by (rule safe_forever [where I = "\<lambda>(b, _). length b = 1024"])
      (auto simp: that udp_server_turn_def Let_def safe_rules simp del: store_fits)
  then show "safe (udp_server_main n b peer)" if "length b = 1024"
    by (simp add: that udp_server_main_def)
qed

lemma safe_ftp_connect [safe_rules]:
  "(\<And>fd. safe (f fd)) \<Longrightarrow> safe (ftp_connect p f)"
  "(\<And>fd. safe (f fd)) \<Longrightarrow> safe (accept_data peer f)"
  by (simp_all add: ftp_connect_def accept_data_def error_perror_def safe_rules)

lemma safe_put [safe_rules]:
  "length m < length b \<Longrightarrow> (\<And>b'. length b' = length b \<Longrightarrow> safe (f b')) \<Longrightarrow> safe (put_str b m f)"
  by (simp add: length_overwrite length_lit)

lemma safe_send_int [safe_rules]:
  "int32 i \<Longrightarrow> 12 \<le> length b \<Longrightarrow> (\<And>b'. length b' = length b \<Longrightarrow> safe (f b')) \<Longrightarrow> safe (send_int fd b i m f)"
  unfolding send_int_def using length_dec_int32 [of i]
  by (intro safe_put) (simp_all add: send_str_def)

lemma safe_show_words: "length b = 255 \<Longrightarrow> safe (show_words n fd b)"
  by (simp add: show_words_def safe_rules safe_loops)

lemma safe_ftp_clients:
  "length b = 30 \<Longrightarrow> length c = 30 \<Longrightarrow> length d = 255 \<Longrightarrow> safe (active_client_main n b c d)"
  "length b = 30 \<Longrightarrow> length c = 30 \<Longrightarrow> length d = 255 \<Longrightarrow> safe (raw_port_client_main n b c d)"
  "length b = 30 \<Longrightarrow> length c = 30 \<Longrightarrow> length d = 255 \<Longrightarrow> safe (passive_client_main n b c d)"
  by (simp_all add: active_client_main_def raw_port_client_main_def passive_client_main_def
    send_port_and_name_def safe_show_words int32_def safe_rules del: put_str_fits)

lemma safe_pipes:
  "length d = 100 \<Longrightarrow> safe (multi_service_thread n fd d)"
  "length d = 100 \<Longrightarrow> safe (client_reader n st d)"
  "length d = 100 \<Longrightarrow> safe (user_writer n fd d)"
  "length d = 100 \<Longrightarrow> safe (user_reader n fd d)"
  by (simp_all add: multi_service_thread_def service_read_turn_def client_reader_def find_server_def
    show_message_def user_writer_def user_write_turn_def user_reader_def safe_rules safe_loops)

lemma safe_attach [safe_rules]:
  "(\<And>shm. safe (f shm)) \<Longrightarrow> safe (attach_fds f)"
  "(\<And>shm. safe (f shm)) \<Longrightarrow> safe (take_number shm f)"
  "(\<And>fd. safe (f fd)) \<Longrightarrow> safe (open_fifo name f)"
  "safe k \<Longrightarrow> safe (make_fifo name k)"
  by (simp_all add: attach_fds_def take_number_def open_fifo_def make_fifo_def)

lemma safe_relay_turn: "length d = 100 \<Longrightarrow> safe (forever n (relay_turn logfd fds) d)"
proof (rule safe_forever [where I = "\<lambda>b. length b = 100"])
  fix s :: string and k assume s: "length s = 100" and k: "\<And>s' :: string. length s' = 100 \<Longrightarrow> safe (k s')"
  have "safe (for_each js (\<lambda>j buf k. if fds ! j \<in> set (selected fds a) then relay_log logfd j (fds ! j) buf k
      else k buf) s k)" for js a
    by (rule safe_for_each [where I = "\<lambda>b. length b = 100"])
      (auto simp: s k relay_log_def safe_rules)
  with s k show "safe (relay_turn logfd fds s k)" by (simp add: relay_turn_def)
qed

lemma safe_relay_main: "length d = 100 \<Longrightarrow> safe (relay_main n d argv)"
  unfolding relay_main_def
  by (simp, rule safe_for_each [where I = "\<lambda>_. True"]) (simp_all add: safe_relay_turn safe_rules)

lemma safe_small:
  "safe multi_client_main" "safe psample_main" "safe psignal_main" "safe signal_main"
  "safe hello_main" "safe exec_main" "safe replace_main" "safe two_threads_main"
  "length e = 25 \<Longrightarrow> safe (pipe_out_main n e)"
  by (simp_all add: multi_client_main_def psample_main_def psignal_main_def signal_main_def hello_main_def
    exec_main_def replace_main_def two_threads_main_def sample_handler_def pipe_out_main_def
    pipe_out_turn_def safe_rules safe_forever [where I = "\<lambda>b. length b = 25"])

section \<open>Tables that fill up\<close>

text \<open>A loop that is safe for a number of turns: the type of its state counts them.\<close>

lemma safe_forever_for:
  assumes "\<And>i s k. i < m \<Longrightarrow> I i s \<Longrightarrow> (\<And>s'. I (Suc i) s' \<Longrightarrow> safe (k s')) \<Longrightarrow> safe (body s k)"
    and "I 0 s" and "n \<le> m"
  shows "safe (forever n body s)"
proof -
  have "safe (forever n body s)" if "I i s" "i + n \<le> m" for i
    using that
  proof (induction n arbitrary: i s)
    case (Suc n)
    then show ?case by (simp add: assms(1) [of i])
  qed simp
  from this [of 0] assms(2,3) show ?thesis by simp
qed

lemma safe_mt_main: "n \<le> 5 \<Longrightarrow> safe (mt_main n)"
  unfolding mt_main_def
  by (intro safe_rules safe_forever_for [where m = 5 and I = "\<lambda>i c. c = int i"])
    (simp_all add: mt_turn_def add.commute)

lemma safe_time_main: "n \<le> 3 \<Longrightarrow> length b = 30 \<Longrightarrow> safe (time_main n b)"
proof -
  have "safe (forever n (time_turn fd) 0)" if "n \<le> 3" for fd
    by (rule safe_forever_for [where m = 3 and I = "\<lambda>i c. c = int i", OF _ _ that])
      (simp_all add: time_turn_def safe_rules add.commute)
  then show "safe (time_main n b)" if "n \<le> 3" "length b = 30"
    using that by (simp add: time_main_def safe_rules)
qed

lemma safe_bs_main: "n \<le> 4 \<Longrightarrow> safe (bs_main n b)"
proof -
  have "safe (forever n (bs_turn fd) \<lparr>cfd = replicate max_clients (- 1), clients_no = 0\<rparr>)"
    if "n \<le> 4" for fd
    by (rule safe_forever_for [where m = 4 and I = "\<lambda>i st. clients_no st = int i \<and> length (cfd st) = 5", OF _ _ that])
      (simp_all add: bs_turn_def max_clients_def add.commute)
  then show "safe (bs_main n b)" if "n \<le> 4"
    using that by (simp add: bs_main_def safe_rules)
qed

section \<open>The programs\<close>



end
