(* ===== verification/CN_System.thy ===== *)
theory CN_System imports CN_Monitor begin

text \<open>
  Several processes and one kernel. A system has the programs of its processes, the state of the
  kernel they share and the log of what they did; a schedule says which process moves next, or
  which one a signal interrupts, and every interleaving is a schedule. Each process is watched by
  a monitor of its own, which says what the process guarantees and what it relies on; the locale
  composes such contracts: what a move of any process keeps holds in every interleaving.
\<close>

section \<open>Systems and schedules\<close>

record 'k system =
  procs :: "prog list"
  kern :: 'k
  happened :: "(nat \<times> obs) list"

datatype turn = Run nat | Interrupt nat

text \<open>
  What a kernel does with the call of a process: an answer and its next state, or nothing when
  the call blocks. What a signal does to it: nothing when there is none to deliver.
\<close>

type_synonym 'k answering = "nat \<Rightarrow> call \<Rightarrow> 'k \<Rightarrow> (ans \<times> 'k) option"

type_synonym 'k signalling = "nat \<Rightarrow> 'k \<Rightarrow> 'k option"

text \<open>
  One move. A handler is run in place of its process: those of the programs modelled this way end
  with exit.
\<close>

definition advance :: "nat \<Rightarrow> prog \<Rightarrow> obs list \<Rightarrow> 'k system \<Rightarrow> 'k system" where
  "advance i p t s = s\<lparr>procs := (procs s)[i := p], happened := happened s @ map (Pair i) t\<rparr>"

definition run_one :: "'k answering \<Rightarrow> nat \<Rightarrow> 'k system \<Rightarrow> 'k system option" where
  "run_one K i s = (case procs s ! i of
     Out x p \<Rightarrow> Some (advance i p [Printed x] s)
   | Perror x p \<Rightarrow> Some (advance i p [] s)
   | Call c k \<Rightarrow> (case K i c (kern s) of None \<Rightarrow> None
       | Some (a, t) \<Rightarrow> Some (advance i (k a) [Did c a] (s\<lparr>kern := t\<rparr>)))
   | _ \<Rightarrow> None)"

fun move :: "'k answering \<Rightarrow> 'k signalling \<Rightarrow> (nat \<Rightarrow> prog) \<Rightarrow> turn \<Rightarrow> 'k system \<Rightarrow> 'k system option" where
  "move K sig handler (Run i) s = (if i < length (procs s) then run_one K i s else None)"
| "move K sig handler (Interrupt i) s =
     (if i < length (procs s)
      then map_option (\<lambda>t. advance i (handler i) [] (s\<lparr>kern := t\<rparr>)) (sig i (kern s)) else None)"

primrec schedule ::
  "'k answering \<Rightarrow> 'k signalling \<Rightarrow> (nat \<Rightarrow> prog) \<Rightarrow> turn list \<Rightarrow> 'k system \<Rightarrow> 'k system option" where
  "schedule K sig handler [] s = Some s"
| "schedule K sig handler (m # ms) s = Option.bind (move K sig handler m s) (schedule K sig handler ms)"

lemma advance_simps [simp]:
  "procs (advance i p t s) = (procs s)[i := p]"
  "kern (advance i p t s) = kern s"
  "happened (advance i p t s) = happened s @ map (Pair i) t"
  by (simp_all add: advance_def)

text \<open>What a move does to the kernel.\<close>

lemma kern_run_one:
  assumes "run_one K i s = Some s'"
  shows "kern s' = kern s \<or> (\<exists>c a. K i c (kern s) = Some (a, kern s'))"
proof (cases "procs s ! i")
  case (Call c k)
  with assms show ?thesis by (cases "K i c (kern s)") (auto simp: run_one_def)
qed (use assms in \<open>auto simp: run_one_def\<close>)

lemma schedule_append:
  "schedule K sig handler (ms @ ns) s = Option.bind (schedule K sig handler ms s) (schedule K sig handler ns)"
  by (induction ms arbitrary: s) (simp_all split: Option.bind_split)

text \<open>What one process did.\<close>

definition history :: "nat \<Rightarrow> (nat \<times> obs) list \<Rightarrow> obs list" where
  "history i t = map snd (filter (\<lambda>e. fst e = i) t)"

lemma history_simps [simp]:
  "history i [] = []"
  "history i (t @ u) = history i t @ history i u"
  "history i (map (Pair j) xs) = (if i = j then xs else [])"
  by (simp_all add: history_def filter_map comp_def)

lemma history_other: "i \<notin> fst ` set t \<Longrightarrow> history i t = []"
  by (force simp: history_def filter_empty_conv)

text \<open>Where a program stands after some answers, its printing done.\<close>

primrec resume :: "prog \<Rightarrow> ans list \<Rightarrow> prog" where
  "resume (Exit n) as = Exit n"
| "resume Undef as = Undef"
| "resume Diverge as = Diverge"
| "resume Cut as = Cut"
| "resume (Out s p) as = resume p as"
| "resume (Perror s p) as = resume p as"
| "resume (Call c k) as = (case as of [] \<Rightarrow> Call c k | a # as' \<Rightarrow> resume (k a) as')"

section \<open>The contract of a process\<close>

text \<open>
  A contract for a process: in the state m of its monitor it may take the actions that are ok,
  provided that the answers to its calls so far were those it relies on.
\<close>

datatype action = Calls call | Prints string

record 'm contract =
  allows :: "'m \<Rightarrow> action \<Rightarrow> bool"
  relies :: "'m \<Rightarrow> call \<Rightarrow> ans \<Rightarrow> bool"
  records :: "'m \<Rightarrow> obs \<Rightarrow> 'm"

primrec keeps :: "'m contract \<Rightarrow> 'm \<Rightarrow> prog \<Rightarrow> bool" where
  "keeps C m (Exit n) = True"
| "keeps C m Undef = True"
| "keeps C m Diverge = True"
| "keeps C m Cut = True"
| "keeps C m (Out s p) = (allows C m (Prints s) \<and> keeps C (records C m (Printed s)) p)"
| "keeps C m (Perror s p) = keeps C m p"
| "keeps C m (Call c k) = (allows C m (Calls c) \<and> (\<forall>a. relies C m c a \<longrightarrow> keeps C (records C m (Did c a)) (k a)))"

text \<open>A loop keeps a contract when each of its turns leads from R to R.\<close>

lemma keeps_forever:
  assumes "\<And>s m k. R s m \<Longrightarrow> (\<And>s' m'. R s' m' \<Longrightarrow> keeps C m' (k s')) \<Longrightarrow> keeps C m (body s k)"
  shows "R s m \<Longrightarrow> keeps C m (forever n body s)"
proof (induction n arbitrary: s m)
  case (Suc n)
  show ?case unfolding forever.simps by (rule assms [OF Suc.prems Suc.IH])
qed simp

lemma keeps_if [simp]:
  "keeps C m (if b then p else q) = ((b \<longrightarrow> keeps C m p) \<and> (\<not> b \<longrightarrow> keeps C m q))"
  by simp

text \<open>The state of a monitor after a history.\<close>

definition after :: "'m contract \<Rightarrow> 'm \<Rightarrow> obs list \<Rightarrow> 'm" where
  "after C m t = fold (\<lambda>x m. records C m x) t m"

lemma after_simps [simp]:
  "after C m [] = m"
  "after C m (t @ u) = after C (after C m t) u"
  "after C m (x # t) = after C (records C m x) t"
  by (simp_all add: after_def)

section \<open>Composition\<close>

text \<open>
  The obligations: in a global state that satisfies inv, an action that is ok for its process
  keeps inv, an answer of the kernel is one that the process relies on, and so is what a signal
  does; a handler keeps the contract of its process from any state in which it is started.
\<close>

locale composition =
  fixes K :: "'k answering"
    and sig :: "'k signalling"
    and handler :: "nat \<Rightarrow> prog"
    and contract :: "nat \<Rightarrow> 'm contract"
    and inv :: "(nat \<Rightarrow> 'm) \<Rightarrow> 'k \<Rightarrow> bool"
  assumes call: "inv m k \<Longrightarrow> allows (contract i) (m i) (Calls c) \<Longrightarrow> K i c k = Some (a, k') \<Longrightarrow>
      relies (contract i) (m i) c a \<and> inv (m(i := records (contract i) (m i) (Did c a))) k'"
    and print: "inv m k \<Longrightarrow> allows (contract i) (m i) (Prints x) \<Longrightarrow>
      inv (m(i := records (contract i) (m i) (Printed x))) k"
    and interrupt: "inv m k \<Longrightarrow> sig i k = Some k' \<Longrightarrow> inv m k' \<and> keeps (contract i) (m i) (handler i)"
begin

definition monitors :: "(nat \<Rightarrow> 'm) \<Rightarrow> (nat \<times> obs) list \<Rightarrow> nat \<Rightarrow> 'm" where
  "monitors m t i = after (contract i) (m i) (history i t)"

lemma monitors_Nil [simp]: "monitors m [] = m"
  by (simp add: monitors_def fun_eq_iff)

lemma monitors_advance [simp]:
  "monitors m (t @ map (Pair i) u) = (monitors m t)(i := after (contract i) (monitors m t i) u)"
  by (auto simp: monitors_def fun_eq_iff)

definition safe_system :: "(nat \<Rightarrow> 'm) \<Rightarrow> 'k system \<Rightarrow> bool" where
  "safe_system m s = (inv (monitors m (happened s)) (kern s) \<and>
     (\<forall>i < length (procs s). keeps (contract i) (monitors m (happened s) i) (procs s ! i)))"

lemma safe_advance:
  assumes "inv ((monitors m (happened s))(i := after (contract i) (monitors m (happened s) i) t)) k"
    and "\<forall>i < length (procs s). keeps (contract i) (monitors m (happened s) i) (procs s ! i)"
    and "keeps (contract i) (after (contract i) (monitors m (happened s) i) t) p"
  shows "safe_system m (advance i p t (s\<lparr>kern := k\<rparr>))"
  using assms unfolding safe_system_def advance_simps monitors_advance
  by (simp add: nth_list_update)

lemmas safe_advance_same = safe_advance [where k = "kern s" and s = s for s, simplified]

lemma safe_move:
  assumes "safe_system m s" and "move K sig handler x s = Some s'"
  shows "safe_system m s'"
proof (cases x)
  case (Run i)
  with assms have i: "i < length (procs s)" "run_one K i s = Some s'"
    by (simp_all split: if_splits)
  let ?m = "monitors m (happened s)"
  have inv: "inv ?m (kern s)" and all: "\<forall>i < length (procs s). keeps (contract i) (?m i) (procs s ! i)"
    and own: "keeps (contract i) (?m i) (procs s ! i)"
    using assms(1) i(1) by (simp_all add: safe_system_def)
  show ?thesis
  proof (cases "procs s ! i")
    case (Out y p)
    with i(2) own inv all show ?thesis
      by (auto simp: run_one_def intro!: safe_advance_same print)
  next
    case (Perror y p)
    with i(2) own inv all show ?thesis
      by (auto simp: run_one_def fun_upd_idem intro!: safe_advance_same)
  next
    case (Call c k)
    with i(2) obtain a t where a: "K i c (kern s) = Some (a, t)"
      "s' = advance i (k a) [Did c a] (s\<lparr>kern := t\<rparr>)"
      by (auto simp: run_one_def split: option.splits)
    from Call own have ok: "allows (contract i) (?m i) (Calls c)" by simp
    from call [OF inv ok a(1)] Call own all show ?thesis
      unfolding a(2) by (intro safe_advance) auto
  qed (use i(2) in \<open>simp_all add: run_one_def\<close>)
next
  case (Interrupt i)
  with assms obtain t where t: "i < length (procs s)" "sig i (kern s) = Some t"
    "s' = advance i (handler i) [] (s\<lparr>kern := t\<rparr>)" by (auto split: if_splits)
  with assms(1) interrupt [of "monitors m (happened s)" "kern s" i t] show ?thesis
    unfolding t(3) by (intro safe_advance) (auto simp: safe_system_def fun_upd_idem)
qed

text \<open>The rule: what holds at the start, with programs that keep their contracts, holds always.\<close>

lemma safe_schedule:
  "safe_system m s \<Longrightarrow> schedule K sig handler ms s = Some s' \<Longrightarrow> safe_system m s'"
  by (induction ms arbitrary: s) (auto simp: bind_eq_Some_conv dest: safe_move)

theorem composed:
  assumes "inv m k" and "\<forall>i < length ps. keeps (contract i) (m i) (ps ! i)"
    and "schedule K sig handler ms \<lparr>procs = ps, kern = k, happened = []\<rparr> = Some s"
  shows "inv (monitors m (happened s)) (kern s)"
proof -
  have "safe_system m \<lparr>procs = ps, kern = k, happened = []\<rparr>"
    using assms(1,2) by (simp add: safe_system_def)
  from safe_schedule [OF this assms(3)] show ?thesis by (simp add: safe_system_def)
qed

end

end
