(* ===== verification/CN_Counter.thy ===== *)
theory CN_Counter imports CN_Cascade CN_System "HOL-Library.Multiset" "HOL-Library.Sublist" begin

text \<open>
  The ticket counter of unixsockets/csemulti and its three servers as one system: the four
  programs, started up and connected, on a kernel that carries connections over their sockets,
  in every interleaving. Each server keeps a contract, that it serves the connections it was passed
  up to its capacity and passes on the others in order; the composition follows every client.
\<close>

section \<open>The kernel\<close>

text \<open>
  The five sockets between the programs, with the connections that are on their way; the clients
  that have not been accepted yet, the number each client asks for and what stands behind it in
  the 30 bytes that it sends; the process number of the counter and whether it was sent SIGUSR1.
  A connection has the same number in all processes.
\<close>

datatype link = TC | TS | TE | CS | SE

record network =
  arriving :: "int list"
  asks :: "int \<Rightarrow> int"
  behind :: string
  chan :: "link \<Rightarrow> int list"
  counter :: int
  signalled :: bool

text \<open>
  The processes: 0 is the counter, 1, 2 and 3 are the servers c, s and e. The descriptors are
  those that the programs get when they start.
\<close>

definition out_link :: "nat \<Rightarrow> int \<Rightarrow> link option" where
  "out_link i fd = map_of [((0, 3), TC), ((0, 4), TS), ((0, 5), TE), ((1, 3), CS), ((2, 4), SE)] (i, fd)"

definition in_link :: "nat \<Rightarrow> int \<Rightarrow> link option" where
  "in_link i fd = map_of [((1, 5), TC), ((2, 7), TS), ((2, 6), CS), ((3, 6), TE), ((3, 5), SE)] (i, fd)"

definition readiness :: "network \<Rightarrow> nat \<Rightarrow> int \<Rightarrow> int" where
  "readiness k i fd = (case in_link i fd of Some l \<Rightarrow> (if chan k l = [] then 0 else POLLRDNORM) | None \<Rightarrow> 0)"

definition network_answers :: "network answering" where
  "network_answers i c k = (case c of
     Accept fd \<Rightarrow> (case arriving k of [] \<Rightarrow> None | x # xs \<Rightarrow> Some (rets x, k\<lparr>arriving := xs\<rparr>))
   | Recv fd n \<Rightarrow> Some (gives (take (nat n) (take 30 (lit (dec (asks k fd)) @ behind k))), k)
   | Sendmsg fd d x \<Rightarrow> (case out_link i fd of
       Some l \<Rightarrow> Some (rets 1, k\<lparr>chan := (chan k)(l := chan k l @ [x])\<rparr>) | None \<Rightarrow> Some (rets (- 1), k))
   | Recvmsg fd \<Rightarrow> (case in_link i fd of
       Some l \<Rightarrow> (case chan k l of [] \<Rightarrow> None | x # xs \<Rightarrow> Some (passed x, k\<lparr>chan := (chan k)(l := xs)\<rparr>))
     | None \<Rightarrow> Some (rets (- 1), k))
   | Poll fds t \<Rightarrow> Some (gets_ints (int (length (filter (\<lambda>e. readiness k i (fst e) \<noteq> 0) fds)))
       (map (\<lambda>e. readiness k i (fst e)) fds), k)
   | Kill p s \<Rightarrow> Some (rets 0, if p = counter k \<and> s = SIGUSR1 then k\<lparr>signalled := True\<rparr> else k)
   | _ \<Rightarrow> Some (rets 0, k))"

lemma answers_stay: "network_answers i c k = Some (a, k') \<Longrightarrow> signalled k \<Longrightarrow> signalled k'"
  by (cases c, simp_all add: network_answers_def) (auto split: list.splits option.splits if_splits)

text \<open>The signal of the counter is delivered between any two of its moves.\<close>

definition network_signals :: "network signalling" where
  "network_signals i k = (if i = 0 \<and> signalled k then Some k else None)"

section \<open>The programs when they are connected\<close>

definition start_up :: "int \<Rightarrow> nat \<Rightarrow> ans list" where
  "start_up pid i = (
     if i = 0 then map rets [0, pid, 1, 1, 0, 3, 4, 5, 0, 30, 0, 30, 0, 30, 6, 0, 0, 0]
     else if i = 1 then map rets [3, 0, 30, 4, 0, 0, 0, 5, 30]
     else if i = 2 then map rets [3, 4, 0, 30, 5, 0, 0, 0, 0, 0, 0, 6, 30, 7, 30]
     else map rets [3, 4, 0, 0, 0, 0, 0, 0, 5, 30, 6, 30, 1, 1, pid])"

definition ticket_procs :: "nat \<Rightarrow> string \<Rightarrow> int \<Rightarrow> prog list" where
  "ticket_procs n buffer pid = map (\<lambda>(i, p). resume p (start_up pid i))
     (enumerate 0 [tc_main n buffer, c_main n buffer, s_main n buffer, e_main n buffer])"

lemma resume_loop: 
  "resume (forever n (c_turn nfd cs) i) [] = forever n (c_turn nfd cs) i"
  "resume (forever n (s_turn nfd nfdcs se) i) [] = forever n (s_turn nfd nfdcs se) i"
  "resume (forever n (e_turn pid nfd nfdse) i) [] = forever n (e_turn pid nfd nfdse) i"
  "resume (forever n (tc_turn sfd sfdc sfds sfde) b) [] = forever n (tc_turn sfd sfdc sfds sfde) b"
  by (cases n; simp add: c_turn_def s_turn_def e_turn_def tc_turn_def recv_file_descriptor_def must_def)+

lemma ticket_procs:
  assumes "length b = 30"
  shows "ticket_procs n b pid =
    [forever n (tc_turn 6 3 4 5) b, forever n (c_turn 5 3) 0, forever n (s_turn 7 6 4) 0,
     forever n (e_turn pid 6 5) 0]"
  using assms
  by (simp add: ticket_procs_def enumerate_eq_zip start_up_def tc_main_def c_main_def s_main_def e_main_def
    gettspid_def unix_socket_def unix_connect_def unix_listen_def must_def send_str_def recv_into_def
    resume_loop Let_def overwrite_def)

section \<open>What each program guarantees\<close>

text \<open>
  The ledger of a process: the connections it took, with the socket they came from, and gave on,
  with the socket they went to, those it made a thread for, the one in its hand, and for the counter
  the number that this one asked for.
\<close>

record ledger =
  took :: "(int \<times> int) list"
  gave :: "(int \<times> int) list"
  made :: "int list"
  hand :: "int list"
  want :: "int option"

definition new_ledger :: ledger where
  "new_ledger = \<lparr>took = [], gave = [], made = [], hand = [], want = None\<rparr>"

definition enter :: "ledger \<Rightarrow> obs \<Rightarrow> ledger" where
  "enter m x = (case x of Printed s \<Rightarrow> m | Did c a \<Rightarrow> (case c of
     Accept fd \<Rightarrow> m\<lparr>took := took m @ [(fd, ret a)], hand := [ret a], want := None\<rparr>
   | Recv fd n \<Rightarrow> m\<lparr>want := Some (atoi (got n a))\<rparr>
   | Recvmsg fd \<Rightarrow> m\<lparr>took := took m @ [(fd, hd (ints a))], hand := [hd (ints a)]\<rparr>
   | Sendmsg fd d x \<Rightarrow> m\<lparr>gave := gave m @ [(fd, x)], hand := []\<rparr>
   | Pthread_create f x \<Rightarrow> m\<lparr>made := made m @ [atoi (lit x)], hand := []\<rparr>
   | _ \<Rightarrow> m))"

lemma enter_simps [simp]:
  "enter m (Printed s) = m"
  "enter m (Did (Accept fd) a) = m\<lparr>took := took m @ [(fd, ret a)], hand := [ret a], want := None\<rparr>"
  "enter m (Did (Recv fd n) a) = m\<lparr>want := Some (atoi (got n a))\<rparr>"
  "enter m (Did (Recvmsg fd) a) = m\<lparr>took := took m @ [(fd, hd (ints a))], hand := [hd (ints a)]\<rparr>"
  "enter m (Did (Sendmsg fd d x) a) = m\<lparr>gave := gave m @ [(fd, x)], hand := []\<rparr>"
  "enter m (Did (Pthread_create f y) a) = m\<lparr>made := made m @ [atoi (lit y)], hand := []\<rparr>"
  "enter m (Did (Poll fds t) a) = m" "enter m (Did (Kill p g) a) = m" "enter m (Did (Sleep z) a) = m"
  by (simp_all add: enter_def)

lemma atoi_lit_dec [simp]: "atoi (lit (dec x)) = x"
  using atoi_dec [of x "[]"] by simp

text \<open>The counter: every client is asked for its number and passed to the server with this number.\<close>

definition counter_allows :: "ledger \<Rightarrow> action \<Rightarrow> bool" where
  "counter_allows m x = (case x of Prints s \<Rightarrow> True | Calls c \<Rightarrow> (case c of
     Accept fd \<Rightarrow> fd = 6 \<and> hand m = []
   | Recv fd n \<Rightarrow> hand m = [fd] \<and> n = 30
   | Sendmsg fd d x \<Rightarrow> hand m = [x] \<and> want m = Some (fd - 2) \<and> fd \<in> {3, 4, 5}
   | Sleep s \<Rightarrow> True
   | _ \<Rightarrow> False))"

definition counter_relies :: "ledger \<Rightarrow> call \<Rightarrow> ans \<Rightarrow> bool" where
  "counter_relies m c a = (case c of
     Recv fd n \<Rightarrow> (\<exists>j r. got n a = lit (dec j) @ r \<and> j \<in> {1, 2, 3})
   | _ \<Rightarrow> True)"

text \<open>
  A server with the capacity cap, the sockets ins and, unless it is the last one, the socket out:
  it passes a connection on, or signals the counter, only when it is full.
\<close>

definition server_allows :: "nat \<Rightarrow> int list \<Rightarrow> int option \<Rightarrow> ledger \<Rightarrow> action \<Rightarrow> bool" where
  "server_allows cap ins out m x = (case x of Prints s \<Rightarrow> True | Calls c \<Rightarrow> (case c of
     Recvmsg fd \<Rightarrow> fd \<in> set ins \<and> hand m = []
   | Sendmsg fd d x \<Rightarrow> out = Some fd \<and> hand m = [x] \<and> length (made m) = cap
   | Pthread_create f s \<Rightarrow> (\<exists>x. hand m = [x] \<and> s = dec x) \<and> length (made m) < cap
   | Poll fds t \<Rightarrow> True
   | Kill p g \<Rightarrow> out = None \<and> hand m \<noteq> [] \<and> length (made m) = cap
   | _ \<Rightarrow> False))"

definition server_relies :: "ledger \<Rightarrow> call \<Rightarrow> ans \<Rightarrow> bool" where
  "server_relies m c a = (case c of Recvmsg fd \<Rightarrow> (\<exists>x. a = passed x) | _ \<Rightarrow> True)"

definition counter_contract :: "ledger contract" where
  "counter_contract = \<lparr>allows = counter_allows, relies = counter_relies, records = enter\<rparr>"

definition server_contract :: "nat \<Rightarrow> int list \<Rightarrow> int option \<Rightarrow> ledger contract" where
  "server_contract cap ins out = \<lparr>allows = server_allows cap ins out, relies = server_relies, records = enter\<rparr>"

definition ticket_contract :: "nat \<Rightarrow> ledger contract" where
  "ticket_contract i = (
     if i = 0 then counter_contract
     else if i = 1 then server_contract 1 [5] (Some 3)
     else if i = 2 then server_contract 2 [7, 6] (Some 4)
     else if i = 3 then server_contract 3 [6, 5] None
     else counter_contract\<lparr>allows := \<lambda>_ _. False\<rparr>)"

lemma contract_simps [simp]:
  "allows counter_contract = counter_allows" "relies counter_contract = counter_relies"
  "records counter_contract = enter"
  "allows (server_contract cap ins out) = server_allows cap ins out"
  "relies (server_contract cap ins out) = server_relies" "records (server_contract cap ins out) = enter"
  by (simp_all add: counter_contract_def server_contract_def)

lemma passed_simps [simp]: "ret (passed x) = 1" "ints (passed x) = [x]"
  by (simp_all add: passed_def)

text \<open>Each program keeps its contract: first the turns, then the loops.\<close>

lemma counter_keeps:
  "length b = 30 \<Longrightarrow> keeps counter_contract new_ledger (forever n (tc_turn 6 3 4 5) b)"
proof (rule keeps_forever [where R = "\<lambda>b m. length b = 30 \<and> hand m = []"])
  fix b :: string and m :: ledger and k :: "string \<Rightarrow> prog"
  assume b: "length b = 30 \<and> hand m = []"
    and k: "\<And>b' m' :: ledger. length b' = 30 \<and> hand m' = [] \<Longrightarrow> keeps counter_contract m' (k b')"
  have len: "length (got 30 a) \<le> 30" for a using length_got [of 30 a] by simp
  then show "keeps counter_contract m (tc_turn 6 3 4 5 b k)"
    using b by (auto simp: tc_turn_def must_def error_exit_def recv_into_def counter_allows_def
      counter_relies_def send_file_descriptor_def Let_def overwrite_def length_overwrite atoi_dec k)
qed (simp add: new_ledger_def)

text \<open>The state of a server's loop is the number of its threads.\<close>

definition serving :: "nat \<Rightarrow> int \<Rightarrow> ledger \<Rightarrow> bool" where
  "serving cap n m = (n = int (length (made m)) \<and> length (made m) \<le> cap \<and> hand m = [])"

text \<open>What the servers do in common: take a connection, and make a thread for it or go on as full.\<close>

lemma server_takes:
  assumes "fd \<in> set ins" and m: "serving cap n m" and "c = int cap"
    and k: "\<And>n' m'. serving cap n' m' \<Longrightarrow> keeps (server_contract cap ins out) m' (k n')"
    and full: "\<And>m' x. hand m' = [x] \<Longrightarrow> made m' = made m \<Longrightarrow> length (made m) = cap \<Longrightarrow>
      keeps (server_contract cap ins out) m' (full x)"
  shows "keeps (server_contract cap ins out) m (recv_file_descriptor fd (\<lambda>x. Out (s x) (
     if c \<le> n then full x else Call (Pthread_create f (dec x)) (\<lambda>_. k (n + 1)))))"
proof -
  have "keeps (server_contract cap ins out) (m\<lparr>took := took m @ [(fd, x)], hand := [x]\<rparr>)
      (if c \<le> n then full x else Call (Pthread_create f (dec x)) (\<lambda>_. k (n + 1)))" for x
  proof (cases "length (made m) = cap")
    case True
    with m assms(3) show ?thesis by (simp add: serving_def full)
  next
    case False
    let ?m = "m\<lparr>took := took m @ [(fd, x)], made := made m @ [x], hand := []\<rparr>"
    have "serving cap (n + 1) ?m" using m False by (simp add: serving_def)
    then have "keeps (server_contract cap ins out) ?m (k (n + 1))" by (rule k)
    moreover have "length (made m) < cap" "n < c" using m False assms(3) by (simp_all add: serving_def)
    ultimately show ?thesis by (simp add: server_allows_def)
  qed
  with assms(1) m show ?thesis
    by (auto simp: recv_file_descriptor_def server_relies_def server_allows_def serving_def)
qed

lemma keeps_pass:
  assumes m: "serving cap n m" and "hand m' = [x]" and "made m' = made m" and "length (made m) = cap"
    and k: "\<And>n' m'. serving cap n' m' \<Longrightarrow> keeps (server_contract cap ins (Some fd)) m' (k n')"
  shows "keeps (server_contract cap ins (Some fd)) m' (send_file_descriptor fd x (\<lambda>_. k n))"
proof -
  have "serving cap n (m'\<lparr>gave := gave m' @ [(fd, x)], hand := []\<rparr>)"
    using assms(1,3,4) by (simp add: serving_def)
  from k [OF this] show ?thesis using assms(2-4) by (simp add: server_allows_def send_file_descriptor_def)
qed

lemma polling:
  "(\<And>a. 0 \<le> ret a \<Longrightarrow> keeps (server_contract cap ins out) m (k a)) \<Longrightarrow>
    keeps (server_contract cap ins out) m (Call (Poll fds t) (\<lambda>a. error_exit (ret a) s (k a)))"
  by (simp add: server_allows_def error_exit_def)

lemma servers_keep:
  "keeps (server_contract 1 [5] (Some 3)) new_ledger (forever n (c_turn 5 3) 0)"
  "keeps (server_contract 2 [7, 6] (Some 4)) new_ledger (forever n (s_turn 7 6 4) 0)"
  "keeps (server_contract 3 [6, 5] None) new_ledger (forever n (e_turn pid 6 5) 0)"
proof -
  show "keeps (server_contract 1 [5] (Some 3)) new_ledger (forever n (c_turn 5 3) 0)"
  proof (rule keeps_forever [where R = "serving 1"])
    fix n m k
    assume m: "serving 1 n m" and k: "\<And>n' m'. serving 1 n' m' \<Longrightarrow> keeps (server_contract 1 [5] (Some 3)) m' (k n')"
    show "keeps (server_contract 1 [5] (Some 3)) m (c_turn 5 3 n k)" unfolding c_turn_def
      by (rule server_takes [OF _ m _ k]) (use keeps_pass [OF m _ _ _ k] in \<open>simp_all add: server_allows_def\<close>)
  qed (simp add: serving_def new_ledger_def)
  have s: "keeps (server_contract 2 [7, 6] (Some 4)) m (s_take fd 4 n k)"
    if m: "serving 2 n m" and k: "\<And>n' m'. serving 2 n' m' \<Longrightarrow> keeps (server_contract 2 [7, 6] (Some 4)) m' (k n')"
      and "fd \<in> {6, 7}" for n m k fd
    unfolding s_take_def
    by (rule server_takes [OF _ m _ k])
      (use that(3) keeps_pass [OF m, where k = "\<lambda>n. Perror ''send:'' (k n)"] k in \<open>auto simp: server_allows_def\<close>)
  show "keeps (server_contract 2 [7, 6] (Some 4)) new_ledger (forever n (s_turn 7 6 4) 0)"
  proof (rule keeps_forever [where R = "serving 2"])
    fix n m k
    assume m: "serving 2 n m" and k: "\<And>n' m'. serving 2 n' m' \<Longrightarrow> keeps (server_contract 2 [7, 6] (Some 4)) m' (k n')"
    show "keeps (server_contract 2 [7, 6] (Some 4)) m (s_turn 7 6 4 n k)" unfolding s_turn_def
      by (rule polling) (simp add: s [OF m k] k [OF m] server_allows_def)
  qed (simp add: serving_def new_ledger_def)
  have e: "keeps (server_contract 3 [6, 5] None) m (e_take pid fd n k)"
    if m: "serving 3 n m" and k: "\<And>n' m'. serving 3 n' m' \<Longrightarrow> keeps (server_contract 3 [6, 5] None) m' (k n')"
      and "fd \<in> {5, 6}" for n m k fd
    unfolding e_take_def
    by (rule server_takes [OF _ m _ k]) (use that(3) in \<open>auto simp: server_allows_def\<close>)
  show "keeps (server_contract 3 [6, 5] None) new_ledger (forever n (e_turn pid 6 5) 0)"
  proof (rule keeps_forever [where R = "serving 3"])
    fix n m k
    assume m: "serving 3 n m" and k: "\<And>n' m'. serving 3 n' m' \<Longrightarrow> keeps (server_contract 3 [6, 5] None) m' (k n')"
    show "keeps (server_contract 3 [6, 5] None) m (e_turn pid 6 5 n k)" unfolding e_turn_def
      by (rule polling) (simp add: e [OF m k] k [OF m] server_allows_def)
  qed (simp add: serving_def new_ledger_def)
qed

section \<open>The composition\<close>

text \<open>The two ends of a socket: the process that writes to it and the one that reads.\<close>

fun source :: "link \<Rightarrow> nat \<times> int" where
  "source TC = (0, 3)" | "source TS = (0, 4)" | "source TE = (0, 5)" | "source CS = (1, 3)" | "source SE = (2, 4)"

fun target :: "link \<Rightarrow> nat \<times> int" where
  "target TC = (1, 5)" | "target TS = (2, 7)" | "target TE = (3, 6)" | "target CS = (2, 6)" | "target SE = (3, 5)"

lemma link_ends:
  "out_link i fd = Some l \<longleftrightarrow> (i, fd) = source l"
  "in_link i fd = Some l \<longleftrightarrow> (i, fd) = target l"
  by (cases l; auto simp: out_link_def in_link_def split: if_splits)+

lemma source_inj [simp]: "source l = source l' \<longleftrightarrow> l = l'" "target l = target l' \<longleftrightarrow> l = l'"
  by (cases l; cases l'; simp)+

text \<open>The connections of a ledger's column that belong to a socket.\<close>

definition on :: "int \<Rightarrow> (int \<times> int) list \<Rightarrow> int list" where
  "on fd xs = map snd (filter (\<lambda>e. fst e = fd) xs)"

lemma on_simps [simp]:
  "on fd [] = []" "on fd (xs @ ys) = on fd xs @ on fd ys"
  "on fd [(fd', x)] = (if fd' = fd then [x] else [])"
  by (simp_all add: on_def)

definition outs :: "nat \<Rightarrow> int set" where
  "outs i = (if i = 0 then {3, 4, 5} else if i = 1 then {3} else if i = 2 then {4} else {})"

definition ins :: "nat \<Rightarrow> int set" where
  "ins i = (if i = 0 then {6} else if i = 1 then {5} else if i = 2 then {6, 7} else if i = 3 then {5, 6} else {})"

text \<open>The invariant of one ledger: nothing is lost, and what is given is the overflow. It is first in, first out.\<close>

definition balanced :: "nat \<Rightarrow> ledger \<Rightarrow> bool" where
  "balanced i m = (made m @ map snd (gave m) @ hand m = map snd (took m) \<and> length (made m) \<le> i \<and>
     length (hand m) \<le> 1 \<and> (gave m \<noteq> [] \<longrightarrow> length (made m) = i) \<and>
     fst ` set (gave m) \<subseteq> outs i \<and> fst ` set (took m) \<subseteq> ins i)"

text \<open>What was given to a socket, and what was taken from it.\<close>

definition given :: "(nat \<Rightarrow> ledger) \<Rightarrow> link \<Rightarrow> int list" where
  "given m l = on (snd (source l)) (gave (m (fst (source l))))"

definition taken_from :: "(nat \<Rightarrow> ledger) \<Rightarrow> link \<Rightarrow> int list" where
  "taken_from m l = on (snd (target l)) (took (m (fst (target l))))"

lemma given_update:
  "gave m' = gave (m i) \<Longrightarrow> given (m(i := m')) l = given m l"
  "gave m' = gave (m i) @ [(fd, x)] \<Longrightarrow> given (m(i := m')) l = given m l @ (if source l = (i, fd) then [x] else [])"
  by (auto simp: given_def prod_eq_iff)

lemma taken_update:
  "took m' = took (m i) \<Longrightarrow> taken_from (m(i := m')) l = taken_from m l"
  "took m' = took (m i) @ [(fd, x)] \<Longrightarrow>
    taken_from (m(i := m')) l = taken_from m l @ (if target l = (i, fd) then [x] else [])"
  by (auto simp: taken_from_def prod_eq_iff)

definition delivered :: "(nat \<Rightarrow> ledger) \<Rightarrow> network \<Rightarrow> bool" where
  "delivered m k = (\<forall>l. given m l = taken_from m l @ chan k l)"

definition by_number :: "(int \<Rightarrow> int) \<Rightarrow> ledger \<Rightarrow> bool" where
  "by_number ask m = ((\<forall>(fd, x) \<in> set (gave m). fd = ask x + 2) \<and>
     (\<forall>x w. hand m = [x] \<and> want m = Some w \<longrightarrow> w = ask x))"

definition ticket_inv :: "int list \<Rightarrow> (int \<Rightarrow> int) \<Rightarrow> (nat \<Rightarrow> ledger) \<Rightarrow> network \<Rightarrow> bool" where
  "ticket_inv cs ask m k = ((\<forall>i. balanced i (m i)) \<and> delivered m k \<and> by_number ask (m 0) \<and>
     map snd (took (m 0)) @ arriving k = cs \<and> asks k = ask \<and> (\<forall>x \<in> set cs. ask x \<in> {1, 2, 3}) \<and>
     (signalled k \<longrightarrow> 4 \<le> length (took (m 3))))"

text \<open>The calls that the contracts allow.\<close>

lemma allowed_cases [consumes 1, case_names accepting asking giving taking making polling killing sleeping]:
  assumes "allows (ticket_contract i) m (Calls c)"
  obtains "i = 0" "c = Accept 6" "hand m = []"
  | fd where "i = 0" "c = Recv fd 30" "hand m = [fd]"
  | fd d x where "c = Sendmsg fd d x" "fd \<in> outs i" "hand m = [x]" "length (made m) \<le> i \<longrightarrow> length (made m) = i"
      "i = 0 \<longrightarrow> want m = Some (fd - 2)"
  | fd where "0 < i" "c = Recvmsg fd" "fd \<in> ins i" "hand m = []"
  | f x where "0 < i" "c = Pthread_create f (dec x)" "hand m = [x]" "length (made m) < i"
  | fds n where "0 < i" "c = Poll fds n"
  | p g where "i = 3" "c = Kill p g" "hand m \<noteq> []" "length (made m) = 3"
  | n where "i = 0" "c = Sleep n"
proof (cases "i = 0")
  case True
  with assms that show ?thesis
    by (cases c) (auto simp: ticket_contract_def counter_allows_def outs_def)
next
  case False
  then have "allows (ticket_contract i) = server_allows i (if i = 1 then [5] else if i = 2 then [7, 6] else [6, 5])
      (if i = 1 then Some 3 else if i = 2 then Some 4 else None) \<and> i \<in> {1, 2, 3}"
    using assms by (auto simp: ticket_contract_def split: if_splits)
  with False assms that show ?thesis
    by (cases c) (auto simp: server_allows_def outs_def ins_def split: if_splits)
qed

lemma server_relies [simp]: "0 < i \<Longrightarrow> allows (ticket_contract i) m x \<Longrightarrow> relies (ticket_contract i) = server_relies"
  by (simp add: ticket_contract_def split: if_splits)

lemma records_enter [simp]: "records (ticket_contract i) = enter"
  by (simp add: ticket_contract_def)

lemma balanced_enter:
  assumes "balanced i m" and "allows (ticket_contract i) m (Calls c)" and "relies (ticket_contract i) m c a"
  shows "balanced i (enter m (Did c a))"
  using assms(2)
proof (cases rule: allowed_cases)
qed (use assms(1) in \<open>auto simp: balanced_def ins_def\<close>)

text \<open>The sockets after a call.\<close>

lemma delivered_same:
  assumes "delivered m k" and "gave m' = gave (m i)" and "took m' = took (m i)" and "chan k' = chan k"
  shows "delivered (m(i := m')) k'"
  using assms(1,4) by (simp add: delivered_def given_update(1) [where m = m and i = i, OF assms(2)] taken_update(1) [where m = m and i = i, OF assms(3)])

lemma delivered_give:
  assumes "delivered m k" and "out_link i fd = Some l" and "gave m' = gave (m i) @ [(fd, x)]" and "took m' = took (m i)"
  shows "delivered (m(i := m')) (k\<lparr>chan := (chan k)(l := chan k l @ [x])\<rparr>)"
proof -
  have "source l' = (i, fd) \<longleftrightarrow> l' = l" for l'
    using assms(2) source_inj(1) [of l' l] by (simp add: link_ends del: source_inj)
  with assms(1) show ?thesis
    by (simp add: delivered_def given_update(2) [where m = m and i = i, OF assms(3)] taken_update(1) [where m = m and i = i, OF assms(4)])
qed

lemma delivered_take:
  assumes "delivered m k" and "in_link i fd = Some l" and "took m' = took (m i) @ [(fd, x)]" and "gave m' = gave (m i)"
    and "chan k l = x # xs"
  shows "delivered (m(i := m')) (k\<lparr>chan := (chan k)(l := xs)\<rparr>)"
proof -
  have "target l' = (i, fd) \<longleftrightarrow> l' = l" for l'
    using assms(2) source_inj(2) [of l' l] by (simp add: link_ends del: source_inj)
  with assms(1,5) show ?thesis
    by (simp add: delivered_def given_update(1) [where m = m and i = i, OF assms(4)] taken_update(2) [where m = m and i = i, OF assms(3)])
qed

lemma delivered_accept:
  "delivered m k \<Longrightarrow> delivered (m(0 := m 0\<lparr>took := took (m 0) @ [(6, x)], hand := h, want := w\<rparr>)) (k\<lparr>arriving := xs\<rparr>)"
proof -
  have "target l \<noteq> (0, 6)" for l by (cases l) simp_all
  then show "delivered m k \<Longrightarrow> ?thesis" by (simp add: delivered_def given_update(1) taken_update(2))
qed

lemma delivered_signalled [simp]: "delivered m (k\<lparr>signalled := b\<rparr>) = delivered m k"
  by (simp add: delivered_def)

text \<open>The obligations of the composition.\<close>

lemma out_link_outs: "fd \<in> outs i \<Longrightarrow> \<exists>l. out_link i fd = Some l"
  by (auto simp: outs_def out_link_def split: if_splits)

lemma in_link_ins: "0 < i \<Longrightarrow> fd \<in> ins i \<Longrightarrow> \<exists>l. in_link i fd = Some l"
  by (auto simp: ins_def in_link_def split: if_splits)

lemma ticket_answers:
  assumes inv: "ticket_inv cs ask m k" and ok: "allows (ticket_contract i) (m i) (Calls c)"
    and a: "network_answers i c k = Some (a, k')"
  shows "relies (ticket_contract i) (m i) c a \<and> delivered (m(i := enter (m i) (Did c a))) k' \<and>
    asks k' = ask \<and> behind k' = behind k \<and>
    map snd (took ((m(i := enter (m i) (Did c a))) 0)) @ arriving k' = cs \<and>
    (signalled k' \<longrightarrow> signalled k \<or> i = 3 \<and> 4 \<le> length (took (m 3))) \<and>
    by_number ask ((m(i := enter (m i) (Did c a))) 0)"
  using ok
proof (cases rule: allowed_cases)
  have del: "delivered m k" and num: "by_number ask (m 0)" and ask: "asks k = ask"
    and cs: "map snd (took (m 0)) @ arriving k = cs" and three: "\<forall>x \<in> set cs. ask x \<in> {1, 2, 3}"
    and sig: "signalled k \<longrightarrow> 4 \<le> length (took (m 3))" and bal: "\<And>i. balanced i (m i)"
    using inv by (simp_all add: ticket_inv_def)
  have idle: ?thesis if "relies (ticket_contract i) (m i) c a" "enter (m i) (Did c a) = m i" "k' = k"
    using that del num ask cs by (simp add: fun_upd_idem)
  {
    case accepting
    then obtain x xs where "arriving k = x # xs" "a = rets x" "k' = k\<lparr>arriving := xs\<rparr>"
      using a by (cases "arriving k") (simp_all add: network_answers_def)
    with accepting cs ask num show ?thesis
      by (simp add: ticket_contract_def counter_relies_def by_number_def delivered_accept [OF del])
  next
    case (asking fd)
    let ?s = "take 30 (lit (dec (ask fd)) @ behind k)"
    from bal [of 0] asking have "map snd (gave (m 0)) @ [fd] = map snd (took (m 0))" by (auto simp: balanced_def)
    from arg_cong [OF this, where f = set] have "fd \<in> set (map snd (took (m 0)))" by auto
    with cs have "fd \<in> set cs" by (metis Un_iff set_append)
    with three have one: "ask fd \<in> {1, 2, 3}" by (rule bspec)
    then have "dec (ask fd) = dec_nat (nat (ask fd))" "nat (ask fd) < 10 ^ 1" by (auto simp: dec_def)
    then have "length (lit (dec (ask fd))) \<le> 30" using length_dec_nat [of "nat (ask fd)" 1] by (simp add: length_lit)
    then have s: "?s = lit (dec (ask fd)) @ take (30 - length (lit (dec (ask fd)))) (behind k)" "length ?s \<le> 30" by simp_all
    have "network_answers i c k = Some (gives ?s, k)"
      using ask unfolding asking network_answers_def by (simp only: call.case nat_numeral take_take min.idem)
    from trans [OF a [symmetric] this] have a': "a = gives ?s" "k' = k" by (simp_all only: option.inject prod.inject)
    with s have got: "got 30 a = lit (dec (ask fd)) @ take (30 - length (lit (dec (ask fd)))) (behind k)" by simp
    with one have rely: "relies (ticket_contract 0) (m 0) c a"
      by (auto simp: ticket_contract_def counter_relies_def asking)
    have "atoi (got 30 a) = ask fd" by (simp add: got atoi_dec)
    then have "by_number ask (enter (m 0) (Did c a))" using num asking by (simp add: by_number_def)
    moreover have "delivered (m(0 := enter (m 0) (Did c a))) k"
      by (rule delivered_same [OF del]) (simp_all add: asking)
    ultimately show ?thesis using rely asking a'(2) ask cs by simp
  next
    case (giving fd d x)
    then obtain l where l: "out_link i fd = Some l" using out_link_outs by blast
    with a giving have a': "a = rets 1" "k' = k\<lparr>chan := (chan k)(l := chan k l @ [x])\<rparr>"
      by (simp_all add: network_answers_def)
    have rely: "relies (ticket_contract i) (m i) c a"
      by (simp add: giving ticket_contract_def counter_relies_def server_relies_def)
    have "delivered (m(i := enter (m i) (Did c a))) k'"
      unfolding a' by (rule delivered_give [OF del l]) (simp_all add: giving)
    moreover have "by_number ask ((m(i := enter (m i) (Did c a))) 0)"
      using num giving by (auto simp: by_number_def)
    ultimately show ?thesis using rely giving a' ask cs by simp
  next
    case (taking fd)
    then obtain l where l: "in_link i fd = Some l" using in_link_ins by blast
    with a taking obtain x xs where x: "chan k l = x # xs" and a': "a = passed x" "k' = k\<lparr>chan := (chan k)(l := xs)\<rparr>"
      by (cases "chan k l") (simp_all add: network_answers_def)
    have "delivered (m(i := enter (m i) (Did c a))) k'"
      unfolding a' by (rule delivered_take [OF del l _ _ x]) (simp_all add: taking)
    moreover have "relies (ticket_contract i) (m i) c a" using server_relies [OF taking(1) ok] a' by (auto simp: taking server_relies_def)
    ultimately show ?thesis using taking(1) a' ask cs num by simp
  next
    case (making f x)
    have "relies (ticket_contract i) (m i) c a" using server_relies [OF making(1) ok] by (simp add: making server_relies_def)
    moreover have "k' = k" using a making by (simp add: network_answers_def)
    moreover have "delivered (m(i := enter (m i) (Did c a))) k"
      by (rule delivered_same [OF del]) (simp_all add: making)
    ultimately show ?thesis using making(1) ask cs num by simp
  next
    case (polling fds n)
    show ?thesis
      by (rule idle) (use a server_relies [OF polling(1) ok] in \<open>simp_all add: polling network_answers_def server_relies_def\<close>)
  next
    case (sleeping n)
    show ?thesis
      by (rule idle) (use a in \<open>simp_all add: sleeping network_answers_def ticket_contract_def counter_relies_def\<close>)
  next
    case (killing p g)
    from bal [of 3] have "made (m 3) @ map snd (gave (m 3)) @ hand (m 3) = map snd (took (m 3))" by (simp add: balanced_def)
    from arg_cong [OF this, where f = length] killing have four: "4 \<le> length (took (m 3))"
      by (cases "hand (m 3)") simp_all
    have "k' = (if p = counter k \<and> g = SIGUSR1 then k\<lparr>signalled := True\<rparr> else k)"
      using a killing by (simp add: network_answers_def split: if_splits)
    moreover have "relies (ticket_contract i) (m i) c a" by (simp add: killing ticket_contract_def server_relies_def)
    ultimately show ?thesis using killing(1,2) four del ask cs num by (simp add: fun_upd_idem)
  }
qed

lemma ticket_call:
  assumes inv: "ticket_inv cs ask m k" and ok: "allows (ticket_contract i) (m i) (Calls c)"
    and a: "network_answers i c k = Some (a, k')"
  shows "relies (ticket_contract i) (m i) c a \<and> ticket_inv cs ask (m(i := enter (m i) (Did c a))) k'"
proof -
  note facts = ticket_answers [OF inv ok a]
  have bal: "balanced i (enter (m i) (Did c a))"
    by (rule balanced_enter [OF _ ok]) (use facts inv in \<open>auto simp: ticket_inv_def\<close>)
  have "length (took (m 3)) \<le> length (took (enter (m 3) (Did c a)))"
    by (simp add: enter_def split: call.split)
  with facts bal inv show ?thesis by (auto simp: ticket_inv_def)
qed

interpretation tickets: composition network_answers network_signals "\<lambda>_. handler_func" ticket_contract "ticket_inv cs ask"
  for cs ask
proof
  fix m :: "nat \<Rightarrow> ledger" and k k' i x
  show "ticket_inv cs ask m k \<Longrightarrow> ticket_inv cs ask (m(i := records (ticket_contract i) (m i) (Printed x))) k"
    by simp
  show "ticket_inv cs ask m k' \<and> keeps (ticket_contract i) (m i) handler_func"
    if "ticket_inv cs ask m k" "network_signals i k = Some k'"
    using that by (simp add: network_signals_def handler_func_def ticket_contract_def counter_allows_def split: if_splits)
qed (use ticket_call in simp)

section \<open>What becomes of the clients\<close>

text \<open>The connections that the process i made a thread for, as the log shows them.\<close>

definition served :: "nat \<Rightarrow> (nat \<times> obs) list \<Rightarrow> int list" where
  "served i t = concat (map (\<lambda>x. case x of Did (Pthread_create f y) a \<Rightarrow> [atoi (lit y)] | _ \<Rightarrow> []) (history i t))"

definition tickets_start :: "nat \<Rightarrow> string \<Rightarrow> int \<Rightarrow> int list \<Rightarrow> (int \<Rightarrow> int) \<Rightarrow> string \<Rightarrow> network system" where
  "tickets_start n b pid cs ask rest = \<lparr>procs = ticket_procs n b pid,
     kern = \<lparr>arriving = cs, asks = ask, behind = rest, chan = \<lambda>_. [], counter = pid, signalled = False\<rparr>,
     happened = []\<rparr>"

definition ticket_run :: "turn list \<Rightarrow> network system \<Rightarrow> network system option" where
  "ticket_run ms s = schedule network_answers network_signals (\<lambda>_. handler_func) ms s"

lemma made_enter: "made (enter m x) = made m @
    (case x of Did (Pthread_create f y) a \<Rightarrow> [atoi (lit y)] | _ \<Rightarrow> [])"
proof (cases x)
  case (Did c a)
  then show ?thesis by (cases c) (simp_all add: enter_def)
qed simp

lemma made_after: "made (after (ticket_contract i) m t) = made m @
    concat (map (\<lambda>x. case x of Did (Pthread_create f y) a \<Rightarrow> [atoi (lit y)] | _ \<Rightarrow> []) t)"
  by (induction t arbitrary: m) (simp_all add: made_enter)

lemma made_served: "made (tickets.monitors (\<lambda>_. new_ledger) t i) = served i t"
  by (simp add: tickets.monitors_def served_def made_after new_ledger_def)

lemma ticket_run_inv:
  assumes "ticket_run ms (tickets_start n b pid cs ask rest) = Some s" and "length b = 30"
    and "\<forall>x \<in> set cs. ask x \<in> {1, 2, 3}"
  shows "ticket_inv cs ask (tickets.monitors (\<lambda>_. new_ledger) (happened s)) (kern s)"
proof (rule tickets.composed)
  show "schedule network_answers network_signals (\<lambda>_. handler_func) ms
      \<lparr>procs = ticket_procs n b pid, kern = kern (tickets_start n b pid cs ask rest), happened = []\<rparr> = Some s"
    using assms(1) by (simp add: ticket_run_def tickets_start_def)
  show "ticket_inv cs ask (\<lambda>_. new_ledger) (kern (tickets_start n b pid cs ask rest))"
    using assms(3) by (simp add: ticket_inv_def tickets_start_def new_ledger_def balanced_def delivered_def
      given_def taken_from_def by_number_def)
  show "\<forall>i < length (ticket_procs n b pid). keeps (ticket_contract i) new_ledger (ticket_procs n b pid ! i)"
  proof (intro allI impI)
    fix i assume "i < length (ticket_procs n b pid)"
    then have "i \<in> {0, 1, 2, 3}" by (auto simp: ticket_procs [OF assms(2)])
    then show "keeps (ticket_contract i) new_ledger (ticket_procs n b pid ! i)"
      by (auto simp: ticket_procs [OF assms(2)] ticket_contract_def counter_keeps [OF assms(2)] servers_keep
        servers_keep(1) [simplified])
  qed
qed

text \<open>Once sent, the signal stays; the handler runs only when it was sent.\<close>

lemma move_stays:
  assumes "move network_answers network_signals h x s = Some s'" and "signalled (kern s) \<or> x = Interrupt j"
  shows "signalled (kern s')"
proof (cases x)
  case (Run i)
  with assms have "run_one network_answers i s = Some s'" "signalled (kern s)" by (simp_all split: if_splits)
  from kern_run_one [OF this(1)] this(2) answers_stay show ?thesis by metis
qed (use assms in \<open>auto simp: network_signals_def split: if_splits\<close>)

lemma signalled_stays:
  assumes "ticket_run ms s = Some s'" and "signalled (kern s) \<or> Interrupt j \<in> set ms"
  shows "signalled (kern s')"
  using assms
proof (induction ms arbitrary: s)
  case (Cons x ms)
  then obtain s1 where s1: "move network_answers network_signals (\<lambda>_. handler_func) x s = Some s1" "ticket_run ms s1 = Some s'"
    by (auto simp: ticket_run_def bind_eq_Some_conv)
  from move_stays [OF s1(1), of j] Cons.IH [OF s1(2)] Cons.prems(2) show ?case by auto
qed (simp add: ticket_run_def)

text \<open>Columns of a ledger by socket.\<close>

lemma on_all: "fst ` set xs \<subseteq> {fd} \<Longrightarrow> on fd xs = map snd xs"
  by (induction xs) (auto simp: on_def)

lemma on_two:
  "fst ` set xs \<subseteq> {c, d} \<Longrightarrow> c \<noteq> d \<Longrightarrow> mset (map snd xs) = mset (on c xs) + mset (on d xs)"
  "fst ` set xs \<subseteq> {c, d} \<Longrightarrow> on d xs = [] \<Longrightarrow> on c xs = map snd xs"
  by (induction xs) (auto simp: on_def split: if_splits)

lemma on_three:
  "fst ` set xs \<subseteq> {c, d, e} \<Longrightarrow> distinct [c, d, e] \<Longrightarrow> mset (map snd xs) = mset (on c xs) + mset (on d xs) + mset (on e xs)"
  by (induction xs) (auto simp: on_def)

lemma on_number: "\<forall>(fd, x) \<in> set xs. fd = ask x + 2 \<Longrightarrow> on fd xs = filter (\<lambda>x. ask x = fd - 2) (map snd xs)"
  by (induction xs) (auto simp: on_def)

text \<open>
  The ledgers, put together: the columns of the four processes, and the connections that are under way
  on the five sockets and in their hands.
\<close>

lemma ledgers:
  assumes "ticket_inv cs ask m k"
  shows "fst ` set (took (m 2)) \<subseteq> {6, 7}" "fst ` set (took (m 3)) \<subseteq> {5, 6}" "made (m 0) = []" "gave (m 3) = []" "\<And>i. length (made (m i)) \<le> i" "\<And>i. length (hand (m i)) \<le> 1"
    "\<And>i. gave (m i) \<noteq> [] \<Longrightarrow> length (made (m i)) = i"
    "map snd (gave (m 0)) @ hand (m 0) @ arriving k = cs"
    "\<And>i. made (m i) @ map snd (gave (m i)) @ hand (m i) = map snd (took (m i))"
    "map snd (took (m 1)) @ chan k TC = filter (\<lambda>x. ask x = 1) (map snd (gave (m 0)))"
    "on 7 (took (m 2)) @ chan k TS = filter (\<lambda>x. ask x = 2) (map snd (gave (m 0)))"
    "on 6 (took (m 3)) @ chan k TE = filter (\<lambda>x. ask x = 3) (map snd (gave (m 0)))"
    "on 6 (took (m 2)) @ chan k CS = map snd (gave (m 1))"
    "on 5 (took (m 3)) @ chan k SE = map snd (gave (m 2))"
proof -
  have bal: "balanced i (m i)" for i using assms by (simp add: ticket_inv_def)
  have del: "given m l = taken_from m l @ chan k l" for l using assms by (simp add: ticket_inv_def delivered_def)
  have num: "\<forall>(fd, x) \<in> set (gave (m 0)). fd = ask x + 2" using assms by (simp add: ticket_inv_def by_number_def)
  show "fst ` set (took (m 2)) \<subseteq> {6, 7}" "fst ` set (took (m 3)) \<subseteq> {5, 6}"
    using bal [of 2] bal [of 3] by (simp_all add: balanced_def ins_def)
  show made: "made (m 0) = []" and "gave (m 3) = []" and "\<And>i. length (made (m i)) \<le> i" "\<And>i. length (hand (m i)) \<le> 1"
    "\<And>i. gave (m i) \<noteq> [] \<Longrightarrow> length (made (m i)) = i"
    and books: "\<And>i. made (m i) @ map snd (gave (m i)) @ hand (m i) = map snd (took (m i))"
    using bal [of 0] bal [of 3] bal by (simp_all add: balanced_def outs_def)
  have cs: "map snd (took (m 0)) @ arriving k = cs" using assms by (simp add: ticket_inv_def)
  show "map snd (gave (m 0)) @ hand (m 0) @ arriving k = cs"
    using books [of 0] cs made by (metis append_Nil append_assoc)
  have three: "on 3 (gave (m 0)) = filter (\<lambda>x. ask x = 1) (map snd (gave (m 0)))"
    "on 4 (gave (m 0)) = filter (\<lambda>x. ask x = 2) (map snd (gave (m 0)))"
    "on 5 (gave (m 0)) = filter (\<lambda>x. ask x = 3) (map snd (gave (m 0)))"
    using on_number [OF num, of 3] on_number [OF num, of 4] on_number [OF num, of 5] by (simp_all del: filter_map)
  show "map snd (took (m 1)) @ chan k TC = filter (\<lambda>x. ask x = 1) (map snd (gave (m 0)))"
    unfolding three [symmetric] using del [of TC] bal [of 1]
    by (simp add: given_def taken_from_def balanced_def ins_def on_all)
  show "on 7 (took (m 2)) @ chan k TS = filter (\<lambda>x. ask x = 2) (map snd (gave (m 0)))"
    "on 6 (took (m 3)) @ chan k TE = filter (\<lambda>x. ask x = 3) (map snd (gave (m 0)))"
    unfolding three [symmetric] using del [of TS] del [of TE] by (simp_all add: given_def taken_from_def)
  show "on 6 (took (m 2)) @ chan k CS = map snd (gave (m 1))"
    using del [of CS] bal [of 1] by (simp add: given_def taken_from_def balanced_def outs_def on_all)
  show "on 5 (took (m 3)) @ chan k SE = map snd (gave (m 2))"
    using del [of SE] bal [of 2] by (simp add: given_def taken_from_def balanced_def outs_def on_all)
qed

text \<open>Every connection is in one place.\<close>

lemma columns_add:
  fixes g0 :: "'a multiset"
  assumes "g0 = (t1 + c1) + (t2a + c2) + (t3a + c3)" and "t2 = t2b + t2a" and "t3 = t3b + t3a"
    and "t1 = m1 + g1 + h1" and "t2 = m2 + g2 + h2" and "t3 = m3 + h3" and "t2b + c4 = g1" and "t3b + c5 = g2"
  shows "g0 = m1 + m2 + m3 + (c1 + c2 + c3 + c4 + c5) + (h1 + h2 + h3)"
proof (rule multiset_eqI)
  fix x
  show "count g0 x = count (m1 + m2 + m3 + (c1 + c2 + c3 + c4 + c5) + (h1 + h2 + h3)) x"
    using assms [THEN arg_cong [where f = "\<lambda>m. count m x"]] by simp
qed

lemma nothing_lost:
  assumes inv: "ticket_inv cs ask m k" and three: "\<forall>x \<in> set cs. ask x \<in> {1, 2, 3}"
  shows "mset (map snd (gave (m 0)) @ hand (m 0)) =
    mset (made (m 1) @ made (m 2) @ made (m 3)) + mset (concat (map (chan k) [TC, TS, TE, CS, SE])) +
    mset (hand (m 0) @ hand (m 1) @ hand (m 2) @ hand (m 3))"
proof -
  note l = ledgers [OF inv]
  have asked: "\<forall>x \<in> set (map snd (gave (m 0))). ask x \<in> {1, 2, 3}" using l(8) three by (metis UnCI set_append)
  have parts: "\<forall>x \<in> set xs. ask x \<in> {1, 2, 3} \<Longrightarrow> mset xs = mset (filter (\<lambda>x. ask x = 1) xs) +
      mset (filter (\<lambda>x. ask x = 2) xs) + mset (filter (\<lambda>x. ask x = 3) xs)" for xs
    by (induction xs) auto
  have "mset (map snd (gave (m 0))) = mset (made (m 1)) + mset (made (m 2)) + mset (made (m 3)) +
      (mset (chan k TC) + mset (chan k TS) + mset (chan k TE) + mset (chan k CS) + mset (chan k SE)) +
      (mset (hand (m 1)) + mset (hand (m 2)) + mset (hand (m 3)))"
  proof (rule columns_add)
    show "mset (map snd (gave (m 0))) = (mset (map snd (took (m 1))) + mset (chan k TC)) +
        (mset (on 7 (took (m 2))) + mset (chan k TS)) + (mset (on 6 (took (m 3))) + mset (chan k TE))"
      unfolding mset_append [symmetric] l(10-12) unfolding mset_append by (rule parts [OF asked])
    show "mset (map snd (took (m 2))) = mset (on 6 (took (m 2))) + mset (on 7 (took (m 2)))"
      "mset (map snd (took (m 3))) = mset (on 5 (took (m 3))) + mset (on 6 (took (m 3)))"
      by (rule on_two(1) [OF l(1)], simp) (rule on_two(1) [OF l(2)], simp)
    show "mset (map snd (took (m 1))) = mset (made (m 1)) + mset (map snd (gave (m 1))) + mset (hand (m 1))"
      "mset (map snd (took (m 2))) = mset (made (m 2)) + mset (map snd (gave (m 2))) + mset (hand (m 2))"
      "mset (map snd (took (m 3))) = mset (made (m 3)) + mset (hand (m 3))"
      unfolding l(9) [symmetric] by (simp_all add: l(4))
    show "mset (on 6 (took (m 2))) + mset (chan k CS) = mset (map snd (gave (m 1)))"
      "mset (on 5 (took (m 3))) + mset (chan k SE) = mset (map snd (gave (m 2)))"
      unfolding mset_append [symmetric] l(13,14) by simp_all
  qed
  then show ?thesis by (simp add: add_ac)
qed

text \<open>Server s gets clients from the counter and from c, and so none that asked for 3; the signal means that e is full.\<close>

lemma not_for_s:
  assumes inv: "ticket_inv cs ask m k" and x: "x \<in> set (made (m 2))"
  shows "ask x \<noteq> 3"
proof -
  note l = ledgers [OF inv]
  have "x \<in> set (map snd (took (m 2)))" using x arg_cong [OF l(9) [of 2], where f = set] by auto
  then have "x \<in> set (on 6 (took (m 2))) \<or> x \<in> set (on 7 (took (m 2)))"
    using arg_cong [OF on_two(1) [OF l(1)], where f = set_mset] by auto
  moreover have "set (on 6 (took (m 2))) \<subseteq> set (map snd (gave (m 1)))"
    "set (map snd (gave (m 1))) \<subseteq> set (map snd (took (m 1)))"
    using arg_cong [OF l(13), where f = set] arg_cong [OF l(9) [of 1], where f = set] by auto
  moreover have "\<forall>y \<in> set (map snd (took (m 1))). ask y = 1" "\<forall>y \<in> set (on 7 (took (m 2))). ask y = 2"
    using arg_cong [OF l(10), where f = set] arg_cong [OF l(11), where f = set] by auto
  ultimately have "ask x = 1 \<or> ask x = 2" by blast
  then show ?thesis by auto
qed

lemma e_is_full:
  assumes inv: "ticket_inv cs ask m k" and "signalled k"
  shows "length (made (m 3)) = 3"
proof -
  note l = ledgers [OF inv]
  have "length (made (m 3)) + length (hand (m 3)) = length (took (m 3))"
    using arg_cong [OF l(9) [of 3], where f = length] l(4) by simp
  with assms(2) inv l(5) [of 3] l(6) [of 3] show ?thesis by (auto simp: ticket_inv_def)
qed

text \<open>A burst of clients for server c that reaches the end of the cascade.\<close>

lemma burst:
  assumes inv: "ticket_inv cs ask m k" and one: "\<forall>x \<in> set cs. ask x = 1" and "signalled k"
  shows "\<exists>rest. cs = made (m 1) @ made (m 2) @ made (m 3) @ rest \<and> rest \<noteq> []" "\<forall>i \<in> {1, 2, 3}. length (made (m i)) = i"
proof -
  note l = ledgers [OF inv]
  have gave0: "\<forall>x \<in> set (map snd (gave (m 0))). ask x = 1" using l(8) one by (metis UnCI set_append)
  then have none: "filter (\<lambda>x. ask x = 2) (map snd (gave (m 0))) = []" "filter (\<lambda>x. ask x = 3) (map snd (gave (m 0))) = []"
    and all: "filter (\<lambda>x. ask x = 1) (map snd (gave (m 0))) = map snd (gave (m 0))"
    by (auto simp del: filter_map simp: filter_empty_conv filter_id_conv)
  have t3: "map snd (took (m 3)) = on 5 (took (m 3))" and t2: "map snd (took (m 2)) = on 6 (took (m 2))"
    using on_two(2) [OF l(1)] on_two(2) [of _ 5 6, OF l(2)] l(11,12) unfolding none by auto
  have four: "4 \<le> length (map snd (took (m 3)))" using inv assms(3) by (simp add: ticket_inv_def)
  have "map snd (gave (m 2)) = map snd (took (m 3)) @ chan k SE" using l(14) by (simp only: t3)
  then have chain2: "map snd (gave (m 2)) = made (m 3) @ hand (m 3) @ chan k SE"
    by (simp only: l(9) [symmetric] l(4) list.map append_Nil append_assoc)
  have "map snd (gave (m 1)) = map snd (took (m 2)) @ chan k CS" using l(13) by (simp only: t2)
  then have chain1: "map snd (gave (m 1)) = made (m 2) @ map snd (gave (m 2)) @ hand (m 2) @ chan k CS"
    by (simp only: l(9) [symmetric] append_assoc)
  have "map snd (gave (m 0)) = map snd (took (m 1)) @ chan k TC" using l(10) by (simp only: all)
  then have chain0: "map snd (gave (m 0)) = made (m 1) @ map snd (gave (m 1)) @ hand (m 1) @ chan k TC"
    by (simp only: l(9) [symmetric] append_assoc)
  have "length (made (m 3)) + length (hand (m 3)) = length (map snd (took (m 3)))"
    using arg_cong [OF l(9) [of 3], where f = length] l(4) by simp
  with four l(5) [of 3] l(6) [of 3] have made3: "length (made (m 3)) = 3" "hand (m 3) \<noteq> []" by auto
  from made3 chain2 have "gave (m 2) \<noteq> []" by auto
  with l(7) [of 2] have made2: "length (made (m 2)) = 2" by blast
  from made2 chain1 have "gave (m 1) \<noteq> []" by auto
  with l(7) [of 1] made2 made3 show "\<forall>i \<in> {1, 2, 3}. length (made (m i)) = i" by auto
  from l(8) chain0 chain1 chain2 made3(2) show "\<exists>rest. cs = made (m 1) @ made (m 2) @ made (m 3) @ rest \<and> rest \<noteq> []" by auto
qed


text \<open>A schedule: the counter passes a client to server c, which makes a thread for it.\<close>

definition one_ticket :: "turn list" where
  "one_ticket = [Run 0, Run 0, Run 0, Run 0, Run 1, Run 1, Run 1]"

lemma one_ticket:
  "\<exists>s. ticket_run one_ticket (tickets_start 1 (zeros 30) 100 [9] (\<lambda>_. 1) []) = Some s \<and>
    served 1 (happened s) = [9] \<and> arriving (kern s) = []"
proof -
  have got: "got 30 (gives (lit (dec 1))) = lit (dec 1)"
    by (rule got_gives) (simp add: dec_def length_lit dec_nat.simps)
  have one: "atoi (overwrite (zeros 30) (lit (dec 1))) = 1"
    by (simp add: overwrite_def atoi_dec)
  have len: "length (lit (dec 1)) \<le> 30" by (simp add: dec_def length_lit dec_nat.simps)
  show ?thesis
    by (simp add: one_ticket_def ticket_run_def tickets_start_def ticket_procs length_zeros run_one_def
      tc_turn_def c_turn_def must_def recv_into_def network_answers_def got one len
      send_file_descriptor_def recv_file_descriptor_def out_link_def in_link_def served_def history_def)
qed


end
