(* ===== verification/CN_Shared.thy ===== *)
theory CN_Shared imports CN_Pairs CN_System begin

text \<open>
  The first two programs of unixsockets/printserver as one system: a process and the child it forks
  read from a file that the parent has opened and passed to the child, on a kernel in which a
  descriptor that is passed on refers to the same open file, with one position. Whatever the order
  in which they run, each byte is read once.
\<close>

section \<open>The kernel\<close>

text \<open>
  The file and the position of its one open file description; the descriptors, by process, that
  refer to it; the numbers that will be typed at the terminal that both processes read; the state
  of the socket: whether the parent listens, whether the child is connected, and how many messages
  with the descriptor are under way; and what each read call of a process brought.
\<close>

record disk =
  contents :: string
  position :: nat
  refers :: "(nat \<times> int) set"
  typing :: "int list"
  listening :: bool
  connected :: bool
  under_way :: nat
  reads :: "(nat \<times> string) list"

text \<open>
  Process 0 is the parent, process 1 the child. A file gets the descriptor 3 and a socket the next
  one. A connection is refused until the parent listens; a read call takes what is asked for or what is
  left, and fails for any other descriptor.
\<close>

definition disk_answers :: "disk answering" where
  "disk_answers i c k = (case c of
     Open f m \<Rightarrow> Some (rets 3, k\<lparr>refers := insert (i, 3) (refers k)\<rparr>)
   | Socket x y z \<Rightarrow> Some (rets (if i = 0 then 4 else 3), k)
   | Listen fd n \<Rightarrow> Some (rets 0, k\<lparr>listening := True\<rparr>)
   | Connect fd x \<Rightarrow> (if listening k then Some (rets 0, k\<lparr>connected := True\<rparr>) else Some (rets (- 1), k))
   | Accept fd \<Rightarrow> (if connected k then Some (rets 5, k) else None)
   | Sendmsg fd d x \<Rightarrow> (if (i, x) \<in> refers k then Some (rets 1, k\<lparr>under_way := Suc (under_way k)\<rparr>)
       else Some (rets (- 1), k))
   | Recvmsg fd \<Rightarrow> (if \<not> connected k then Some (rets (- 1), k)
       else if under_way k = 0 then None
       else Some (passed 4, k\<lparr>under_way := under_way k - 1, refers := insert (i, 4) (refers k)\<rparr>))
   | Scanf_int \<Rightarrow> (case typing k of [] \<Rightarrow> None | n # ns \<Rightarrow> Some (typed n, k\<lparr>typing := ns\<rparr>))
   | Read fd n \<Rightarrow> (if (i, fd) \<in> refers k then
         (let d = take (nat n) (drop (position k) (contents k)) in
          Some (gives d, k\<lparr>position := position k + length d, reads := reads k @ [(i, d)]\<rparr>))
       else Some (rets (- 1), k\<lparr>reads := reads k @ [(i, [])]\<rparr>))
   | _ \<Rightarrow> Some (rets 0, k))"

text \<open>The processes as the fork of share_main leaves them.\<close>

definition share_start :: "nat \<Rightarrow> int \<Rightarrow> string \<Rightarrow> string \<Rightarrow> int list \<Rightarrow> disk system" where
  "share_start n nbytes buffer whole numbers = \<lparr>procs = [share_parent n nbytes buffer, share_child n nbytes buffer],
     kern = \<lparr>contents = whole, position = 0, refers = {}, typing = numbers, listening = False, connected = False,
       under_way = 0, reads = []\<rparr>, happened = []\<rparr>"

definition share_run :: "turn list \<Rightarrow> disk system \<Rightarrow> disk system option" where
  "share_run ms s = schedule disk_answers (\<lambda>_ _. None) (\<lambda>_. Exit 0) ms s"

section \<open>What each process shows\<close>

definition name_of :: "nat \<Rightarrow> string" where
  "name_of i = (if i = 0 then ''parent'' else ''child'')"

text \<open>
  The lines for a sequence of reads into one buffer: each shows the buffer up to the first NUL, so that
  what a longer read has left stays behind a shorter one.
\<close>

primrec show_lines :: "string \<Rightarrow> string \<Rightarrow> string list \<Rightarrow> string list" where
  "show_lines name b [] = []"
| "show_lines name b (d # ds) = line (name @ '' :'' @ c_str (overwrite b d)) # show_lines name (overwrite b d) ds"

definition is_line :: "string \<Rightarrow> string \<Rightarrow> bool" where
  "is_line name x = (take (length name + 2) x = name @ '' :'')"

text \<open>The lines with its name that the process i has printed.\<close>

definition shown :: "nat \<Rightarrow> (nat \<times> obs) list \<Rightarrow> string list" where
  "shown i t = filter (is_line (name_of i)) (printed (history i t))"

lemma show_lines_append [simp]:
  "show_lines name b (ds @ [d]) = show_lines name b ds @
    [line (name @ '' :'' @ c_str (overwrite (foldl overwrite b ds) d))]"
  by (induction ds arbitrary: b) simp_all

lemma is_line [simp]: "is_line name (line (name @ '' :'' @ s))"
  by (simp add: is_line_def)

lemma other_lines [simp]:
  "\<not> is_line (name_of i) (line ''parent process'')" "\<not> is_line (name_of i) (line ''child process'')"
  "\<not> is_line (name_of i) (line (''fd parent:'' @ s))" "\<not> is_line (name_of i) (line (''fd is child: '' @ s))"
  "\<not> is_line (name_of i) (line ''socket error'')" "\<not> is_line (name_of i) (line ''bind error'')"
  "\<not> is_line (name_of i) (line ''listen error'')" "\<not> is_line (name_of i) (line ''accept error'')"
  "\<not> is_line (name_of i) (line ''connect error'')"
  by (simp_all add: is_line_def name_of_def)

text \<open>
  The ledger of a process: its buffer, what its read calls brought, its lines, and whether the last read
  is still to be shown. It guarantees that it shows each read before the next one.
\<close>

record reader =
  cur :: string
  due :: bool
  chunks :: "string list"
  lines :: "string list"

definition read_note :: "nat \<Rightarrow> reader \<Rightarrow> obs \<Rightarrow> reader" where
  "read_note i m x = (case x of
     Printed s \<Rightarrow> if is_line (name_of i) s then m\<lparr>lines := lines m @ [s], due := False\<rparr> else m
   | Did c a \<Rightarrow> (case c of
       Read fd n \<Rightarrow> m\<lparr>cur := overwrite (cur m) (got n a), due := True, chunks := chunks m @ [got n a]\<rparr>
     | _ \<Rightarrow> m))"

definition reader_allows :: "nat \<Rightarrow> reader \<Rightarrow> action \<Rightarrow> bool" where
  "reader_allows i m x = (case x of
     Prints s \<Rightarrow> if due m then s = line (name_of i @ '' :'' @ c_str (cur m)) else \<not> is_line (name_of i) s
   | Calls c \<Rightarrow> i < 2 \<and> (case c of Read fd n \<Rightarrow> \<not> due m | _ \<Rightarrow> True))"

definition reader_contract :: "nat \<Rightarrow> reader contract" where
  "reader_contract i = \<lparr>allows = reader_allows i, relies = (\<lambda>_ _ _. True), records = read_note i\<rparr>"

lemma reader_contract [simp]:
  "allows (reader_contract i) = reader_allows i" "relies (reader_contract i) m c a"
  "records (reader_contract i) = read_note i"
  by (simp_all add: reader_contract_def)

definition fresh :: "string \<Rightarrow> reader" where
  "fresh b = \<lparr>cur = b, due = False, chunks = [], lines = []\<rparr>"

text \<open>Calls other than reads, and lines of another kind, leave the ledger alone.\<close>

definition no_read :: "call \<Rightarrow> bool" where
  "no_read c = (case c of Read fd n \<Rightarrow> False | _ \<Rightarrow> True)"

lemma no_read_note: "no_read c \<Longrightarrow> read_note i m (Did c a) = m"
  by (simp add: read_note_def no_read_def split: call.splits)

lemma no_read_simps [simp]:
  "no_read Scanf_int" "no_read (Sleep n)" "no_read (Socket x y z)" "no_read (Connect fd x')" "no_read (Recvmsg fd)"
  "no_read (Open f m)" "no_read (Unlink f)" "no_read (Bind fd x')" "no_read (Listen fd n)" "no_read (Accept fd)"
  "no_read (Sendmsg fd d n)"
  by (simp_all add: no_read_def)

lemma keeps_call:
  "no_read c \<Longrightarrow> i < 2 \<Longrightarrow> (\<And>a. keeps (reader_contract i) m (k a)) \<Longrightarrow> keeps (reader_contract i) m (Call c k)"
  by (simp add: reader_allows_def no_read_note) (simp add: no_read_def split: call.splits)

lemma keeps_out:
  "\<not> due m \<Longrightarrow> \<not> is_line (name_of i) s \<Longrightarrow> keeps (reader_contract i) m p \<Longrightarrow> keeps (reader_contract i) m (Out s p)"
  by (simp add: reader_allows_def read_note_def)

lemma share_turns_keep:
  assumes "i < 2" and "\<not> due m" and "cur m = b"
  shows "keeps (reader_contract i) m (forever n (share_turn (name_of i) fd) (nbytes, b))"
proof (rule keeps_forever [where R = "\<lambda>s m. \<not> due m \<and> cur m = snd s"])
  fix s :: "int \<times> string" and m :: reader and k
  assume m: "\<not> due m \<and> cur m = snd s"
    and k: "\<And>(s' :: int \<times> string) (m' :: reader). \<not> due m' \<and> cur m' = snd s' \<Longrightarrow> keeps (reader_contract i) m' (k s')"
  have "keeps (reader_contract i) m (read_into fd (snd s) q (\<lambda>buffer _.
      Out (line (name_of i @ '' :'' @ c_str buffer)) (Call (Sleep 3) (\<lambda>_. k (j, buffer)))))" for q j
  proof -
    have show_it: "keeps (reader_contract i) m' (Out (line (name_of i @ '' :'' @ c_str (cur m'))) (Call (Sleep 3) (\<lambda>_. k (j, cur m'))))"
      if "due m'" for m'
      using that assms(1) by (auto simp: reader_allows_def read_note_def is_line_def intro!: k)
    show ?thesis unfolding read_into_def keeps.simps(7)
    proof (intro conjI allI impI)
      fix a
      have "due (read_note i m (Did (Read fd q) a))" "cur (read_note i m (Did (Read fd q) a)) = overwrite (snd s) (got q a)"
        using m by (simp_all add: read_note_def)
      with show_it [of "read_note i m (Did (Read fd q) a)"]
      show "keeps (reader_contract i) (records (reader_contract i) m (Did (Read fd q) a))
          (store q (snd s) a (\<lambda>b. Out (line (name_of i @ '' :'' @ c_str b)) (Call (Sleep 3) (\<lambda>_. k (j, b)))))"
        by (simp add: store_def Let_def del: keeps.simps(5))
    qed (use m assms(1) in \<open>simp add: reader_allows_def\<close>)
  qed
  then show "keeps (reader_contract i) m (share_turn (name_of i) fd s k)"
    unfolding share_turn_def scan_int_def using assms(1) by (auto simp: split_beta intro!: keeps_call simp del: keeps.simps)
qed (use assms in simp)

lemma keeps_tried:
  assumes "no_read c" "i < 2" "\<not> due m" "\<not> is_line (name_of i) (line s)" "\<And>r. keeps (reader_contract i) m (k r)"
  shows "keeps (reader_contract i) m (tried c s k)"
  unfolding tried_def error_print_def using assms by (auto intro!: keeps_call keeps_out simp del: keeps.simps)

lemma keeps_fd_passing:
  assumes "i < 2" "\<And>r. keeps (reader_contract i) m (k r)"
  shows "keeps (reader_contract i) m (send_file_descriptor fd x k)"
    "keeps (reader_contract i) m (recv_file_descriptor fd k)"
  unfolding send_file_descriptor_def recv_file_descriptor_def
  using assms by (auto intro!: keeps_call split: list.split simp del: keeps.simps)

lemma programs_keep:
  "keeps (reader_contract 0) (fresh b) (share_parent n nbytes b)"
  "keeps (reader_contract 1) (fresh b) (share_child n nbytes b)"
proof -
  have parent: "keeps (reader_contract 0) (fresh b) (forever n (share_turn ''parent'' fd) (nbytes, b))" for fd
    using share_turns_keep [of 0 "fresh b" b n fd nbytes] by (simp add: name_of_def fresh_def)
  have child: "keeps (reader_contract 1) (fresh b) (forever n (share_turn ''child'' fd) (nbytes, b))" for fd
    using share_turns_keep [of 1 "fresh b" b n fd nbytes] by (simp add: name_of_def fresh_def)
  have new: "\<not> due (fresh b)" by (simp add: fresh_def)
  show "keeps (reader_contract 0) (fresh b) (share_parent n nbytes b)"
    unfolding share_parent_def Let_def
    by (intro keeps_out keeps_call keeps_tried keeps_fd_passing parent new other_lines no_read_simps) simp_all
  show "keeps (reader_contract 1) (fresh b) (share_child n nbytes b)"
    unfolding share_child_def Let_def
    by (intro keeps_out keeps_call keeps_tried keeps_fd_passing child new other_lines no_read_simps) simp_all
qed

section \<open>The composition\<close>

text \<open>A ledger is in order when the lines are those of the reads, but for the one that is due.\<close>

definition in_order :: "nat \<Rightarrow> string \<Rightarrow> reader \<Rightarrow> bool" where
  "in_order i b m = (cur m = foldl overwrite b (chunks m) \<and>
     lines m @ (if due m then [line (name_of i @ '' :'' @ c_str (cur m))] else []) =
       show_lines (name_of i) b (chunks m))"

definition shared_inv :: "string \<Rightarrow> string \<Rightarrow> (nat \<Rightarrow> reader) \<Rightarrow> disk \<Rightarrow> bool" where
  "shared_inv whole b m k = (contents k = whole \<and> position k \<le> length whole \<and>
     concat (map snd (reads k)) = take (position k) whole \<and> fst ` set (reads k) \<subseteq> {0, 1} \<and>
     (\<forall>i. in_order i b (m i) \<and> chunks (m i) = map snd (filter (\<lambda>e. fst e = i) (reads k))))"

lemma got_gives_take: "got n (gives d) = take (nat n) d"
  by (simp add: got_def gives_def)

lemma no_read_disk:
  assumes "no_read c" and "disk_answers i c k = Some (a, k')"
  shows "contents k' = contents k" "position k' = position k" "reads k' = reads k"
  using assms by (cases c; simp add: disk_answers_def no_read_def split: list.splits if_splits; auto)+

lemma shared_call:
  assumes inv: "shared_inv whole b m k" and ok: "reader_allows i (m i) (Calls c)"
    and a: "disk_answers i c k = Some (a, k')"
  shows "shared_inv whole b (m(i := read_note i (m i) (Did c a))) k'"
proof (cases "no_read c")
  case True
  with inv no_read_disk [OF True a] show ?thesis by (simp add: shared_inv_def no_read_note)
next
  case False
  then obtain fd n where c: "c = Read fd n" by (auto simp: no_read_def split: call.splits)
  define d where "d = (if (i, fd) \<in> refers k then take (nat n) (drop (position k) (contents k)) else [])"
  from a have k': "k' = k\<lparr>position := position k + length d, reads := reads k @ [(i, d)]\<rparr>" and "got n a = d"
    by (auto simp: c d_def disk_answers_def Let_def got_gives_take split: if_splits)
  from inv have whole: "contents k = whole" "position k \<le> length whole"
    "concat (map snd (reads k)) = take (position k) whole" by (simp_all add: shared_inv_def)
  have "take (length (take q xs)) xs = take q xs" for q and xs :: string by (simp add: min_def)
  then have "d = take (length d) (drop (position k) whole)" by (simp only: d_def whole(1) split: if_split) simp
  then have "take (position k + length d) whole = take (position k) whole @ d" by (metis take_add)
  moreover have "position k + length d \<le> length whole" using whole by (auto simp: d_def)
  moreover have "i < 2" "\<not> due (m i)" using ok by (simp_all add: reader_allows_def c)
  moreover have "in_order i b (read_note i (m i) (Did c a))"
  proof -
    have "in_order i b (m i)" using inv by (simp add: shared_inv_def)
    with \<open>\<not> due (m i)\<close> \<open>got n a = d\<close> show ?thesis by (simp add: in_order_def c read_note_def)
  qed
  ultimately show ?thesis
    using inv whole \<open>got n a = d\<close> by (auto simp: shared_inv_def k' c read_note_def)
qed

lemma shared_print:
  assumes "shared_inv whole b m k" and "reader_allows i (m i) (Prints x)"
  shows "shared_inv whole b (m(i := read_note i (m i) (Printed x))) k"
proof -
  have "in_order i b (m i)" using assms(1) by (simp add: shared_inv_def)
  then have "in_order i b (read_note i (m i) (Printed x))" "chunks (read_note i (m i) (Printed x)) = chunks (m i)"
    using assms(2) by (cases "due (m i)"; simp add: in_order_def read_note_def reader_allows_def is_line_def)+
  with assms(1) show ?thesis by (simp add: shared_inv_def)
qed

interpretation shared: composition disk_answers "\<lambda>_ _. None" "\<lambda>_. Exit 0" reader_contract "shared_inv whole b" for whole b
  by unfold_locales (simp_all add: shared_call shared_print)

section \<open>What the two processes read\<close>

lemma lines_after: "lines (after (reader_contract i) m t) = lines m @ filter (is_line (name_of i)) (printed t)"
proof (induction t arbitrary: m)
  case (Cons x t)
  show ?case
  proof (cases x)
    case (Did c a)
    have "lines (read_note i m (Did c a)) = lines m" by (simp add: read_note_def split: call.split)
    with Cons Did show ?thesis by simp
  qed (simp add: Cons read_note_def)
qed simp


text \<open>A schedule: the child reads two bytes and the parent, after it, three.\<close>

definition two_readers :: "turn list" where
  "two_readers = map Run [0, 0, 0, 0, 0, 0, 0, 1, 1, 1, 1, 0, 0, 1, 1, 1, 1, 1, 0, 0, 0]"

lemma two_readers:
  "\<exists>s. share_run two_readers (share_start 1 0 (zeros 256) ''abcdef'' [2, 3]) = Some s \<and>
    reads (kern s) = [(1, ''ab''), (0, ''cde'')] \<and> position (kern s) = 5"
  by (simp add: two_readers_def share_run_def share_start_def run_one_def disk_answers_def share_parent_def share_child_def
    tried_def send_file_descriptor_def recv_file_descriptor_def passed_def share_turn_def read_into_def length_zeros
    got_gives_take scan_int_def typed_def advance_def Let_def)


end
