(* ===== verification/CN_Burst.thy ===== *)
theory CN_Burst imports CN_Counter begin

text \<open>
  That the ticket service does close: for seven clients of server c there is an order of the moves of
  its four programs in which the seventh makes server e signal the counter.
\<close>

section \<open>One turn of each program\<close>

lemma ticket_run_append:
  "ticket_run ms s = Some s' \<Longrightarrow> ticket_run ns s' = Some s'' \<Longrightarrow> ticket_run (ms @ ns) s = Some s''"
  by (simp add: ticket_run_def schedule_append)

lemma ticket_run_steps:
  "ticket_run [] s = Some s"
  "ticket_run (Run i # ms) s = (if i < length (procs s) then Option.bind (run_one network_answers i s) (ticket_run ms) else None)"
  by (simp_all add: ticket_run_def [abs_def])

text \<open>The system with its parts: the fuels and the threads of the programs, clients, sockets, signal.\<close>

definition service :: "nat \<times> nat \<times> nat \<times> nat \<Rightarrow> string \<Rightarrow> int \<times> int \<times> int \<Rightarrow> int list \<Rightarrow> (link \<Rightarrow> int list) \<Rightarrow>
    int \<Rightarrow> string \<Rightarrow> (nat \<times> obs) list \<Rightarrow> network system" where
  "service = (\<lambda>(n0, n1, n2, n3) b (k1, k2, k3) cs ch pid rest t. \<lparr>procs = [forever n0 (tc_turn 6 3 4 5) b,
      forever n1 (c_turn 5 3) k1, forever n2 (s_turn 7 6 4) k2, forever n3 (e_turn pid 6 5) k3],
    kern = \<lparr>arriving = cs, asks = \<lambda>_. 1, behind = rest, chan = ch, counter = pid, signalled = False\<rparr>,
    happened = t\<rparr>)"

definition reaches :: "network system \<Rightarrow> network system \<Rightarrow> bool" where
  "reaches s s' = (\<exists>ms. ticket_run ms s = Some s')"

lemma reaches_trans [trans]: "reaches s s' \<Longrightarrow> reaches s' s'' \<Longrightarrow> reaches s s''"
  unfolding reaches_def using ticket_run_append by blast

lemmas turn_simps = ticket_run_steps service_def run_one_def network_answers_def in_link_def out_link_def
  send_file_descriptor_def recv_file_descriptor_def must_def advance_def

lemma tc_passes:
  assumes "0 \<le> x" and "length b = 30"
  shows "\<exists>b' t'. length b' = 30 \<and> reaches (service (Suc n0, n1, n2, n3) b ks (x # cs) (\<lambda>_. []) pid rest t)
    (service (n0, n1, n2, n3) b' ks cs ((\<lambda>_. [])(TC := [x])) pid rest t')"
proof -
  let ?d = "take 30 (lit (dec 1) @ rest)"
  have "length (lit (dec 1)) \<le> 30" by (simp add: dec_def length_lit dec_nat.simps)
  then have d: "?d = lit (dec 1) @ take (30 - length (lit (dec 1))) rest" "length ?d \<le> 30" by simp_all
  then have "got 30 (gives ?d) = ?d" by (intro got_gives) simp
  moreover have "atoi (overwrite b ?d) = 1" unfolding d by (simp add: overwrite_def atoi_dec)
  moreover have "length (overwrite b ?d) = 30" using assms(2) d(2) by (simp add: length_overwrite)
  ultimately show ?thesis
    using assms unfolding reaches_def
    by (cases ks, intro exI [of _ "overwrite b ?d"] exI conjI exI [of _ "[Run 0, Run 0, Run 0, Run 0]"])
      (simp_all add: turn_simps tc_turn_def recv_into_def del: take_append)
qed

lemma c_admits:
  "\<exists>t'. reaches (service (n0, Suc n1, n2, n3) b (0, k2, k3) cs ((\<lambda>_. [])(TC := [x])) pid rest t)
    (service (n0, n1, n2, n3) b (1, k2, k3) cs (\<lambda>_. []) pid rest t')"
  unfolding reaches_def
  by (intro exI exI [of _ "[Run 1, Run 1, Run 1]"]) (simp add: turn_simps c_turn_def fun_upd_idem)

lemma c_passes:
  "\<exists>t'. reaches (service (n0, Suc n1, n2, n3) b (1, k2, k3) cs ((\<lambda>_. [])(TC := [x])) pid rest t)
    (service (n0, n1, n2, n3) b (1, k2, k3) cs ((\<lambda>_. [])(CS := [x])) pid rest t')"
  unfolding reaches_def
  by (intro exI exI [of _ "[Run 1, Run 1, Run 1, Run 1]"]) (simp add: turn_simps c_turn_def fun_upd_idem)

lemma s_admits:
  assumes "k2 < 2"
  shows "\<exists>t'. reaches (service (n0, n1, Suc n2, n3) b (k1, k2, k3) cs ((\<lambda>_. [])(CS := [x])) pid rest t)
    (service (n0, n1, n2, n3) b (k1, k2 + 1, k3) cs (\<lambda>_. []) pid rest t')"
  using assms unfolding reaches_def
  by (intro exI exI [of _ "[Run 2, Run 2, Run 2, Run 2, Run 2]"])
    (simp add: turn_simps s_turn_def s_take_def readiness_def POLLRDNORM_def polled_def revent_def fun_upd_idem)

lemma s_passes:
  "\<exists>t'. reaches (service (n0, n1, Suc n2, n3) b (k1, 2, k3) cs ((\<lambda>_. [])(CS := [x])) pid rest t)
    (service (n0, n1, n2, n3) b (k1, 2, k3) cs ((\<lambda>_. [])(SE := [x])) pid rest t')"
  unfolding reaches_def
  by (intro exI exI [of _ "replicate 7 (Run 2)"])
    (simp add: numeral_eq_Suc turn_simps s_turn_def s_take_def readiness_def POLLRDNORM_def polled_def revent_def fun_upd_idem)

lemma e_admits:
  assumes "k3 < 3"
  shows "\<exists>t'. reaches (service (n0, n1, n2, Suc n3) b (k1, k2, k3) cs ((\<lambda>_. [])(SE := [x])) pid rest t)
    (service (n0, n1, n2, n3) b (k1, k2, k3 + 1) cs (\<lambda>_. []) pid rest t')"
  using assms unfolding reaches_def
  by (intro exI exI [of _ "[Run 3, Run 3, Run 3, Run 3, Run 3]"])
    (simp add: turn_simps e_turn_def e_take_def readiness_def POLLRDNORM_def polled_def revent_def fun_upd_idem)

text \<open>The fourth connection for e: it signals, and the counter, wherever it is, runs its handler and exits.\<close>

lemma e_closes:
  "\<exists>s. reaches (service (n0, n1, n2, Suc n3) b (k1, k2, 3) cs ((\<lambda>_. [])(SE := [x])) pid rest t) s \<and>
    signalled (kern s) \<and> procs s ! 0 = Exit 0 \<and> procs s ! 3 = Exit 0 \<and>
    (0, Printed (line ''Tickets are full the server is about to shutdown'')) \<in> set (happened s)"
proof -
  let ?ms = "[Run 3, Run 3, Run 3, Run 3, Run 3, Interrupt 0, Run 0, Run 0]"
  have "\<exists>s. ticket_run ?ms (service (n0, n1, n2, Suc n3) b (k1, k2, 3) cs ((\<lambda>_. [])(SE := [x])) pid rest t) = Some s \<and>
      signalled (kern s) \<and> procs s ! 0 = Exit 0 \<and> procs s ! 3 = Exit 0 \<and>
      (0, Printed (line ''Tickets are full the server is about to shutdown'')) \<in> set (happened s)"
    unfolding ticket_run_def
    by (simp add: turn_simps e_turn_def e_take_def readiness_def POLLRDNORM_def polled_def revent_def
      network_signals_def handler_func_def SIGUSR1_def)
  then show ?thesis unfolding reaches_def by blast
qed

section \<open>Seven clients\<close>

text \<open>The service comes to rest, with no connection under way, with these fuels, threads and clients.\<close>

definition comes :: "network system \<Rightarrow> nat \<times> nat \<times> nat \<times> nat \<Rightarrow> int \<times> int \<times> int \<Rightarrow> int list \<Rightarrow> int \<Rightarrow> string \<Rightarrow> bool" where
  "comes s0 ns ks cs pid rest = (\<exists>b t. length b = 30 \<and> reaches s0 (service ns b ks cs (\<lambda>_. []) pid rest t))"

lemma comes_passed:
  assumes "comes s0 (Suc n0, n1, n2, n3) ks (x # cs) pid rest" and "0 \<le> x"
  obtains b t where "length b = 30"
    and "reaches s0 (service (n0, n1, n2, n3) b ks cs ((\<lambda>_. [])(TC := [x])) pid rest t)"
proof -
  obtain b t where b: "length b = 30"
    and r: "reaches s0 (service (Suc n0, n1, n2, n3) b ks (x # cs) (\<lambda>_. []) pid rest t)"
    using assms(1) unfolding comes_def by blast
  from tc_passes [OF assms(2) b, of n0 n1 n2 n3 ks cs pid rest t] obtain b' t' where "length b' = 30"
    and "reaches (service (Suc n0, n1, n2, n3) b ks (x # cs) (\<lambda>_. []) pid rest t)
      (service (n0, n1, n2, n3) b' ks cs ((\<lambda>_. [])(TC := [x])) pid rest t')"
    by (elim exE conjE)
  from that [OF this(1) reaches_trans [OF r this(2)]] show ?thesis .
qed

lemma comesI:
  assumes "length b = 30" and "reaches s0 s" and "\<exists>t'. reaches s (service ns b ks cs (\<lambda>_. []) pid rest t')"
  shows "comes s0 ns ks cs pid rest"
  using assms reaches_trans [OF assms(2)] unfolding comes_def by blast

lemma first_client:
  assumes "comes s0 (Suc n0, Suc n1, n2, n3) (0, k2, k3) (x # cs) pid rest" and "0 \<le> x"
  shows "comes s0 (n0, n1, n2, n3) (1, k2, k3) cs pid rest"
  using assms by (rule comes_passed) (rule comesI [OF _ _ c_admits])

lemma client_for_s:
  assumes "comes s0 (Suc n0, Suc n1, Suc n2, n3) (1, k2, k3) (x # cs) pid rest" and "0 \<le> x" and "k2 < 2"
  shows "comes s0 (n0, n1, n2, n3) (1, k2 + 1, k3) cs pid rest"
proof (rule comes_passed [OF assms(1,2)])
  fix b t
  let ?s = "service (n0, n1, Suc n2, n3) b (1, k2, k3) cs"
  assume b: "length b = 30" and r: "reaches s0 (service (n0, Suc n1, Suc n2, n3) b (1, k2, k3) cs ((\<lambda>_. [])(TC := [x])) pid rest t)"
  obtain t' where "reaches s0 (?s ((\<lambda>_. [])(CS := [x])) pid rest t')" using c_passes reaches_trans [OF r] by blast
  with b show ?thesis by (rule comesI) (rule s_admits [OF assms(3)])
qed

text \<open>What c and s pass on is with server e.\<close>

lemma client_at_e:
  assumes "comes s0 (Suc n0, Suc n1, Suc n2, n3) (1, 2, k3) (x # cs) pid rest" and "0 \<le> x"
  obtains b t where "length b = 30"
    and "reaches s0 (service (n0, n1, n2, n3) b (1, 2, k3) cs ((\<lambda>_. [])(SE := [x])) pid rest t)"
proof (rule comes_passed [OF assms])
  fix b t
  assume b: "length b = 30" and r: "reaches s0 (service (n0, Suc n1, Suc n2, n3) b (1, 2, k3) cs ((\<lambda>_. [])(TC := [x])) pid rest t)"
  obtain t' where r: "reaches s0 (service (n0, n1, Suc n2, n3) b (1, 2, k3) cs ((\<lambda>_. [])(CS := [x])) pid rest t')"
    using c_passes reaches_trans [OF r] by blast
  obtain t' where "reaches s0 (service (n0, n1, n2, n3) b (1, 2, k3) cs ((\<lambda>_. [])(SE := [x])) pid rest t')"
    using s_passes reaches_trans [OF r] by blast
  with b show ?thesis by (rule that)
qed

lemma client_for_e:
  assumes "comes s0 (Suc n0, Suc n1, Suc n2, Suc n3) (1, 2, k3) (x # cs) pid rest" and "0 \<le> x" and "k3 < 3"
  shows "comes s0 (n0, n1, n2, n3) (1, 2, k3 + 1) cs pid rest"
  by (rule client_at_e [OF assms(1,2)], rule comesI) (use e_admits [OF assms(3)] in \<open>assumption | blast\<close>)+

definition closed :: "network system \<Rightarrow> bool" where
  "closed s = (signalled (kern s) \<and> procs s ! 0 = Exit 0 \<and> procs s ! 3 = Exit 0 \<and>
    (0, Printed (line ''Tickets are full the server is about to shutdown'')) \<in> set (happened s))"

lemma last_client:
  assumes "comes s0 (Suc n0, Suc n1, Suc n2, Suc n3) (1, 2, 3) (x # cs) pid rest" and "0 \<le> x"
  shows "\<exists>s. reaches s0 s \<and> closed s"
  unfolding closed_def by (rule client_at_e [OF assms]) (use e_closes reaches_trans in blast)

lemma seven_clients:
  assumes "comes s0 (n0 + 7, n1 + 7, n2 + 6, n3 + 4) (0, 0, 0) (x1 # x2 # x3 # x4 # x5 # x6 # x7 # cs) pid rest"
    and "\<forall>x \<in> {x1, x2, x3, x4, x5, x6, x7}. 0 \<le> x"
  shows "\<exists>s. reaches s0 s \<and> closed s"
proof -
  have "comes s0 (n0 + 6, n1 + 6, n2 + 6, n3 + 4) (1, 0, 0) (x2 # x3 # x4 # x5 # x6 # x7 # cs) pid rest"
    by (rule first_client) (use assms in \<open>auto simp: numeral_eq_Suc\<close>)
  then have "comes s0 (n0 + 5, n1 + 5, n2 + 5, n3 + 4) (1, 0 + 1, 0) (x3 # x4 # x5 # x6 # x7 # cs) pid rest"
    by (intro client_for_s [where x = x2]) (use assms in \<open>auto simp: numeral_eq_Suc\<close>)
  then have "comes s0 (n0 + 4, n1 + 4, n2 + 4, n3 + 4) (1, 1 + 1, 0) (x4 # x5 # x6 # x7 # cs) pid rest"
    by (intro client_for_s [where x = x3]) (use assms in \<open>auto simp: numeral_eq_Suc\<close>)
  then have "comes s0 (n0 + 3, n1 + 3, n2 + 3, n3 + 3) (1, 2, 0 + 1) (x5 # x6 # x7 # cs) pid rest"
    by (intro client_for_e [where x = x4]) (use assms in \<open>auto simp: numeral_eq_Suc\<close>)
  then have "comes s0 (n0 + 2, n1 + 2, n2 + 2, n3 + 2) (1, 2, 1 + 1) (x6 # x7 # cs) pid rest"
    by (intro client_for_e [where x = x5]) (use assms in \<open>auto simp: numeral_eq_Suc\<close>)
  then have "comes s0 (n0 + 1, n1 + 1, n2 + 1, n3 + 1) (1, 2, 2 + 1) (x7 # cs) pid rest"
    by (intro client_for_e [where x = x6]) (use assms in \<open>auto simp: numeral_eq_Suc\<close>)
  then show ?thesis
    by (intro last_client [where x = x7]) (use assms in \<open>auto simp: numeral_eq_Suc\<close>)
qed

lemma comes_start:
  assumes "length b = 30"
  shows "comes (tickets_start n b pid cs (\<lambda>_. 1) rest) (n, n, n, n) (0, 0, 0) cs pid rest"
  using assms ticket_run_steps(1) unfolding comes_def reaches_def
  by (intro exI [of _ b] exI [of _ "[]"] conjI exI [of _ "[]"])
    (simp_all add: service_def tickets_start_def ticket_procs)

lemma seven_first:
  "7 \<le> length cs \<Longrightarrow> \<exists>x1 x2 x3 x4 x5 x6 x7 ds. cs = x1 # x2 # x3 # x4 # x5 # x6 # x7 # ds"
  by (simp add: numeral_eq_Suc Suc_le_length_iff) blast

text \<open>
  C8. The ticket service closes. When seven clients or more come for server c and none of them is
  refused by accept, there is an order of the moves of the four programs, within seven turns of each loop, at
  the end of which server e has sent its signal and exited, and the counter has run its handler:
  it has printed that the tickets are full and has exited with 0, whatever stands
  behind the numbers that the clients send.
\<close>

theorem tickets_run_out:
  assumes "7 \<le> n" and "length b = 30" and "7 \<le> length cs" and "\<forall>x \<in> set cs. 0 \<le> x"
  shows "\<exists>ms s. ticket_run ms (tickets_start n b pid cs (\<lambda>_. 1) rest) = Some s \<and>
    signalled (kern s) \<and> procs s ! 0 = Exit 0 \<and> procs s ! 3 = Exit 0 \<and>
    (0, Printed (line ''Tickets are full the server is about to shutdown'')) \<in> set (happened s)"
proof -
  obtain x1 x2 x3 x4 x5 x6 x7 ds where cs: "cs = x1 # x2 # x3 # x4 # x5 # x6 # x7 # ds"
    using seven_first [OF assms(3)] by blast
  have "n = (n - 7) + 7" "n = (n - 6) + 6" "n = (n - 4) + 4" using assms(1) by simp_all
  then have "comes (tickets_start n b pid cs (\<lambda>_. 1) rest) ((n - 7) + 7, (n - 7) + 7, (n - 6) + 6, (n - 4) + 4)
      (0, 0, 0) (x1 # x2 # x3 # x4 # x5 # x6 # x7 # ds) pid rest"
    using comes_start [OF assms(2), of n pid cs rest] unfolding cs by metis
  then have "\<exists>s. reaches (tickets_start n b pid cs (\<lambda>_. 1) rest) s \<and> closed s"
    by (rule seven_clients) (use assms(4) cs in simp)
  then show ?thesis unfolding reaches_def closed_def by blast
qed

theorem tickets_run_out_witness:
  "\<exists>ms s. ticket_run ms (tickets_start 7 (zeros 30) 100 [9, 10, 11, 12, 13, 14, 15] (\<lambda>_. 1) []) = Some s \<and>
    procs s ! 0 = Exit 0"
proof -
  have "\<forall>x \<in> set [9, 10, 11, 12, 13, 14, 15 :: int]. 0 \<le> x" by simp
  from tickets_run_out [OF order_refl length_zeros _ this, of 100 "[]"] show ?thesis by auto
qed

end
