(* ===== verification/Spec2Isabelle.thy ===== *)
theory Spec2Isabelle
  imports CN_Heap CN_Crc CN_Hamming CN_Checksum CN_Sniffer CN_Nfs CN_Studio CN_Cascade CN_Mss CN_Chat
    CN_Service CN_Pipes CN_Multi CN_Super CN_Ftp CN_Pairs CN_Rpc CN_Remote CN_Small CN_Backup CN_Threads CN_Time CN_Train CN_Safe
    CN_Counter CN_Shared CN_Burst
begin

text \<open>
  A verification library for the network programs of the repository: about two hundred small C
  programs that work alone, in pairs, or as systems of processes that exchange numbers,
  messages and file descriptors over sockets and named pipes.

  How programs are modelled. The prelude CN_Prelude has C byte strings (buffers as lists of
  characters, C strings up to the first NUL), sprintf("%d") and atoi, htons, and the locale
  value_buffer, the contract of two programs that exchange a value through a buffer;
  its interpretation dec_buf is decimal notation in the servers' buffers. CN_Prog has the
  programs themselves: a C program is a term of type prog, which makes a system call and goes
  on with a function of the kernel's answer, prints, exits, or is undefined (an access outside
  an array, an overrun buffer, overlapping operands). Every definition takes its continuation
  as its last argument, so that a function of the C program that returns is a function that
  applies it. A run (exec, trace, final_of) feeds a list of answers to a program; run lets a
  kernel with a state answer. An endless loop is forever n body, unrolled n times, where the
  program Cut marks the end of the unrolling. Programs are an instance of the class order with
  Cut at the bottom: forever_mono says that more unrolling only adds to a program, exec_approx
  that a run that ends before the unrolling does is a run of every longer unrolling, so that
  theorems about runs hold for the endless loop with any n that is large enough; where a
  theorem fixes n it is the number of turns that the answers given are for. CN_Monitor has
  safety: obeys and the locale monitor (what a richer monitor state permits), with the rules for
  loops, and the interpretations fds (only descriptors that the kernel gave), objects and
  stateless; always P p says that every call of every run satisfies P. CN_Sockets has what the
  socket programs share: checked calls, formatted and received buffers, poll and select,
  passing of descriptors with SCM_RIGHTS, and the lemmas on runs of loops.

  The components, one theory each.
  \<^item> CN_Heap, mid/heap.c: the binary heap in a global array, as a state record with Init, Insert
  and DeleteMin, and main. The locale min_queue states the contract of a priority queue; its
  interpretation pq gives it for the heap, and that main sorts. Insert is a partial function
  whose None is the loop that never ends (inserting INT_MIN).
  \<^item> CN_Crc, errcorrection/crc1.c and crc.c: both shift registers and both dialogues; division
  over the two-element field is the reference, and linearity of the remainder gives that a
  transmitted frame is accepted and a flipped bit is found; the passes of crc.c over characters
  are simulated by the register of crc1.c.
  \<^item> CN_Checksum, tcp_injection/TCP-Packet-Injection.c and rawsockets/basic/client.c and server.c:
  packets as bytes with the layout of the structs on a little-endian LP64 machine, and the
  Internet checksum in its two versions.
  \<^item> CN_Nfs, rpc/nfs/nfs_server.c and nfs_client.c: the nine remote procedures and the command
  loop; the theorem on writing and reading runs the procedures against a kernel with files.
  \<^item> CN_Studio, c137261@nitwstudios: script, director, studio and agency, sets and actors, and
  producer.
  \<^item> CN_Cascade, unixsockets/csemulti: the ticket counter and its three servers, shown to refine
  counters with capacities 1, 2 and 3.
  \<^item> CN_Mss, mid/mss: the dispatcher, shown to refine a table from numbers to ports, its services
  and its client.
  \<^item> CN_Chat, chatserver, logserver, selectservers/chatserver and select_servers/chatserver: the
  relays over named pipes.
  \<^item> CN_Service, select_servers/serviceserver: the main server's two threads as steps on their
  shared table, with reachability and its invariants, and the programs around them.
  \<^item> CN_Pipes, select_servers/multiserver and select_servers/logserver: a server that hands out the
  pipes of two services up to a limit each, shown to serve the first that ask, and the log server.
  \<^item> CN_Multi, multiserver, selectservers/multiserver, allinone, selectservers/allinone, exam/3,
  select_servers/allinoneserver: servers that start a service for a request, and servers that read
  the keyboard, pipes and programs; the remaining clients of select_servers.
  \<^item> CN_Super, mid/superserver, mid/inetd, end/dupserver, end/selectserver, sockets1/concurrentserver,
  end/conserver and end/sockets/server.c: super-servers and their services; which descriptors a
  server still holds after its clients, told by the monitor of descriptors.
  \<^item> CN_Ftp, ftp, mid/udp and end/udp: the words of a file sent by a server that runs against a model
  of the C library's file, and datagrams echoed in upper case.
  \<^item> CN_Pairs, sockets, sockets1, mid/socketbasic, mid/permserver, end/unixsock, unixsockets/basic,
  unixsockets/tss and unixsockets/printserver: pairs that exchange messages or descriptors.
  \<^item> CN_Rpc, rpc/arraysum, rpc/square, end/rpc/add_server.c, list_client.c and list_server.c: remote
  procedures with a static variable, and a linked list in memory shown to refine a list.
  \<^item> CN_Xdr, the filters of rpc/nfs/nfs_xdr.c, end/rpc/add_xdr.c and rpc/square/square_xdr.c over a
  library of primitive filters. The locale xdr_codec is the contract of a filter (it writes one
  string of a fixed width, reads it back, and refuses less), with rules for one filter after
  another, for arrays and for another form of the values; the locale xdr_library has the laws of
  the primitive filters, and gives the contract for every generated filter as a sublocale. The
  interpretation rfc is the encoding of RFC 4506.
  \<^item> CN_Stub, the stubs and servers that rpcgen generated around those filters: a call carried from
  the client stub to the dispatch function is shown to be a call of the procedure, up to what
  answers that are no ints could tell (the relation agree).
  \<^item> CN_Remote: the whole remote file service, with the client's calls linked to the stubs and the
  server, on a kernel with a keyboard and files; what a typed write and a typed read do.
  \<^item> CN_Small: exercises with pipes, signals, processes and threads.
  \<^item> CN_Hamming, errcorrection/hamming.cpp and first.cpp: the Hamming code as the program's
  arithmetic on an array, with its search for a wrong bit, and the parity bit.
  \<^item> CN_Sniffer, rawsockets: newclient.c with its log of headers and its dump of the data, which
  is shown equal to a row-by-row reference, and the raw socket pairs raw1, raw2, train,
  socket_bind and print_header.
  \<^item> CN_Backup, unixsockets/bs: a server that passes its connections to a backup when it is
  interrupted; the signal handlers are programs over the global variables, and the theorem runs
  server, hand-over and backup one after the other.
  \<^item> CN_Threads, mid/multithreaded, mid/prethreaded and the services of mid/tss: a process as main,
  a shared variable and threads, interleaved call by call by a step relation. The monitor handoff
  and the locale threaded derive what the threads can serve in every interleaving; each program is
  an interpretation (mt, svc1, svc2, svc3).
  \<^item> CN_Time, mid/tss and mid/ss: the dispatcher that starts the services on demand, and the server
  that listens on three ports.
  \<^item> CN_Train, rawsockets/trainmain and exam/4: station masters, platforms and trains.
  \<^item> CN_System: several processes on one kernel, moved by a schedule, with signals. Each process has a
  contract: what its calls and lines may be in the state of a monitor, and what answers it relies on
  (keeps). The locale composition has the obligations of a kernel and an invariant over all monitors;
  its theorem composed gives the invariant in every state of every schedule.
  \<^item> CN_Counter: the counter and the three servers of CN_Cascade as such a system, started up and
  connected by sockets that carry connections; the contracts are ledgers of connections, and the
  interpretation tickets follows every client through every interleaving.
  \<^item> CN_Burst: one turn of each program of that system as a lemma on reachability; chained, they show that
  the service does close for seven clients.
  \<^item> CN_Shared: the two processes of unixsockets/printserver/server1.c that read from one open file
  (interpretation shared).
  \<^item> CN_Safe: type safety for some sixty of the programs, with one typing rule for each operation
  they share; loops keep the type of their state, which may count the turns.

  Bounds. Integers are HOL integers where the C program only copies, prints or compares them;
  the theorems that send a number assume that it is an int (int32) or a port. Sizes of the
  remote file service, which are unsigned, are 32-bit words, ports 16-bit words. Overflow of
  signed arithmetic in perm_bit, in the sums of CN_Rpc and in multiserver/s1.c is an explicit
  outcome. Fuel: the ftp server needs two turns more than the file has words, and then exits; the
  walk of CN_Rpc one step more than the list has nodes; the ticket service closes
  within seven turns of each loop; all other theorems on loops are for as many
  turns as answers are given, or for every number of turns.

  What the models leave out. perror and fflush have no effect on a run. Array elements that C
  leaves uninitialised are parameters. Reading a character array that has no NUL stops at the
  end of the array. A thread is a program of its own; the interleaving of threads is modelled in
  CN_Service, with a whole turn of a thread as one step, and in CN_Threads, with one call as one
  step, and of processes in CN_System, with one call or one printed line as one step. There the kernels of
  CN_Counter and CN_Shared carry connections and file positions as UNIX documents it; system calls
  that fail for want of resources are left to the theorems about one program. The primitive filters of the XDR library are parameters (an xdrlib) with the laws that
  xdr_library states; the commands of nfs_client.c make the call Clnt_call where they call a stub, and linked in
  CN_Remote puts the stub in its place.
  The headers that rpcgen generated and the exact copies under programs/ are not modelled;
  rawsockets/trainmain/advert.c, exam/5/server.c and sockets1/iss/mainserver.c do not compile. The
  few remaining programs are listed in the manifest.
\<close>

end
